(* ===== verification/Prelude.thy ===== *)
theory Prelude
  imports Main "HOL-Library.Word" "HOL-Library.Signed_Division"
begin

unbundle bit_operations_syntax

text \<open>
  Shared ground of the development: the C integer types, C strings and byte buffers, the wrapping
  subtraction of \<^verbatim>\<open>size_t\<close>, and the lemmas about lists and words that the component
  theories use.

  A C \<^verbatim>\<open>char\<close> array that the program treats as raw memory is a \<open>byte list\<close> whose length is
  the size of the array; a C string that the program only compares or forwards is a HOL
  \<^typ>\<open>string\<close> (one \<^typ>\<open>char\<close> per byte, without the terminating NUL).
\<close>

type_synonym byte = "8 word"
type_synonym u32 = "32 word"

named_theorems frame_simps \<open>fields that an operation leaves unchanged\<close>

section \<open>C memory and strings\<close>

definition byte_of_char :: "char \<Rightarrow> byte" where
  "byte_of_char c = word_of_nat (of_char c)"

definition char_of_byte :: "byte \<Rightarrow> char" where
  "char_of_byte b = char_of (unat b)"

text \<open>The C string at the start of a buffer: the bytes before the first NUL.\<close>

definition cstr :: "byte list \<Rightarrow> byte list" where
  "cstr buf = takeWhile (\<lambda>b. b \<noteq> 0) buf"

definition c_strlen :: "byte list \<Rightarrow> nat" where
  "c_strlen buf = length (cstr buf)"

definition string_of_bytes :: "byte list \<Rightarrow> string" where
  "string_of_bytes buf = map char_of_byte (cstr buf)"

definition bytes_of_string :: "string \<Rightarrow> byte list" where
  "bytes_of_string s = map byte_of_char s"

text \<open>\<^verbatim>\<open>size_t\<close> subtraction on a 64-bit target wraps around.\<close>

definition size_sub :: "nat \<Rightarrow> nat \<Rightarrow> nat" where
  "size_sub a b = (a + (2 ^ 64 - b mod 2 ^ 64)) mod 2 ^ 64"

text \<open>Conversion of a wider integer to a 32-bit \<^verbatim>\<open>int\<close> keeps the low bits.\<close>

definition c_int :: "int \<Rightarrow> int" where
  "c_int x = sint (word_of_int x :: 32 word)"

section \<open>Oracles\<close>

text \<open>
  Results of calls whose outcome the program does not determine (allocation, \<^verbatim>\<open>mlock\<close>,
  \<^verbatim>\<open>rand\<close>) are read one by one from a list; when the list is used up the default is returned.
\<close>

definition next_result :: "'a \<Rightarrow> 'a list \<Rightarrow> 'a \<times> 'a list" where
  "next_result d xs = (case xs of [] \<Rightarrow> (d, []) | x # ys \<Rightarrow> (x, ys))"

section \<open>Lemmas\<close>

lemma char_of_byte_of_char [simp]: "char_of_byte (byte_of_char c) = c"
  by (simp add: char_of_byte_def byte_of_char_def unat_of_nat char_of_take_bit_eq
      flip: take_bit_eq_mod)

lemma byte_of_char_of_byte [simp]: "byte_of_char (char_of_byte b) = b"
proof -
  have "unat b < 256"
    using unsigned_less [of b, where ?'a = nat] by simp
  then show ?thesis
    by (simp add: char_of_byte_def byte_of_char_def)
qed

lemma byte_of_char_0_iff [simp]: "byte_of_char c = 0 \<longleftrightarrow> c = CHR 0x00"
proof
  have zero: "char_of_byte 0 = CHR 0x00"
    by (simp add: char_of_byte_def char_of_def)
  assume "byte_of_char c = 0"
  then show "c = CHR 0x00"
    using zero by (metis char_of_byte_of_char)
next
  assume "c = CHR 0x00"
  then show "byte_of_char c = 0"
    by (simp add: byte_of_char_def)
qed

lemma cstr_append_nul [simp]: "0 \<notin> set xs \<Longrightarrow> cstr (xs @ 0 # ys) = xs"
  by (induction xs) (auto simp: cstr_def)

lemma cstr_no_nul [simp]: "0 \<notin> set xs \<Longrightarrow> cstr xs = xs"
  by (induction xs) (auto simp: cstr_def)

lemma cstr_Nil [simp]: "cstr [] = []"
  by (simp add: cstr_def)

lemma cstr_zero [simp]: "cstr (0 # xs) = []"
  by (simp add: cstr_def)

lemma nul_notin_cstr [simp]: "0 \<notin> set (cstr buf)"
  unfolding cstr_def by (auto dest: set_takeWhileD)

lemma cstr_append_nul_general: "cstr (xs @ 0 # ys) = cstr xs"
  by (induction xs) (auto simp: cstr_def)

lemma string_of_bytes_of_string [simp]:
  "CHR 0x00 \<notin> set s \<Longrightarrow> string_of_bytes (bytes_of_string s @ 0 # ys) = s"
proof -
  assume "CHR 0x00 \<notin> set s"
  then have "0 \<notin> set (bytes_of_string s)"
    by (induction s) (auto simp: bytes_of_string_def)
  then show ?thesis
    by (simp add: string_of_bytes_def bytes_of_string_def comp_def)
qed

lemma length_bytes_of_string [simp]: "length (bytes_of_string s) = length s"
  by (simp add: bytes_of_string_def)

lemma size_sub_le [simp]: "b \<le> a \<Longrightarrow> a < 2 ^ 64 \<Longrightarrow> size_sub a b = a - b"
proof -
  assume ab: "b \<le> a" "a < 2 ^ 64"
  then have "a + (2 ^ 64 - b mod 2 ^ 64) = (a - b) + 2 ^ 64"
    by simp
  moreover have "(a - b + 2 ^ 64) mod 2 ^ 64 = a - b"
    using ab by (metis le_less_trans diff_le_self mod_add_self2 mod_less)
  ultimately show ?thesis
    by (simp add: size_sub_def)
qed

lemma c_int_id: "- (2 ^ 31) \<le> x \<Longrightarrow> x < 2 ^ 31 \<Longrightarrow> c_int x = x"
  by (simp add: c_int_def signed_take_bit_int_eq_self sint_word_ariths(1) signed_of_int)

lemma next_result_simps [simp]:
  "next_result d [] = (d, [])"
  "next_result d (x # xs) = (x, xs)"
  by (simp_all add: next_result_def)

lemma list_update_split:
  "i < length xs \<Longrightarrow> xs[i := v] = take i xs @ v # drop (Suc i) xs"
  by (rule upd_conv_take_nth_drop)

lemma take_append_nth_0:
  "xs @ ys = zs \<Longrightarrow> take (length xs) zs = xs"
  by auto

end
