(* ===== verification/Unicode.thy ===== *)
theory Unicode
  imports Prelude
begin

text \<open>
  \<^verbatim>\<open>src/unicode.c\<close>: the UTF-8 helpers of the password buffer. The functions work on a
  \<^verbatim>\<open>char\<close> buffer (a \<open>byte list\<close>) through an offset that stands for the C pointer into it.
  The reference encoder \<open>utf8_bytes\<close> and the RFC 3629 decoder \<open>utf8_decode_ref\<close> are
  specifications; \<^verbatim>\<open>unicode.h\<close> declares a \<^verbatim>\<open>utf8_decode\<close> that no source file defines.
\<close>

section \<open>The code\<close>

definition utf8_chsize :: "u32 \<Rightarrow> nat" where
  "utf8_chsize ch =
     (if ch < 0x80 then 1
      else if ch < 0x800 then 2
      else if ch < 0x10000 then 3
      else 4)"

text \<open>
  The \<^verbatim>\<open>for\<close> loop of \<^verbatim>\<open>utf8_encode\<close>: index \<open>i\<close> runs down to 1, each round stores the low six
  bits of \<open>ch\<close> as a continuation byte.
\<close>

fun utf8_encode_loop :: "byte list \<Rightarrow> nat \<Rightarrow> nat \<Rightarrow> u32 \<Rightarrow> byte list \<times> u32" where
  "utf8_encode_loop str p 0 ch = (str, ch)"
| "utf8_encode_loop str p (Suc i) ch =
     utf8_encode_loop (str[p + Suc i := ucast ((ch AND 0x3f) OR 0x80)]) p i (drop_bit 6 ch)"

definition utf8_encode :: "byte list \<Rightarrow> nat \<Rightarrow> u32 \<Rightarrow> byte list \<times> nat" where
  "utf8_encode str p ch =
     (let (first, len) =
        (if ch < 0x80 then (0 :: byte, 1 :: nat)
         else if ch < 0x800 then (0xc0, 2)
         else if ch < 0x10000 then (0xe0, 3)
         else (0xf0, 4));
        (str', ch') = utf8_encode_loop str p (len - 1) ch
      in (str'[p := ucast (ch' OR ucast first)], len))"

text \<open>
  \<^verbatim>\<open>utf8_last_size\<close> walks back from the terminating NUL; \<open>pos\<close> is the pointer, \<open>len\<close> the
  number of bytes passed.
\<close>

fun utf8_last_size_loop :: "byte list \<Rightarrow> nat \<Rightarrow> nat \<Rightarrow> nat" where
  "utf8_last_size_loop str 0 len = 0"
| "utf8_last_size_loop str (Suc pos) len =
     (if (str ! pos) AND 0xc0 \<noteq> 0x80 then Suc len
      else utf8_last_size_loop str pos (Suc len))"

definition utf8_last_size :: "byte list \<Rightarrow> nat" where
  "utf8_last_size str = utf8_last_size_loop str (c_strlen str) 0"

definition sizes :: "(byte \<times> byte \<times> int) list" where
  "sizes =
     [(0x80, 0x00, 1),
      (0xE0, 0xC0, 2),
      (0xF0, 0xE0, 3),
      (0xF8, 0xF0, 4),
      (0xFC, 0xF8, 5),
      (0xFE, 0xF8, 6),
      (0x80, 0x80, -1)]"

fun utf8_size_loop :: "(byte \<times> byte \<times> int) list \<Rightarrow> byte \<Rightarrow> int" where
  "utf8_size_loop [] c = -1"
| "utf8_size_loop ((m, r, octets) # rest) c =
     (if c AND m = r then octets else utf8_size_loop rest c)"

definition utf8_size :: "byte \<Rightarrow> int" where
  "utf8_size c = utf8_size_loop sizes c"

section \<open>Reference definitions\<close>

definition cont_byte :: "nat \<Rightarrow> u32 \<Rightarrow> byte" where
  "cont_byte k ch = ucast ((drop_bit (6 * k) ch AND 0x3f) OR 0x80)"

definition utf8_bytes :: "u32 \<Rightarrow> byte list" where
  "utf8_bytes ch =
     (if ch < 0x80 then [ucast ch]
      else if ch < 0x800 then [ucast (drop_bit 6 ch OR 0xc0), cont_byte 0 ch]
      else if ch < 0x10000 then
        [ucast (drop_bit 12 ch OR 0xe0), cont_byte 1 ch, cont_byte 0 ch]
      else [ucast (drop_bit 18 ch OR 0xf0), cont_byte 2 ch, cont_byte 1 ch, cont_byte 0 ch])"

definition is_cont :: "byte \<Rightarrow> bool" where
  "is_cont b \<longleftrightarrow> b AND 0xc0 = 0x80"

definition payload_bits :: "byte \<Rightarrow> u32" where
  "payload_bits b = ucast (b AND 0x3f)"

fun utf8_decode_ref :: "byte list \<Rightarrow> (u32 \<times> byte list) option" where
  "utf8_decode_ref [] = None"
| "utf8_decode_ref (b # bs) =
     (if b AND 0x80 = 0 then Some (ucast b, bs)
      else if b AND 0xe0 = 0xc0 then
        (case bs of c1 # r \<Rightarrow>
           Some (push_bit 6 (ucast (b AND 0x1f)) OR payload_bits c1, r)
         | _ \<Rightarrow> None)
      else if b AND 0xf0 = 0xe0 then
        (case bs of c1 # c2 # r \<Rightarrow>
           Some (push_bit 12 (ucast (b AND 0x0f)) OR push_bit 6 (payload_bits c1)
                 OR payload_bits c2, r)
         | _ \<Rightarrow> None)
      else if b AND 0xf8 = 0xf0 then
        (case bs of c1 # c2 # c3 # r \<Rightarrow>
           Some (push_bit 18 (ucast (b AND 0x07)) OR push_bit 12 (payload_bits c1)
                 OR push_bit 6 (payload_bits c2) OR payload_bits c3, r)
         | _ \<Rightarrow> None)
      else None)"

section \<open>Bit-level facts\<close>

lemma bit_below: "(ch :: u32) < 2 ^ n \<Longrightarrow> n \<le> i \<Longrightarrow> \<not> bit ch i"
proof -
  assume a: "ch < 2 ^ n" "n \<le> i"
  then have "ch AND mask n = ch"
    by (simp add: less_mask_eq)
  then show ?thesis
    using a(2) by (metis bit_and_iff bit_mask_iff linorder_not_less)
qed

lemma nat_less_32_cases:
  "(n :: nat) < 32 \<longleftrightarrow>
     n \<in> {0, 1, 2, 3, 4, 5, 6, 7, 8, 9, 10, 11, 12, 13, 14, 15, 16, 17, 18, 19, 20, 21, 22, 23, 24,
       25, 26, 27, 28, 29, 30, 31}"
  by (auto simp: numeral_eq_Suc less_Suc_eq)

lemma nat_less_8_cases: "(n :: nat) < 8 \<longleftrightarrow> n \<in> {0, 1, 2, 3, 4, 5, 6, 7}"
  by (auto simp: numeral_eq_Suc less_Suc_eq)

lemma decode1_bits: "(ch :: u32) < 0x80 \<Longrightarrow> ucast (ucast ch :: byte) = ch"
proof (rule bit_word_eqI)
  fix n assume "ch < 0x80" and n: "n < LENGTH(32)"
  then have "\<And>i. 7 \<le> i \<Longrightarrow> \<not> bit ch i"
    using bit_below [of ch 7] by simp
  then show "bit (ucast (ucast ch :: byte) :: u32) n = bit ch n"
    using n by (cases "n < 8") (simp_all add: bit_simps)
qed

lemma decode2_bits:
  assumes "(ch :: u32) < 0x800"
  shows "push_bit 6 (ucast ((ucast (drop_bit 6 ch OR 0xc0) :: byte) AND 0x1f))
           OR payload_bits (cont_byte 0 ch) = ch"
proof (rule bit_word_eqI)
  fix n assume n: "n < LENGTH(32)"
  have "\<And>i. 11 \<le> i \<Longrightarrow> \<not> bit ch i"
    using bit_below [of ch 11] assms by simp
  then show "bit (push_bit 6 (ucast ((ucast (drop_bit 6 ch OR 0xc0) :: byte) AND 0x1f))
           OR payload_bits (cont_byte 0 ch)) n = bit ch n"
    using n unfolding payload_bits_def cont_byte_def
    by (simp add: nat_less_32_cases, elim disjE; simp add: bit_simps)
qed

lemma decode3_bits:
  assumes "(ch :: u32) < 0x10000"
  shows "push_bit 12 (ucast ((ucast (drop_bit 12 ch OR 0xe0) :: byte) AND 0x0f))
           OR push_bit 6 (payload_bits (cont_byte 1 ch)) OR payload_bits (cont_byte 0 ch) = ch"
proof (rule bit_word_eqI)
  fix n assume n: "n < LENGTH(32)"
  have "\<And>i. 16 \<le> i \<Longrightarrow> \<not> bit ch i"
    using bit_below [of ch 16] assms by simp
  then show "bit (push_bit 12 (ucast ((ucast (drop_bit 12 ch OR 0xe0) :: byte) AND 0x0f))
           OR push_bit 6 (payload_bits (cont_byte 1 ch)) OR payload_bits (cont_byte 0 ch)) n
         = bit ch n"
    using n unfolding payload_bits_def cont_byte_def
    by (simp add: nat_less_32_cases, elim disjE; simp add: bit_simps)
qed

lemma decode4_bits:
  assumes "(ch :: u32) < 0x200000"
  shows "push_bit 18 (ucast ((ucast (drop_bit 18 ch OR 0xf0) :: byte) AND 0x07))
           OR push_bit 12 (payload_bits (cont_byte 2 ch))
           OR push_bit 6 (payload_bits (cont_byte 1 ch)) OR payload_bits (cont_byte 0 ch) = ch"
proof (rule bit_word_eqI)
  fix n assume n: "n < LENGTH(32)"
  have "\<And>i. 21 \<le> i \<Longrightarrow> \<not> bit ch i"
    using bit_below [of ch 21] assms by simp
  then show "bit (push_bit 18 (ucast ((ucast (drop_bit 18 ch OR 0xf0) :: byte) AND 0x07))
           OR push_bit 12 (payload_bits (cont_byte 2 ch))
           OR push_bit 6 (payload_bits (cont_byte 1 ch)) OR payload_bits (cont_byte 0 ch)) n
         = bit ch n"
    using n unfolding payload_bits_def cont_byte_def
    by (simp add: nat_less_32_cases, elim disjE; simp add: bit_simps)
qed

text \<open>Masks of lead and continuation bytes, bit by bit.\<close>

lemma byte_eqI: "(\<And>n. n < 8 \<Longrightarrow> bit a n = bit b n) \<Longrightarrow> a = (b :: byte)"
  by (rule bit_word_eqI) simp

lemma is_cont_cont_byte [simp]: "is_cont (cont_byte k ch)"
  unfolding is_cont_def cont_byte_def
  by (rule byte_eqI) (simp add: nat_less_8_cases, elim disjE; simp add: bit_simps)

lemma lead1_mask:
  assumes "(ch :: u32) < 0x80"
  shows "(ucast ch :: byte) AND 0x80 = 0" "\<not> is_cont (ucast ch)"
proof -
  have b: "\<not> bit ch 7"
    using bit_below [of ch 7 7] assms by simp
  show *: "(ucast ch :: byte) AND 0x80 = 0"
    by (rule byte_eqI) (use b in \<open>simp add: nat_less_8_cases, elim disjE; simp add: bit_simps\<close>)
  show "\<not> is_cont (ucast ch)"
  proof
    assume "is_cont (ucast ch)"
    then have "bit ((ucast ch :: byte) AND 0xc0) 7"
      unfolding is_cont_def by simp
    then show False
      using b by (simp add: bit_simps)
  qed
qed

lemma lead2_mask:
  assumes "(ch :: u32) < 0x800"
  shows "(ucast (drop_bit 6 ch OR 0xc0) :: byte) AND 0xe0 = 0xc0"
proof -
  have b: "\<And>i. 11 \<le> i \<Longrightarrow> \<not> bit ch i"
    using bit_below [of ch 11] assms by simp
  show ?thesis
    by (rule byte_eqI) (use b in \<open>simp add: nat_less_8_cases, elim disjE; simp add: bit_simps\<close>)
qed

lemma lead3_mask:
  assumes "(ch :: u32) < 0x10000"
  shows "(ucast (drop_bit 12 ch OR 0xe0) :: byte) AND 0xf0 = 0xe0"
proof -
  have b: "\<And>i. 16 \<le> i \<Longrightarrow> \<not> bit ch i"
    using bit_below [of ch 16] assms by simp
  show ?thesis
    by (rule byte_eqI) (use b in \<open>simp add: nat_less_8_cases, elim disjE; simp add: bit_simps\<close>)
qed

lemma lead4_mask:
  assumes "(ch :: u32) < 0x200000"
  shows "(ucast (drop_bit 18 ch OR 0xf0) :: byte) AND 0xf8 = 0xf0"
proof -
  have b: "\<And>i. 21 \<le> i \<Longrightarrow> \<not> bit ch i"
    using bit_below [of ch 21] assms by simp
  show ?thesis
    by (rule byte_eqI) (use b in \<open>simp add: nat_less_8_cases, elim disjE; simp add: bit_simps\<close>)
qed

text \<open>Bytes whose top two bits are set are neither NUL, nor ASCII, nor continuation bytes.\<close>

lemma top_bits_lead:
  assumes "bit (b :: byte) 7" "bit b 6"
  shows "\<not> is_cont b" "b AND 0x80 \<noteq> 0" "b \<noteq> 0"
proof -
  have six: "bit (b AND 0xc0) 6" and seven: "bit (b AND 0x80) 7"
    using assms by (simp_all add: bit_simps)
  show "\<not> is_cont b"
  proof
    assume "is_cont b"
    then have "bit (0x80 :: byte) 6"
      using six unfolding is_cont_def by simp
    then show False by simp
  qed
  show "b AND 0x80 \<noteq> 0"
    using seven by (metis bit_0_eq bot_apply bot_bool_def)
  show "b \<noteq> 0"
    using assms by auto
qed

lemma lead_top_bits:
  "bit (ucast (drop_bit 6 (ch :: u32) OR 0xc0) :: byte) 7"
  "bit (ucast (drop_bit 6 ch OR 0xc0) :: byte) 6"
  "bit (ucast (drop_bit 12 ch OR 0xe0) :: byte) 7"
  "bit (ucast (drop_bit 12 ch OR 0xe0) :: byte) 6"
  "bit (ucast (drop_bit 18 ch OR 0xf0) :: byte) 7"
  "bit (ucast (drop_bit 18 ch OR 0xf0) :: byte) 6"
  by (simp_all add: bit_simps)

lemmas lead_not_cont =
  top_bits_lead(1) [OF lead_top_bits(1,2)] top_bits_lead(1) [OF lead_top_bits(3,4)]
  top_bits_lead(1) [OF lead_top_bits(5,6)]

lemmas lead_not_ascii =
  top_bits_lead(2) [OF lead_top_bits(1,2)] top_bits_lead(2) [OF lead_top_bits(3,4)]
  top_bits_lead(2) [OF lead_top_bits(5,6)]

lemmas lead_not_nul =
  top_bits_lead(3) [OF lead_top_bits(1,2)] top_bits_lead(3) [OF lead_top_bits(3,4)]
  top_bits_lead(3) [OF lead_top_bits(5,6)]

lemma lead3_not_lead2:
  "(ucast (drop_bit 12 (ch :: u32) OR 0xe0) :: byte) AND 0xe0 \<noteq> 0xc0"
proof
  assume a: "(ucast (drop_bit 12 ch OR 0xe0) :: byte) AND 0xe0 = 0xc0"
  have "bit ((ucast (drop_bit 12 ch OR 0xe0) :: byte) AND 0xe0) 5"
    by (simp add: bit_simps)
  then show False
    unfolding a by simp
qed

lemma lead4_not_lead23:
  "(ucast (drop_bit 18 (ch :: u32) OR 0xf0) :: byte) AND 0xe0 \<noteq> 0xc0"
  "(ucast (drop_bit 18 (ch :: u32) OR 0xf0) :: byte) AND 0xf0 \<noteq> 0xe0"
proof -
  let ?b = "ucast (drop_bit 18 ch OR 0xf0) :: byte"
  have b: "bit (?b AND 0xe0) 5" "bit (?b AND 0xf0) 4"
    by (simp_all add: bit_simps)
  show "?b AND 0xe0 \<noteq> 0xc0"
  proof
    assume "?b AND 0xe0 = 0xc0"
    with b(1) show False by simp
  qed
  show "?b AND 0xf0 \<noteq> 0xe0"
  proof
    assume "?b AND 0xf0 = 0xe0"
    with b(2) show False by simp
  qed
qed

lemma cont_not_nul [simp]: "cont_byte k ch \<noteq> 0" "0 \<noteq> cont_byte k ch"
  using is_cont_cont_byte [of k ch] by (auto simp: is_cont_def)

section \<open>Shape of an encoded character\<close>

lemma length_utf8_bytes [simp]: "length (utf8_bytes ch) = utf8_chsize ch"
  by (simp add: utf8_bytes_def utf8_chsize_def)

lemma utf8_chsize_bounds: "1 \<le> utf8_chsize ch" "utf8_chsize ch \<le> 4"
  by (simp_all add: utf8_chsize_def)

lemma utf8_chsize_pos [simp]: "0 < utf8_chsize ch"
  using utf8_chsize_bounds(1) [of ch] by simp

lemma utf8_bytes_Cons:
  obtains b bs where "utf8_bytes ch = b # bs" "\<not> is_cont b" "list_all is_cont bs"
proof (cases "utf8_bytes ch")
  case Nil
  then have "utf8_chsize ch = 0"
    by (metis length_utf8_bytes list.size(3))
  then show ?thesis
    using utf8_chsize_pos [of ch] by linarith
next
  case (Cons b bs)
  then have "\<not> is_cont b" "list_all is_cont bs"
    by (auto simp: utf8_bytes_def lead1_mask lead_not_cont split: if_splits)
  with Cons show ?thesis by (rule that)
qed

lemma utf8_bytes_no_nul: "ch \<noteq> 0 \<Longrightarrow> 0 \<notin> set (utf8_bytes ch)"
proof -
  assume nz: "ch \<noteq> 0"
  have "ch < 0x80 \<Longrightarrow> (ucast ch :: byte) \<noteq> 0"
    using nz decode1_bits [of ch] by (metis unsigned_0)
  then show ?thesis
    using lead_not_nul [of ch] by (auto simp: utf8_bytes_def dest: sym)
qed

section \<open>The encoder writes the reference encoding\<close>

lemma update_run_2:
  "Suc p < length xs \<Longrightarrow> xs[Suc p := b, p := a] = take p xs @ [a, b] @ drop (Suc (Suc p)) xs"
proof (induction p arbitrary: xs)
  case 0
  then show ?case by (cases xs; cases "tl xs") auto
next
  case (Suc p)
  then show ?case by (cases xs) auto
qed

lemma update_run_3:
  "Suc (Suc p) < length xs \<Longrightarrow>
     xs[Suc (Suc p) := c, Suc p := b, p := a]
       = take p xs @ [a, b, c] @ drop (Suc (Suc (Suc p))) xs"
proof (induction p arbitrary: xs)
  case 0
  then show ?case by (cases xs; cases "tl xs"; cases "tl (tl xs)") auto
next
  case (Suc p)
  then show ?case by (cases xs) auto
qed

lemma update_run_4:
  "Suc (Suc (Suc p)) < length xs \<Longrightarrow>
     xs[Suc (Suc (Suc p)) := d, Suc (Suc p) := c, Suc p := b, p := a]
       = take p xs @ [a, b, c, d] @ drop (Suc (Suc (Suc (Suc p)))) xs"
proof (induction p arbitrary: xs)
  case 0
  then show ?case by (cases xs; cases "tl xs"; cases "tl (tl xs)"; cases "tl (tl (tl xs))") auto
next
  case (Suc p)
  then show ?case by (cases xs) auto
qed

lemma utf8_encode_loop_runs:
  "utf8_encode_loop str p (Suc 0) ch = (str[Suc p := cont_byte 0 ch], drop_bit 6 ch)"
  "utf8_encode_loop str p (Suc (Suc 0)) ch =
     (str[Suc (Suc p) := cont_byte 0 ch, Suc p := cont_byte 1 ch], drop_bit 12 ch)"
  "utf8_encode_loop str p (Suc (Suc (Suc 0))) ch =
     (str[Suc (Suc (Suc p)) := cont_byte 0 ch, Suc (Suc p) := cont_byte 1 ch,
          Suc p := cont_byte 2 ch], drop_bit 18 ch)"
  by (simp_all add: cont_byte_def)

lemma utf8_encode_runs:
  "p + 2 \<le> length str \<Longrightarrow> (case utf8_encode_loop str p (2 - 1) ch of (str', ch') \<Rightarrow> (str'[p := f ch'], n)) =
     (take p str @ [f (drop_bit 6 ch), cont_byte 0 ch] @ drop (p + 2) str, n)"
  "p + 3 \<le> length str \<Longrightarrow> (case utf8_encode_loop str p (3 - 1) ch of (str', ch') \<Rightarrow> (str'[p := f ch'], n)) =
     (take p str @ [f (drop_bit 12 ch), cont_byte 1 ch, cont_byte 0 ch] @ drop (p + 3) str, n)"
  "p + 4 \<le> length str \<Longrightarrow> (case utf8_encode_loop str p (4 - 1) ch of (str', ch') \<Rightarrow> (str'[p := f ch'], n)) =
     (take p str @ [f (drop_bit 18 ch), cont_byte 2 ch, cont_byte 1 ch, cont_byte 0 ch]
        @ drop (p + 4) str, n)"
  using update_run_2 [of p str "cont_byte 0 ch" "f (drop_bit 6 ch)"]
    update_run_3 [of p str "cont_byte 0 ch" "cont_byte 1 ch" "f (drop_bit 12 ch)"]
    update_run_4 [of p str "cont_byte 0 ch" "cont_byte 1 ch" "cont_byte 2 ch" "f (drop_bit 18 ch)"]
    utf8_encode_loop_runs [of str p ch]
  by (simp_all add: eval_nat_numeral)

lemma utf8_encode_writes:
  assumes "p + utf8_chsize ch \<le> length buf"
  shows "utf8_encode buf p ch =
           (take p buf @ utf8_bytes ch @ drop (p + utf8_chsize ch) buf, utf8_chsize ch)"
proof -
  consider "ch < 0x80" | "\<not> ch < 0x80" "ch < 0x800"
    | "\<not> ch < 0x80" "\<not> ch < 0x800" "ch < 0x10000"
    | "\<not> ch < 0x80" "\<not> ch < 0x800" "\<not> ch < 0x10000"
    by blast
  then show ?thesis
  proof cases
    case 1
    then show ?thesis
      using assms by (simp add: utf8_encode_def utf8_bytes_def utf8_chsize_def list_update_split)
  next
    case 2
    then show ?thesis
      using assms utf8_encode_runs(1) [of p buf]
      by (simp add: utf8_encode_def utf8_bytes_def utf8_chsize_def Let_def)
  next
    case 3
    then show ?thesis
      using assms utf8_encode_runs(2) [of p buf]
      by (simp add: utf8_encode_def utf8_bytes_def utf8_chsize_def Let_def)
  next
    case 4
    then show ?thesis
      using assms utf8_encode_runs(3) [of p buf]
      by (simp add: utf8_encode_def utf8_bytes_def utf8_chsize_def Let_def)
  qed
qed

section \<open>Round trips\<close>

lemma utf8_decode_ref_bytes:
  assumes "ch < 0x200000"
  shows "utf8_decode_ref (utf8_bytes ch @ rest) = Some (ch, rest)"
proof -
  consider "ch < 0x80" | "\<not> ch < 0x80" "ch < 0x800"
    | "\<not> ch < 0x80" "\<not> ch < 0x800" "ch < 0x10000"
    | "\<not> ch < 0x80" "\<not> ch < 0x800" "\<not> ch < 0x10000"
    by blast
  then show ?thesis
  proof cases
    case 1
    then show ?thesis
      by (simp add: utf8_bytes_def lead1_mask decode1_bits)
  next
    case 2
    then show ?thesis
      using decode2_bits [of ch] by (simp add: utf8_bytes_def lead_not_ascii lead2_mask)
  next
    case 3
    then show ?thesis
      using decode3_bits [of ch]
      by (simp add: utf8_bytes_def lead_not_ascii lead3_mask lead3_not_lead2)
  next
    case 4
    then show ?thesis
      using decode4_bits [of ch] assms
      by (simp add: utf8_bytes_def lead_not_ascii lead4_mask lead4_not_lead23)
  qed
qed

lemma utf8_size_of_bytes:
  assumes "ch < 0x200000"
  shows "utf8_size (hd (utf8_bytes ch)) = int (utf8_chsize ch)"
  using assms
  by (simp add: utf8_size_def sizes_def utf8_bytes_def utf8_chsize_def lead1_mask lead_not_ascii
      lead2_mask lead3_mask lead3_not_lead2 lead4_mask lead4_not_lead23)

section \<open>Finding the last character\<close>

lemma utf8_last_size_loop_run:
  assumes "\<not> is_cont (str ! p)" "\<And>i. p < i \<Longrightarrow> i \<le> p + k \<Longrightarrow> is_cont (str ! i)"
  shows "utf8_last_size_loop str (Suc (p + k)) n = n + Suc k"
  using assms
proof (induction k arbitrary: n)
  case 0
  then show ?case by (simp add: is_cont_def)
next
  case (Suc k)
  then have "is_cont (str ! (p + Suc k))"
    by simp
  moreover have "utf8_last_size_loop str (Suc (p + k)) (Suc n) = Suc n + Suc k"
    using Suc by simp
  ultimately show ?case
    by (simp add: is_cont_def)
qed

lemma utf8_last_size_snoc:
  assumes "0 \<notin> set pre" "ch \<noteq> 0"
  shows "utf8_last_size (pre @ utf8_bytes ch @ 0 # rest) = utf8_chsize ch"
proof -
  obtain b bs where b: "utf8_bytes ch = b # bs" "\<not> is_cont b" "list_all is_cont bs"
    by (rule utf8_bytes_Cons)
  let ?s = "pre @ utf8_bytes ch @ 0 # rest"
  have "0 \<notin> set (pre @ utf8_bytes ch)"
    using assms utf8_bytes_no_nul by simp
  then have "cstr ?s = pre @ utf8_bytes ch"
    using cstr_append_nul [of "pre @ utf8_bytes ch" rest] by simp
  then have len: "c_strlen ?s = Suc (length pre + length bs)"
    by (simp add: c_strlen_def b(1))
  have "is_cont (?s ! i)" if "length pre < i" "i \<le> length pre + length bs" for i
  proof -
    define j where "j = i - Suc (length pre)"
    have "i = length pre + Suc j" "j < length bs"
      using that by (simp_all add: j_def)
    then show ?thesis
      using b by (simp add: nth_append list_all_length)
  qed
  moreover have "\<not> is_cont (?s ! length pre)"
    using b by (simp add: nth_append)
  ultimately have "utf8_last_size ?s = Suc (length bs)"
    unfolding utf8_last_size_def len
    using utf8_last_size_loop_run [of ?s "length pre" "length bs" 0] by simp
  also have "\<dots> = utf8_chsize ch"
    using b(1) length_utf8_bytes [of ch] by simp
  finally show ?thesis .
qed

lemma utf8_last_size_empty [simp]: "cstr s = [] \<Longrightarrow> utf8_last_size s = 0"
  by (simp add: utf8_last_size_def c_strlen_def)

section \<open>Properties\<close>

text \<open>
  C32: For every code point, \<^verbatim>\<open>utf8_encode\<close> stores exactly the bytes of its encoding at the
  given position, leaves every other byte of the buffer unchanged and returns
  \<^verbatim>\<open>utf8_chsize\<close>, whenever the buffer has room for it.
\<close>
theorem utf8_encode_correct:
  assumes "p + utf8_chsize ch \<le> length buf"
  shows "utf8_encode buf p ch =
           (take p buf @ utf8_bytes ch @ drop (p + utf8_chsize ch) buf, utf8_chsize ch)"
  using assms by (rule utf8_encode_writes)

theorem utf8_encode_correct_witness:
  "utf8_encode [1, 2, 3, 4, 5] 1 0x20AC = ([1, 0xE2, 0x82, 0xAC, 5], 3)"
proof -
  have h: "1 + utf8_chsize 0x20AC \<le> length [1, 2, 3, 4, 5 :: byte]"
    by (simp add: utf8_chsize_def)
  show ?thesis
    using utf8_encode_correct [OF h]
    by (simp add: utf8_chsize_def utf8_bytes_def cont_byte_def)
qed



text \<open>
  \<^verbatim>\<open>utf8_size\<close> never answers 6: the last but one row of its table tests \<open>0xF8\<close> under the
  mask \<open>0xFE\<close>, which an earlier row already covers, so the lead byte \<open>0xFC\<close> of a six-byte
  sequence is reported as invalid.
\<close>
theorem utf8_size_never_six: "utf8_size c \<noteq> 6 \<and> utf8_size 0xFC = -1"
proof
  have "c AND 0xFC = 0xF8" if "c AND 0xFE = 0xF8"
  proof -
    have "c AND 0xFC = (c AND 0xFE) AND 0xFC"
      by (simp add: and.assoc)
    then show ?thesis
      using that by simp
  qed
  then show "utf8_size c \<noteq> 6"
    by (auto simp: utf8_size_def sizes_def)
  show "utf8_size 0xFC = -1"
    by (simp add: utf8_size_def sizes_def)
qed

end
