(* ===== verification/Password.thy ===== *)
theory Password
  imports Unicode
begin

text \<open>
  The password buffer: \<^verbatim>\<open>struct swaylock_password\<close> of \<^verbatim>\<open>src/include/swaylock.h\<close>, the editing
  operations of \<^verbatim>\<open>src/password.c\<close> (\<^verbatim>\<open>clear_buffer\<close>, \<^verbatim>\<open>clear_password_buffer\<close>, \<^verbatim>\<open>backspace\<close>,
  \<^verbatim>\<open>append_ch\<close>) and the page-locked allocation of \<^verbatim>\<open>src/password-buffer.c\<close>.

  The abstract specification of the buffer is a list of code points: appending a character,
  erasing the last one and clearing are list operations. The locale \<open>line_buffer\<close> states that
  contract for any buffer, proves the refinement of whole editing sessions once, and is
  interpreted on the C buffer.
\<close>

section \<open>Editing operations\<close>

record swaylock_password =
  pw_len :: nat
  pw_buffer_len :: nat
  pw_buffer :: "byte list"

definition clear_buffer :: "byte list \<Rightarrow> nat \<Rightarrow> byte list" where
  "clear_buffer buf sz = fold (\<lambda>i b. b[i := 0]) [0..<sz] buf"

definition clear_password_buffer :: "swaylock_password \<Rightarrow> swaylock_password" where
  "clear_password_buffer pw =
     pw\<lparr>pw_buffer := clear_buffer (pw_buffer pw) (pw_buffer_len pw), pw_len := 0\<rparr>"

definition backspace :: "swaylock_password \<Rightarrow> swaylock_password \<times> bool" where
  "backspace pw =
     (if pw_len pw \<noteq> 0 then
        (let n = size_sub (pw_len pw) (utf8_last_size (pw_buffer pw))
         in (pw\<lparr>pw_len := n, pw_buffer := (pw_buffer pw)[n := 0]\<rparr>, True))
      else (pw, False))"

definition append_ch :: "swaylock_password \<Rightarrow> u32 \<Rightarrow> swaylock_password" where
  "append_ch pw codepoint =
     (let sz = utf8_chsize codepoint in
      if pw_len pw + sz + 1 \<ge> pw_buffer_len pw then pw
      else
        (let buf = fst (utf8_encode (pw_buffer pw) (pw_len pw) codepoint) in
         pw\<lparr>pw_buffer := buf[pw_len pw + sz := 0], pw_len := pw_len pw + sz\<rparr>))"

section \<open>Page-locked allocation\<close>

text \<open>
  Outcomes of \<^verbatim>\<open>mlock\<close>: success, or failure with the \<^verbatim>\<open>errno\<close> values the code distinguishes. The
  k-th call of a run returns the k-th element of a list, success once the list is used up.
\<close>

datatype mlock_result = MlockOk | MlockEAGAIN | MlockEPERM | MlockOther

text \<open>
  \<^verbatim>\<open>password_buffer_lock\<close>: \<^verbatim>\<open>while (mlock(...) != 0 && retries > 0)\<close>. The result is the
  return value, the new \<^verbatim>\<open>mlock_supported\<close> and the outcomes not consumed.
\<close>

fun password_buffer_lock_loop ::
    "nat \<Rightarrow> bool \<Rightarrow> mlock_result list \<Rightarrow> bool \<times> bool \<times> mlock_result list" where
  "password_buffer_lock_loop 0 supported ms =
     (True, supported, snd (next_result MlockOk ms))"
| "password_buffer_lock_loop (Suc r) supported ms =
     (case next_result MlockOk ms of (m, ms') \<Rightarrow>
        (case m of
           MlockOk \<Rightarrow> (True, supported, ms')
         | MlockEAGAIN \<Rightarrow>
             (if r = 0 then (False, supported, ms')
              else password_buffer_lock_loop r supported ms')
         | MlockEPERM \<Rightarrow> (True, False, ms')
         | MlockOther \<Rightarrow> (False, supported, ms')))"

definition password_buffer_lock ::
    "bool \<Rightarrow> mlock_result list \<Rightarrow> bool \<times> bool \<times> mlock_result list" where
  "password_buffer_lock supported ms = password_buffer_lock_loop 5 supported ms"

text \<open>
  \<^verbatim>\<open>password_buffer_create\<close>: \<open>mem\<close> is what \<^verbatim>\<open>posix_memalign\<close> returns, \<open>None\<close> when it fails
  and otherwise the (uninitialised) memory. A buffer that cannot be locked is freed.
\<close>

definition password_buffer_create ::
    "byte list option \<Rightarrow> bool \<Rightarrow> mlock_result list \<Rightarrow>
       byte list option \<times> bool \<times> mlock_result list" where
  "password_buffer_create mem supported ms =
     (case mem of
        None \<Rightarrow> (None, supported, ms)
      | Some buffer \<Rightarrow>
          (case password_buffer_lock supported ms of
             (ok, supported', ms') \<Rightarrow>
               (if ok then (Some buffer, supported', ms') else (None, supported', ms'))))"

text \<open>
  \<^verbatim>\<open>password_buffer_unlock\<close> calls \<^verbatim>\<open>munlock\<close> (whose result is the argument) only while locking is
  supported.
\<close>

definition password_buffer_unlock :: "bool \<Rightarrow> bool \<Rightarrow> bool" where
  "password_buffer_unlock supported munlock_ok = (if supported then munlock_ok else True)"

text \<open>The memory contents that \<^verbatim>\<open>password_buffer_destroy\<close> hands to \<^verbatim>\<open>free\<close>.\<close>

definition password_buffer_destroy :: "byte list \<Rightarrow> nat \<Rightarrow> byte list" where
  "password_buffer_destroy buffer sz = clear_buffer buffer sz"

section \<open>Abstract specification\<close>

definition encode_all :: "u32 list \<Rightarrow> byte list" where
  "encode_all cps = concat (map utf8_bytes cps)"

text \<open>The buffer holds exactly the characters \<open>cps\<close>, NUL-terminated.\<close>

definition pw_repr :: "swaylock_password \<Rightarrow> u32 list \<Rightarrow> bool" where
  "pw_repr pw cps \<longleftrightarrow>
     0 \<notin> set cps \<and>
     pw_len pw = length (encode_all cps) \<and>
     pw_len pw < pw_buffer_len pw \<and>
     length (pw_buffer pw) = pw_buffer_len pw \<and>
     pw_buffer_len pw < 2 ^ 64 \<and>
     take (pw_len pw) (pw_buffer pw) = encode_all cps \<and>
     pw_buffer pw ! pw_len pw = 0"

definition spec_fits :: "nat \<Rightarrow> u32 list \<Rightarrow> u32 \<Rightarrow> bool" where
  "spec_fits cap cps ch \<longleftrightarrow> length (encode_all cps) + utf8_chsize ch + 1 < cap"

definition spec_append :: "nat \<Rightarrow> u32 list \<Rightarrow> u32 \<Rightarrow> u32 list" where
  "spec_append cap cps ch = (if spec_fits cap cps ch then cps @ [ch] else cps)"

datatype 'c edit = Insert 'c | Erase | Wipe

text \<open>A fixed-capacity line buffer that refines a list of characters.\<close>

locale line_buffer =
  fixes repr :: "'b \<Rightarrow> 'c list \<Rightarrow> bool"
    and cap :: "'b \<Rightarrow> nat"
    and admissible :: "'c \<Rightarrow> bool"
    and append :: "'b \<Rightarrow> 'c \<Rightarrow> 'b"
    and appended :: "nat \<Rightarrow> 'c list \<Rightarrow> 'c \<Rightarrow> 'c list"
    and erase :: "'b \<Rightarrow> 'b \<times> bool"
    and wipe :: "'b \<Rightarrow> 'b"
  assumes append_repr: "repr b cs \<Longrightarrow> admissible c \<Longrightarrow> repr (append b c) (appended (cap b) cs c)"
    and append_cap: "cap (append b c) = cap b"
    and erase_repr: "repr b cs \<Longrightarrow> repr (fst (erase b)) (butlast cs)"
    and erase_result: "repr b cs \<Longrightarrow> snd (erase b) = (cs \<noteq> [])"
    and erase_cap: "cap (fst (erase b)) = cap b"
    and wipe_repr: "repr b cs \<Longrightarrow> repr (wipe b) []"
    and wipe_cap: "cap (wipe b) = cap b"
begin

primrec edit_buffer :: "'c edit \<Rightarrow> 'b \<Rightarrow> 'b" where
  "edit_buffer (Insert c) b = append b c"
| "edit_buffer Erase b = fst (erase b)"
| "edit_buffer Wipe b = wipe b"

primrec edit_list :: "nat \<Rightarrow> 'c edit \<Rightarrow> 'c list \<Rightarrow> 'c list" where
  "edit_list n (Insert c) cs = appended n cs c"
| "edit_list n Erase cs = butlast cs"
| "edit_list n Wipe cs = []"

lemma edit_buffer_cap: "cap (edit_buffer e b) = cap b"
  by (cases e) (simp_all add: append_cap erase_cap wipe_cap)

lemma edit_buffer_repr:
  "repr b cs \<Longrightarrow> pred_edit admissible e \<Longrightarrow> repr (edit_buffer e b) (edit_list (cap b) e cs)"
  by (cases e) (simp_all add: append_repr erase_repr wipe_repr)

lemma session_refines:
  "repr b cs \<Longrightarrow> list_all (pred_edit admissible) es \<Longrightarrow>
     repr (fold edit_buffer es b) (fold (edit_list (cap b)) es cs)"
proof (induction es arbitrary: b cs)
  case Nil
  then show ?case by simp
next
  case (Cons e es)
  then have "repr (edit_buffer e b) (edit_list (cap b) e cs)"
    by (simp add: edit_buffer_repr)
  then have "repr (fold edit_buffer es (edit_buffer e b))
      (fold (edit_list (cap (edit_buffer e b))) es (edit_list (cap b) e cs))"
    using Cons by simp
  then show ?case
    by (simp add: edit_buffer_cap)
qed

end

text \<open>Editing commands on the C buffer and on the specification.\<close>

primrec pw_edit :: "u32 edit \<Rightarrow> swaylock_password \<Rightarrow> swaylock_password" where
  "pw_edit (Insert ch) pw = append_ch pw ch"
| "pw_edit Erase pw = fst (backspace pw)"
| "pw_edit Wipe pw = clear_password_buffer pw"

primrec spec_edit :: "nat \<Rightarrow> u32 edit \<Rightarrow> u32 list \<Rightarrow> u32 list" where
  "spec_edit cap (Insert ch) cps = spec_append cap cps ch"
| "spec_edit cap Erase cps = butlast cps"
| "spec_edit cap Wipe cps = []"

text \<open>
  What locking promises: up to \<open>n\<close> attempts while the kernel answers \<^verbatim>\<open>EAGAIN\<close>; the first other
  answer decides.
\<close>

definition lock_spec ::
    "nat \<Rightarrow> bool \<Rightarrow> mlock_result list \<Rightarrow> bool \<times> bool \<times> mlock_result list" where
  "lock_spec n supported ms =
     (let k = length (takeWhile ((=) MlockEAGAIN) ms) in
      if n \<le> k then (False, supported, drop n ms)
      else (case next_result MlockOk (drop k ms) of (m, rest) \<Rightarrow>
              (m \<noteq> MlockOther, supported \<and> m \<noteq> MlockEPERM, rest)))"

text \<open>An empty 16-byte buffer, for concrete runs.\<close>

definition sample_pw :: swaylock_password where
  "sample_pw = \<lparr>pw_len = 0, pw_buffer_len = 16, pw_buffer = replicate 16 0\<rparr>"

section \<open>Clearing\<close>

lemma clear_buffer_Suc: "clear_buffer buf (Suc n) = (clear_buffer buf n)[n := 0]"
  by (simp add: clear_buffer_def)

lemma length_clear_buffer [simp]: "length (clear_buffer buf n) = length buf"
proof (induction n)
  case 0
  then show ?case by (simp add: clear_buffer_def)
next
  case (Suc n)
  then show ?case by (simp add: clear_buffer_Suc)
qed

lemma clear_buffer_eq: "n \<le> length buf \<Longrightarrow> clear_buffer buf n = replicate n 0 @ drop n buf"
proof (induction n)
  case 0
  then show ?case by (simp add: clear_buffer_def)
next
  case (Suc n)
  then show ?case
    by (simp add: clear_buffer_Suc list_update_append Cons_nth_drop_Suc [symmetric]
        replicate_append_same [symmetric])
qed

lemma clear_buffer_all [simp]: "clear_buffer buf (length buf) = replicate (length buf) 0"
  by (simp add: clear_buffer_eq)

section \<open>The buffer refines a list of code points\<close>

lemma encode_all_simps [simp]:
  "encode_all [] = []"
  "encode_all (c # cs) = utf8_bytes c @ encode_all cs"
  "encode_all (cs @ ds) = encode_all cs @ encode_all ds"
  by (simp_all add: encode_all_def)

lemma encode_all_no_nul: "0 \<notin> set cps \<Longrightarrow> 0 \<notin> set (encode_all cps)"
  by (induction cps) (auto dest: utf8_bytes_no_nul)

lemma pw_repr_buffer:
  "pw_repr pw cps \<Longrightarrow>
     pw_buffer pw = encode_all cps @ 0 # drop (Suc (pw_len pw)) (pw_buffer pw)"
  unfolding pw_repr_def by (metis id_take_nth_drop)

lemma pw_repr_cstr: "pw_repr pw cps \<Longrightarrow> cstr (pw_buffer pw) = encode_all cps"
  by (metis cstr_append_nul encode_all_no_nul pw_repr_buffer pw_repr_def)

lemma append_ch_repr:
  assumes r: "pw_repr pw cps" and nz: "ch \<noteq> 0"
  shows "pw_repr (append_ch pw ch) (spec_append (pw_buffer_len pw) cps ch)"
proof (cases "spec_fits (pw_buffer_len pw) cps ch")
  case False
  then have "append_ch pw ch = pw"
    using r by (auto simp: append_ch_def spec_fits_def pw_repr_def Let_def)
  with False r show ?thesis by (simp add: spec_append_def)
next
  case True
  let ?n = "pw_len pw" and ?s = "utf8_chsize ch"
  have len: "?n + ?s + 1 < length (pw_buffer pw)" and n: "?n = length (encode_all cps)"
    and tk: "take ?n (pw_buffer pw) = encode_all cps"
    using r True by (auto simp: spec_fits_def pw_repr_def)
  let ?buf = "encode_all (cps @ [ch]) @ drop (?n + ?s) (pw_buffer pw)"
  have "utf8_encode (pw_buffer pw) ?n ch = (?buf, ?s)"
    using utf8_encode_writes [of ?n ch "pw_buffer pw"] len tk by simp
  then have "append_ch pw ch =
      pw\<lparr>pw_buffer := ?buf[?n + ?s := 0], pw_len := ?n + ?s\<rparr>"
    using r True by (auto simp: append_ch_def spec_fits_def pw_repr_def Let_def)
  moreover have "take (?n + ?s) (?buf[?n + ?s := 0]) = encode_all (cps @ [ch])"
    by (simp add: n)
  moreover have "(?buf[?n + ?s := 0]) ! (?n + ?s) = 0" "length ?buf = length (pw_buffer pw)"
    using len n by simp_all
  ultimately show ?thesis
    using r True nz n len by (simp add: spec_append_def pw_repr_def)
qed

lemma append_ch_buffer_len [simp]: "pw_buffer_len (append_ch pw ch) = pw_buffer_len pw"
  by (simp add: append_ch_def Let_def)

lemma backspace_buffer_len [simp]: "pw_buffer_len (fst (backspace pw)) = pw_buffer_len pw"
  by (simp add: backspace_def Let_def)

lemma clear_password_buffer_len [simp]:
  "pw_buffer_len (clear_password_buffer pw) = pw_buffer_len pw"
  by (simp add: clear_password_buffer_def)

lemma backspace_result: "pw_repr pw cps \<Longrightarrow> snd (backspace pw) = (cps \<noteq> [])"
  by (cases cps) (auto simp: backspace_def Let_def pw_repr_def)

lemma backspace_repr:
  assumes r: "pw_repr pw cps"
  shows "pw_repr (fst (backspace pw)) (butlast cps)"
proof (cases cps rule: rev_cases)
  case Nil
  then show ?thesis
    using r by (auto simp: backspace_def pw_repr_def)
next
  case (snoc ds ch)
  have nz: "ch \<noteq> 0" "0 \<notin> set (encode_all ds)"
    using r snoc by (auto simp: pw_repr_def encode_all_no_nul)
  have len: "pw_len pw = length (encode_all ds) + utf8_chsize ch" "pw_len pw < 2 ^ 64"
    "length (encode_all ds) < length (pw_buffer pw)"
    using r snoc by (auto simp: pw_repr_def)
  have buf: "pw_buffer pw =
      encode_all ds @ utf8_bytes ch @ 0 # drop (Suc (pw_len pw)) (pw_buffer pw)"
    using pw_repr_buffer [OF r] snoc by simp
  have "utf8_last_size (pw_buffer pw) = utf8_chsize ch"
    using utf8_last_size_snoc [OF nz(2,1)] buf by metis
  then have b: "backspace pw =
      (pw\<lparr>pw_len := length (encode_all ds), pw_buffer := (pw_buffer pw)[length (encode_all ds) := 0]\<rparr>,
       True)"
    using len by (simp add: backspace_def Let_def)
  have "take (length (encode_all ds)) (pw_buffer pw) = encode_all ds"
    by (rule take_append_nth_0) (rule buf [symmetric])
  then show ?thesis
    using r snoc len by (auto simp: b pw_repr_def)
qed

lemma clear_password_buffer_repr:
  "pw_repr pw cps \<Longrightarrow> pw_repr (clear_password_buffer pw) []"
  by (auto simp: pw_repr_def clear_password_buffer_def clear_buffer_eq nth_append)

interpretation pwbuf: line_buffer pw_repr pw_buffer_len "\<lambda>ch. ch \<noteq> 0" append_ch spec_append
    backspace clear_password_buffer
  by unfold_locales
    (simp_all add: append_ch_repr backspace_repr backspace_result clear_password_buffer_repr)

lemma pwbuf_edit_buffer [simp]: "pwbuf.edit_buffer = pw_edit"
proof (rule ext, rule ext)
  fix e pw
  show "pwbuf.edit_buffer e pw = pw_edit e pw"
    by (cases e) simp_all
qed

lemma pwbuf_edit_list [simp]: "pwbuf.edit_list = spec_edit"
proof (intro ext)
  fix n e cps
  show "pwbuf.edit_list n e cps = spec_edit n e cps"
    by (cases e) simp_all
qed

section \<open>Locking\<close>

lemma lock_spec_Cons_EAGAIN:
  "lock_spec (Suc (Suc r)) supported (MlockEAGAIN # ms) = lock_spec (Suc r) supported ms"
  by (simp add: lock_spec_def Let_def)

lemma password_buffer_lock_loop_spec:
  "password_buffer_lock_loop (Suc r) supported ms = lock_spec (Suc r) supported ms"
proof (induction r arbitrary: ms)
  case 0
  then show ?case
  proof (cases ms)
    case (Cons m ms')
    then show ?thesis
      by (cases m) (auto simp: lock_spec_def)
  qed (simp add: lock_spec_def)
next
  case (Suc r)
  show ?case
  proof (cases ms)
    case Nil
    then show ?thesis by (simp add: lock_spec_def)
  next
    case (Cons m ms')
    show ?thesis
    proof (cases m)
      case MlockEAGAIN
      then show ?thesis
        using Suc.IH [of ms'] Cons by (simp add: lock_spec_Cons_EAGAIN)
    qed (simp_all add: Cons lock_spec_def)
  qed
qed

section \<open>Properties\<close>

text \<open>
  Any sequence of insertions, erasures and wipes on the C password buffer, starting from a
  buffer that represents some text, leaves a buffer that represents the text obtained by the
  corresponding list operations: append at the end (dropped when it does not fit), drop the last
  character, empty. Erasing removes one whole UTF-8 character, whatever its length.
\<close>
theorem password_session_refines:
  assumes "pw_repr pw cps" "list_all (pred_edit (\<lambda>ch. ch \<noteq> 0)) es"
  shows "pw_repr (fold pw_edit es pw) (fold (spec_edit (pw_buffer_len pw)) es cps)"
  using pwbuf.session_refines [OF assms] by simp

theorem password_session_refines_witness:
  "pw_repr (fold pw_edit [Insert 0x61, Insert 0x20AC, Insert 0x1F600, Erase] sample_pw)
     [0x61, 0x20AC]"
proof -
  have r: "pw_repr sample_pw []"
    by (simp add: pw_repr_def sample_pw_def)
  show ?thesis
    using password_session_refines [OF r, of "[Insert 0x61, Insert 0x20AC, Insert 0x1F600, Erase]"]
    by (simp add: sample_pw_def spec_append_def spec_fits_def utf8_chsize_def)
qed

text \<open>
  After \<^verbatim>\<open>clear_password_buffer\<close> no byte of the password is left: the recorded length is 0 and
  every byte of the buffer, including what earlier erasures left behind the terminator, is 0.
\<close>
theorem clear_password_buffer_zeroes:
  assumes "length (pw_buffer pw) = pw_buffer_len pw"
  shows "pw_len (clear_password_buffer pw) = 0 \<and>
         pw_buffer (clear_password_buffer pw) = replicate (pw_buffer_len pw) 0"
  using clear_buffer_all [of "pw_buffer pw"] assms by (simp add: clear_password_buffer_def)

theorem clear_password_buffer_zeroes_witness:
  "pw_buffer (clear_password_buffer
     \<lparr>pw_len = 1, pw_buffer_len = 4, pw_buffer = [0x61, 0, 0x82, 0xAC]\<rparr>) = [0, 0, 0, 0]"
proof -
  let ?pw = "\<lparr>pw_len = 1, pw_buffer_len = 4, pw_buffer = [0x61, 0, 0x82, 0xAC]\<rparr>"
  have "length (pw_buffer ?pw) = pw_buffer_len ?pw" by simp
  from clear_password_buffer_zeroes [OF this] show ?thesis
    by (simp add: numeral_eq_Suc)
qed

text \<open>
  C34: \<^verbatim>\<open>password_buffer_lock\<close> always returns after at most five \<^verbatim>\<open>mlock\<close> calls: it retries only on
  \<^verbatim>\<open>EAGAIN\<close>, fails after five of them or on an unknown error, and treats \<^verbatim>\<open>EPERM\<close> as success while
  recording that locking is unsupported.
\<close>
theorem password_buffer_lock_correct:
  "password_buffer_lock supported ms = lock_spec 5 supported ms \<and>
   length ms \<le> length (snd (snd (password_buffer_lock supported ms))) + 5"
proof
  show *: "password_buffer_lock supported ms = lock_spec 5 supported ms"
    using password_buffer_lock_loop_spec [of 4] by (simp add: password_buffer_lock_def)
  have "length (takeWhile ((=) MlockEAGAIN) ms) \<le> length ms"
    by (rule length_takeWhile_le)
  then show "length ms \<le> length (snd (snd (password_buffer_lock supported ms))) + 5"
    unfolding * by (auto simp: lock_spec_def Let_def next_result_def split: list.splits
        dest!: arg_cong [where f = length])
qed

end
