(* ===== verification/Comm.thy ===== *)
theory Comm
  imports Password
begin

text \<open>
  \<^verbatim>\<open>src/comm.c\<close> and \<^verbatim>\<open>src/include/comm.h\<close>: the framed messages that the main process and the
  authentication child exchange over two pipes.

  A pipe is the bytes in transit and whether a write end is still open. How the kernel serves the
  calls is an oracle: a list of choices, one per \<^verbatim>\<open>read\<close> or \<^verbatim>\<open>write\<close> call, each a partial transfer of
  at most \<open>Suc m\<close> bytes, an interruption (\<^verbatim>\<open>EINTR\<close>) or a failure; when the list is used up, calls
  transfer all they can. A \<^verbatim>\<open>read\<close> that needs bytes which are not there, on a pipe that can still be
  written, does not return (\<open>ReadBlocked\<close>). The I/O state of one process is the record \<open>proc_io\<close>;
  the records of the main process and of the child extend it.
\<close>

section \<open>Pipes and kernel choices\<close>

record pipe =
  pipe_data :: "byte list"
  pipe_wopen :: bool

datatype io_choice = Chunk nat | Eintr | Fail

datatype read_result = ReadRet int "byte list" | ReadBlocked

record proc_io =
  io_in :: pipe
  io_out :: pipe
  io_rd :: "io_choice list"
  io_wr :: "io_choice list"
  io_mem :: "bool list"
  io_mlock :: "mlock_result list"
  io_mlock_supported :: bool

section \<open>Message types\<close>

definition COMM_MSG_PASSWORD :: byte where "COMM_MSG_PASSWORD = 0x01"
definition COMM_MSG_BROKER_SEL :: byte where "COMM_MSG_BROKER_SEL = 0x02"
definition COMM_MSG_AUTH_MODE_SEL :: byte where "COMM_MSG_AUTH_MODE_SEL = 0x03"
definition COMM_MSG_BUTTON :: byte where "COMM_MSG_BUTTON = 0x04"
definition COMM_MSG_CANCEL :: byte where "COMM_MSG_CANCEL = 0x05"
definition COMM_MSG_AUTH_RESULT :: byte where "COMM_MSG_AUTH_RESULT = 0x81"
definition COMM_MSG_BROKERS :: byte where "COMM_MSG_BROKERS = 0x82"
definition COMM_MSG_AUTH_MODES :: byte where "COMM_MSG_AUTH_MODES = 0x83"
definition COMM_MSG_UI_LAYOUT :: byte where "COMM_MSG_UI_LAYOUT = 0x84"
definition COMM_MSG_STAGE :: byte where "COMM_MSG_STAGE = 0x85"
definition COMM_MSG_AUTH_EVENT :: byte where "COMM_MSG_AUTH_EVENT = 0x86"

lemmas comm_msg_defs =
  COMM_MSG_PASSWORD_def COMM_MSG_BROKER_SEL_def COMM_MSG_AUTH_MODE_SEL_def COMM_MSG_BUTTON_def
  COMM_MSG_CANCEL_def COMM_MSG_AUTH_RESULT_def COMM_MSG_BROKERS_def COMM_MSG_AUTH_MODES_def
  COMM_MSG_UI_LAYOUT_def COMM_MSG_STAGE_def COMM_MSG_AUTH_EVENT_def

definition COMM_MAX_PAYLOAD :: u32 where "COMM_MAX_PAYLOAD = push_bit 20 1"

section \<open>Full reads and writes\<close>

text \<open>
  \<open>acc\<close> holds the bytes stored so far, its length is the C variable \<^verbatim>\<open>offset\<close>. The integer of
  \<open>ReadRet\<close> is the C return value: -1 on error, 0 on end of file, the size otherwise.
\<close>

fun read_full ::
    "pipe \<Rightarrow> io_choice list \<Rightarrow> nat \<Rightarrow> byte list \<Rightarrow> read_result \<times> pipe \<times> io_choice list" where
  "read_full p [] sz acc =
     (let need = sz - length acc; d = pipe_data p in
      if sz \<le> length acc then (ReadRet (int (length acc)) acc, p, [])
      else if need \<le> length d then
        (ReadRet (int sz) (acc @ take need d), p\<lparr>pipe_data := drop need d\<rparr>, [])
      else if pipe_wopen p then (ReadBlocked, p\<lparr>pipe_data := []\<rparr>, [])
      else if acc @ d = [] then (ReadRet 0 [], p, [])
      else (ReadRet (-1) [], p\<lparr>pipe_data := []\<rparr>, []))"
| "read_full p (c # sch) sz acc =
     (if sz \<le> length acc then (ReadRet (int (length acc)) acc, p, c # sch)
      else case c of
        Eintr \<Rightarrow> read_full p sch sz acc
      | Fail \<Rightarrow> (ReadRet (-1) [], p, sch)
      | Chunk m \<Rightarrow>
          (let d = pipe_data p; n = min (Suc m) (sz - length acc) in
           if d = [] then
             (if pipe_wopen p then (ReadBlocked, p, sch)
              else if acc = [] then (ReadRet 0 [], p, sch)
              else (ReadRet (-1) [], p, sch))
           else read_full (p\<lparr>pipe_data := drop n d\<rparr>) sch sz (acc @ take n d)))"

fun write_full :: "pipe \<Rightarrow> io_choice list \<Rightarrow> byte list \<Rightarrow> bool \<times> pipe \<times> io_choice list" where
  "write_full p sch [] = (True, p, sch)"
| "write_full p [] (b # bs) = (True, p\<lparr>pipe_data := pipe_data p @ b # bs\<rparr>, [])"
| "write_full p (c # sch) (b # bs) =
     (case c of
        Eintr \<Rightarrow> write_full p sch (b # bs)
      | Fail \<Rightarrow> (False, p, sch)
      | Chunk m \<Rightarrow>
          write_full (p\<lparr>pipe_data := pipe_data p @ take (Suc m) (b # bs)\<rparr>) sch
            (drop (Suc m) (b # bs)))"

section \<open>Little-endian lengths\<close>

definition load_le32 :: "byte list \<Rightarrow> u32" where
  "load_le32 b =
     ucast (b ! 0)
     OR push_bit 8 (ucast (b ! 1))
     OR push_bit 16 (ucast (b ! 2))
     OR push_bit 24 (ucast (b ! 3))"

definition store_le32 :: "u32 \<Rightarrow> byte list" where
  "store_le32 v =
     [ucast (v AND 0xff),
      ucast (drop_bit 8 v AND 0xff),
      ucast (drop_bit 16 v AND 0xff),
      ucast (drop_bit 24 v AND 0xff)]"

section \<open>Frames\<close>

text \<open>
  \<open>CommRet type payload len\<close>: the return value of \<^verbatim>\<open>comm_read\<close> and what it stores through its
  pointers. The payload buffer is one byte longer than \<^verbatim>\<open>len\<close> and NUL-terminated; it is
  \<^verbatim>\<open>NULL\<close> (\<open>None\<close>) for an empty payload, at end of file and on error.
\<close>

datatype comm_result = CommRet int "byte list option" nat | CommBlocked

definition comm_read :: "'a proc_io_scheme \<Rightarrow> comm_result \<times> 'a proc_io_scheme" where
  "comm_read io =
     (case read_full (io_in io) (io_rd io) 1 [] of
        (ReadBlocked, p, sch) \<Rightarrow> (CommBlocked, io\<lparr>io_in := p, io_rd := sch\<rparr>)
      | (ReadRet n ty, p, sch) \<Rightarrow>
          if n \<le> 0 then (CommRet n None 0, io\<lparr>io_in := p, io_rd := sch\<rparr>)
          else case read_full p sch 4 [] of
            (ReadBlocked, p, sch) \<Rightarrow> (CommBlocked, io\<lparr>io_in := p, io_rd := sch\<rparr>)
          | (ReadRet n plen_buf, p, sch) \<Rightarrow>
              if n \<le> 0 then (CommRet (-1) None 0, io\<lparr>io_in := p, io_rd := sch\<rparr>)
              else (let plen = load_le32 plen_buf in
                if plen > COMM_MAX_PAYLOAD then
                  (CommRet (-1) None 0, io\<lparr>io_in := p, io_rd := sch\<rparr>)
                else if plen > 0 then
                  (case next_result True (io_mem io) of (ok, mem) \<Rightarrow>
                     if \<not> ok then
                       (CommRet (-1) None 0, io\<lparr>io_in := p, io_rd := sch, io_mem := mem\<rparr>)
                     else case read_full p sch (unat plen) [] of
                       (ReadBlocked, p, sch) \<Rightarrow>
                         (CommBlocked, io\<lparr>io_in := p, io_rd := sch, io_mem := mem\<rparr>)
                     | (ReadRet n buf, p, sch) \<Rightarrow>
                         if n \<le> 0 then
                           (CommRet (-1) None 0, io\<lparr>io_in := p, io_rd := sch, io_mem := mem\<rparr>)
                         else
                           (CommRet (uint (ty ! 0)) (Some (buf @ [0])) (unat plen),
                            io\<lparr>io_in := p, io_rd := sch, io_mem := mem\<rparr>))
                else
                  (CommRet (uint (ty ! 0)) None 0, io\<lparr>io_in := p, io_rd := sch\<rparr>)))"

text \<open>\<open>payload\<close> is \<open>None\<close> for a \<^verbatim>\<open>NULL\<close> pointer; the length is cut to 32 bits in the header.\<close>

definition comm_write ::
    "'a proc_io_scheme \<Rightarrow> byte \<Rightarrow> byte list option \<Rightarrow> nat \<Rightarrow> bool \<times> 'a proc_io_scheme" where
  "comm_write io ty payload len =
     (case write_full (io_out io) (io_wr io) [ty] of (ok, p, sch) \<Rightarrow>
        if \<not> ok then (False, io\<lparr>io_out := p, io_wr := sch\<rparr>)
        else case write_full p sch (store_le32 (word_of_nat len)) of (ok, p, sch) \<Rightarrow>
          if \<not> ok then (False, io\<lparr>io_out := p, io_wr := sch\<rparr>)
          else if len > 0 \<and> payload \<noteq> None then
            (case write_full p sch (take len (the payload)) of (ok, p, sch) \<Rightarrow>
               if \<not> ok then (False, io\<lparr>io_out := p, io_wr := sch\<rparr>)
               else (True, io\<lparr>io_out := p, io_wr := sch\<rparr>))
          else (True, io\<lparr>io_out := p, io_wr := sch\<rparr>))"

text \<open>
  Each process keeps one end of either pipe: the child reads \<^verbatim>\<open>comm[0][0]\<close> and writes
  \<^verbatim>\<open>comm[1][1]\<close>, the main process reads \<^verbatim>\<open>comm[1][0]\<close> and writes \<^verbatim>\<open>comm[0][1]\<close>.
\<close>

definition comm_child_read :: "'a proc_io_scheme \<Rightarrow> comm_result \<times> 'a proc_io_scheme" where
  "comm_child_read io = comm_read io"

definition comm_child_write ::
    "'a proc_io_scheme \<Rightarrow> byte \<Rightarrow> byte list option \<Rightarrow> nat \<Rightarrow> bool \<times> 'a proc_io_scheme" where
  "comm_child_write io ty payload len = comm_write io ty payload len"

definition comm_main_read :: "'a proc_io_scheme \<Rightarrow> comm_result \<times> 'a proc_io_scheme" where
  "comm_main_read io = comm_read io"

definition comm_main_write ::
    "'a proc_io_scheme \<Rightarrow> byte \<Rightarrow> byte list option \<Rightarrow> nat \<Rightarrow> bool \<times> 'a proc_io_scheme" where
  "comm_main_write io ty payload len = comm_write io ty payload len"

text \<open>
  \<^verbatim>\<open>write_comm_password\<close>: the copy of the password lives in a locked buffer of its own, which is
  filled completely by \<^verbatim>\<open>memcpy\<close>; the password buffer is cleared on both paths.
\<close>

definition write_comm_password ::
    "'a proc_io_scheme \<Rightarrow> swaylock_password \<Rightarrow> bool \<times> swaylock_password \<times> 'a proc_io_scheme" where
  "write_comm_password io pw =
     (let sz = pw_len pw + 1 in
      case next_result True (io_mem io) of (mem_ok, mem) \<Rightarrow>
      case password_buffer_create (if mem_ok then Some (replicate sz 0) else None)
             (io_mlock_supported io) (io_mlock io) of (copy, supported, ms) \<Rightarrow>
      (let io = io\<lparr>io_mem := mem, io_mlock_supported := supported, io_mlock := ms\<rparr> in
       case copy of
         None \<Rightarrow> (False, clear_password_buffer pw, io)
       | Some _ \<Rightarrow>
           (let copy = take sz (pw_buffer pw);
                pw' = clear_password_buffer pw;
                (ok, io') = comm_main_write io COMM_MSG_PASSWORD (Some copy) sz
            in (ok, pw', io'))))"

section \<open>Specification: a FIFO channel of messages\<close>

type_synonym message = "byte \<times> byte list"

definition frame_bytes :: "message \<Rightarrow> byte list" where
  "frame_bytes m = fst m # store_le32 (word_of_nat (length (snd m))) @ snd m"

definition valid_message :: "message \<Rightarrow> bool" where
  "valid_message m \<longleftrightarrow> fst m \<noteq> 0 \<and> length (snd m) \<le> 2 ^ 20"

text \<open>What \<^verbatim>\<open>comm_read\<close> reports for a message.\<close>

definition message_result :: "message \<Rightarrow> comm_result" where
  "message_result m =
     CommRet (uint (fst m)) (if snd m = [] then None else Some (snd m @ [0])) (length (snd m))"

text \<open>Kernel and allocator serve the process: no failing call among the choices.\<close>

definition benign :: "'a proc_io_scheme \<Rightarrow> bool" where
  "benign io \<longleftrightarrow> Fail \<notin> set (io_rd io) \<and> Fail \<notin> set (io_wr io) \<and> False \<notin> set (io_mem io)"

datatype 'm chan_op = Send 'm | Recv

locale fifo_channel =
  fixes holds :: "'c \<Rightarrow> 'm list \<Rightarrow> bool"
    and valid :: "'m \<Rightarrow> bool"
    and send :: "'m \<Rightarrow> 'c \<Rightarrow> 'c"
    and recv :: "'c \<Rightarrow> 'm option \<times> 'c"
  assumes send_holds: "holds c ms \<Longrightarrow> valid m \<Longrightarrow> holds (send m c) (ms @ [m])"
    and recv_Cons: "holds c (m # ms) \<Longrightarrow> fst (recv c) = Some m"
    and recv_Cons_holds: "holds c (m # ms) \<Longrightarrow> holds (snd (recv c)) ms"
    and recv_Nil: "holds c [] \<Longrightarrow> fst (recv c) = None"
    and recv_Nil_holds: "holds c [] \<Longrightarrow> holds (snd (recv c)) []"
begin

fun run_ops :: "'m chan_op list \<Rightarrow> 'c \<Rightarrow> 'm list \<times> 'c" where
  "run_ops [] c = ([], c)"
| "run_ops (Send m # ops) c = run_ops ops (send m c)"
| "run_ops (Recv # ops) c =
     (case recv c of (r, c') \<Rightarrow>
        case run_ops ops c' of (got, c'') \<Rightarrow>
          ((case r of None \<Rightarrow> got | Some m \<Rightarrow> m # got), c''))"

lemma run_ops_fifo:
  "holds c ms \<Longrightarrow> list_all (\<lambda>op. \<forall>m. op = Send m \<longrightarrow> valid m) ops \<Longrightarrow>
     \<exists>rest. ms @ concat (map (\<lambda>op. case op of Send m \<Rightarrow> [m] | Recv \<Rightarrow> []) ops)
              = fst (run_ops ops c) @ rest \<and> holds (snd (run_ops ops c)) rest"
proof (induction ops c arbitrary: ms rule: run_ops.induct)
  case (1 c)
  then show ?case by simp
next
  case (2 m ops c)
  then have "holds (send m c) (ms @ [m])"
    by (simp add: send_holds)
  with 2 show ?case by fastforce
next
  case (3 ops c)
  obtain r c' where rc: "recv c = (r, c')" by (cases "recv c")
  obtain got c'' where run: "run_ops ops c' = (got, c'')" by (cases "run_ops ops c'")
  show ?case
  proof (cases ms)
    case Nil
    then have "r = None" "holds c' []"
      using "3.prems" recv_Nil [of c] recv_Nil_holds [of c] rc by simp_all
    then show ?thesis
      using 3 rc run Nil by fastforce
  next
    case (Cons m ms')
    then have "r = Some m" "holds c' ms'"
      using "3.prems" recv_Cons [of c m ms'] recv_Cons_holds [of c m ms'] rc by simp_all
    then show ?thesis
      using 3 rc run Cons by fastforce
  qed
qed

end

text \<open>The channel of the model: a writing and a reading process around one pipe.\<close>

definition chan_holds ::
    "'a proc_io_scheme \<times> 'b proc_io_scheme \<Rightarrow> message list \<Rightarrow> bool" where
  "chan_holds c ms \<longleftrightarrow>
     io_out (fst c) = io_in (snd c) \<and> pipe_wopen (io_in (snd c)) \<and>
     benign (fst c) \<and> benign (snd c) \<and> list_all valid_message ms \<and>
     pipe_data (io_in (snd c)) = concat (map frame_bytes ms)"

definition chan_send ::
    "message \<Rightarrow> 'a proc_io_scheme \<times> 'b proc_io_scheme \<Rightarrow> 'a proc_io_scheme \<times> 'b proc_io_scheme"
    where
  "chan_send m c =
     (let w = snd (comm_write (fst c) (fst m) (Some (snd m)) (length (snd m)))
      in (w, (snd c)\<lparr>io_in := io_out w\<rparr>))"

definition chan_recv ::
    "'a proc_io_scheme \<times> 'b proc_io_scheme \<Rightarrow>
       message option \<times> ('a proc_io_scheme \<times> 'b proc_io_scheme)" where
  "chan_recv c =
     (case comm_read (snd c) of (r, rd) \<Rightarrow>
        ((case r of
            CommRet t payload n \<Rightarrow>
              if t \<le> 0 then None
              else Some (word_of_int t, case payload of None \<Rightarrow> [] | Some b \<Rightarrow> take n b)
          | CommBlocked \<Rightarrow> None),
         ((fst c)\<lparr>io_out := io_in rd\<rparr>, rd)))"

text \<open>Interleavings of sends and receives, and the messages they send.\<close>

fun chan_run ::
    "message chan_op list \<Rightarrow> 'a proc_io_scheme \<times> 'b proc_io_scheme \<Rightarrow>
       message list \<times> ('a proc_io_scheme \<times> 'b proc_io_scheme)" where
  "chan_run [] c = ([], c)"
| "chan_run (Send m # ops) c = chan_run ops (chan_send m c)"
| "chan_run (Recv # ops) c =
     (case chan_recv c of (r, c') \<Rightarrow>
        case chan_run ops c' of (got, c'') \<Rightarrow>
          ((case r of None \<Rightarrow> got | Some m \<Rightarrow> m # got), c''))"

definition sent_messages :: "message chan_op list \<Rightarrow> message list" where
  "sent_messages ops = concat (map (\<lambda>op. case op of Send m \<Rightarrow> [m] | Recv \<Rightarrow> []) ops)"

text \<open>What \<^verbatim>\<open>comm_read\<close> must answer for the bytes of a pipe whose writer is gone.\<close>

definition decode_closed :: "byte list \<Rightarrow> comm_result" where
  "decode_closed d =
     (if d = [] then CommRet 0 None 0
      else if length d < 5 then CommRet (-1) None 0
      else (let plen = unat (load_le32 (take 4 (tl d))) in
            if plen > 2 ^ 20 \<or> length d < 5 + plen then CommRet (-1) None 0
            else message_result (hd d, take plen (drop 5 d))))"

text \<open>A process with nothing in its pipes, for concrete runs.\<close>

definition sample_io :: proc_io where
  "sample_io =
     \<lparr>io_in = \<lparr>pipe_data = [], pipe_wopen = True\<rparr>, io_out = \<lparr>pipe_data = [], pipe_wopen = True\<rparr>,
      io_rd = [Chunk 0, Eintr, Chunk 2], io_wr = [Eintr, Chunk 1], io_mem = [], io_mlock = [],
      io_mlock_supported = True\<rparr>"

section \<open>Little-endian round trips\<close>

lemma length_store_le32 [simp]: "length (store_le32 v) = 4"
  by (simp add: store_le32_def)

lemma load_store_le32 [simp]: "load_le32 (store_le32 v @ rest) = v"
proof (rule bit_word_eqI)
  fix n assume n: "n < LENGTH(32)"
  then show "bit (load_le32 (store_le32 v @ rest)) n = bit v n"
    unfolding load_le32_def store_le32_def
    by (simp add: nat_less_32_cases, elim disjE; simp add: bit_simps)
qed

lemma store_load_le32:
  assumes "length b = 4"
  shows "store_le32 (load_le32 b) = b"
proof -
  obtain b0 b1 b2 b3 where b: "b = [b0, b1, b2, b3]"
    using assms by (auto simp: numeral_eq_Suc length_Suc_conv)
  have hi: "\<not> bit x i" if "8 \<le> i" for x :: byte and i
    using that bit_imp_le_length [of x i] by auto
  have "ucast (load_le32 b AND 0xff) = b0" "ucast (drop_bit 8 (load_le32 b) AND 0xff) = b1"
    "ucast (drop_bit 16 (load_le32 b) AND 0xff) = b2"
    "ucast (drop_bit 24 (load_le32 b) AND 0xff) = b3"
    unfolding b load_le32_def
    by (rule byte_eqI, simp add: nat_less_8_cases, elim disjE; simp add: bit_simps hi)+
  then show ?thesis
    by (simp add: store_le32_def b)
qed

section \<open>Partial transfers and interruptions do not matter\<close>

text \<open>
  Without failing calls a full read has the result of one undisturbed read, and a full write
  appends all its bytes.
\<close>

lemma read_full_Nil_step:
  assumes "n \<le> sz - length acc" "0 < n" "pipe_data p \<noteq> []"
  shows "fst (read_full p [] sz acc) =
           fst (read_full (p\<lparr>pipe_data := drop n (pipe_data p)\<rparr>) [] sz (acc @ take n (pipe_data p)))"
    and "fst (snd (read_full p [] sz acc)) =
           fst (snd (read_full (p\<lparr>pipe_data := drop n (pipe_data p)\<rparr>) [] sz
              (acc @ take n (pipe_data p))))"
proof -
  let ?d = "pipe_data p"
  define k where "k = min n (length ?d)"
  have tk: "take n ?d = take k ?d" "drop n ?d = drop k ?d" and k: "length (take k ?d) = k" "0 < k"
    "k \<le> sz - length acc" "k \<le> length ?d"
    using assms by (auto simp: k_def min_def)
  have sum: "take (sz - length acc) ?d = take k ?d @ take (sz - (length acc + k)) (drop k ?d)"
    if "\<not> sz \<le> length acc + k"
    using that k(3) by (simp add: take_add [symmetric])
  have whole: "sz - length acc = k" if "sz \<le> length acc + k"
    using that k(2,3) by linarith
  have "sz - (length acc + k) + k = sz - length acc"
    using k(2,3) by linarith
  then have "drop (sz - (length acc + k)) (drop k ?d) = drop (sz - length acc) ?d"
    by simp
  then show "fst (read_full p [] sz acc) =
      fst (read_full (p\<lparr>pipe_data := drop n ?d\<rparr>) [] sz (acc @ take n ?d))"
    "fst (snd (read_full p [] sz acc)) =
      fst (snd (read_full (p\<lparr>pipe_data := drop n ?d\<rparr>) [] sz (acc @ take n ?d)))"
    using k sum assms whole unfolding tk by (auto simp: Let_def)
qed

lemma read_full_benign:
  assumes "Fail \<notin> set sch"
  shows "\<exists>sch'. Fail \<notin> set sch' \<and>
           read_full p sch sz acc =
             (fst (read_full p [] sz acc), fst (snd (read_full p [] sz acc)), sch')"
  using assms
proof (induction p sch sz acc rule: read_full.induct)
  case (1 p sz acc)
  then show ?case
    by (auto simp: Let_def)
next
  case (2 p c sch sz acc)
  show ?case
  proof (cases "sz \<le> length acc")
    case True
    then show ?thesis
      using "2.prems" by auto
  next
    case False
    show ?thesis
    proof (cases c)
      case (Chunk m)
      let ?n = "min (Suc m) (sz - length acc)" and ?d = "pipe_data p"
      show ?thesis
      proof (cases "?d = []")
        case True
        then show ?thesis
          using False Chunk "2.prems" by auto
      next
        case d: False
        have "fst (read_full p [] sz acc) =
            fst (read_full (p\<lparr>pipe_data := drop ?n ?d\<rparr>) [] sz (acc @ take ?n ?d)) \<and>
          fst (snd (read_full p [] sz acc)) =
            fst (snd (read_full (p\<lparr>pipe_data := drop ?n ?d\<rparr>) [] sz (acc @ take ?n ?d)))"
          using read_full_Nil_step [of ?n sz acc p] False d by simp
        moreover have "read_full p (c # sch) sz acc =
            read_full (p\<lparr>pipe_data := drop ?n ?d\<rparr>) sch sz (acc @ take ?n ?d)"
          using False d Chunk by (simp add: Let_def)
        ultimately show ?thesis
          using "2.IH"(1) [OF False Chunk refl refl d] "2.prems" by simp
      qed
    next
      case Eintr
      then show ?thesis
        using False "2.IH"(2) "2.prems" by simp
    next
      case Fail
      then show ?thesis
        using "2.prems" by simp
    qed
  qed
qed

lemma write_full_benign:
  assumes "Fail \<notin> set sch"
  shows "\<exists>sch'. Fail \<notin> set sch' \<and>
           write_full p sch bs = (True, p\<lparr>pipe_data := pipe_data p @ bs\<rparr>, sch')"
  using assms
proof (induction p sch bs rule: write_full.induct)
  case (3 p c sch b bs)
  show ?case
  proof (cases c)
    case (Chunk m)
    then show ?thesis
      using "3.IH"(1) [OF Chunk] "3.prems" by simp
  qed (use 3 in auto)
qed auto

lemma read_full_data:
  assumes "Fail \<notin> set sch" "pipe_data p = xs @ ys" "length xs = sz"
  shows "\<exists>sch'. Fail \<notin> set sch' \<and>
           read_full p sch sz [] = (ReadRet (int sz) xs, p\<lparr>pipe_data := ys\<rparr>, sch')"
  using read_full_benign [OF assms(1), of p sz "[]"] assms(2,3) by (cases sz) (auto simp: Let_def)

section \<open>Frames\<close>

lemma benignD:
  assumes "benign io"
  shows "Fail \<notin> set (io_rd io)" "Fail \<notin> set (io_wr io)"
    "fst (next_result True (io_mem io))" "False \<notin> set (snd (next_result True (io_mem io)))"
  using assms by (auto simp: benign_def next_result_def split: list.splits)

lemma comm_write_benign:
  assumes "benign io"
  shows "\<exists>sch. Fail \<notin> set sch \<and>
           comm_write io ty (Some payload) (length payload) =
             (True, io\<lparr>io_out := (io_out io)
                \<lparr>pipe_data := pipe_data (io_out io) @ frame_bytes (ty, payload)\<rparr>, io_wr := sch\<rparr>)"
proof -
  let ?p = "io_out io"
  obtain s1 where s1: "Fail \<notin> set s1"
    "write_full ?p (io_wr io) [ty] = (True, ?p\<lparr>pipe_data := pipe_data ?p @ [ty]\<rparr>, s1)"
    using write_full_benign [OF benignD(2) [OF assms]] by blast
  let ?l = "store_le32 (word_of_nat (length payload))"
  let ?p1 = "?p\<lparr>pipe_data := pipe_data ?p @ [ty]\<rparr>"
  obtain s2 where s2: "Fail \<notin> set s2"
    "write_full ?p1 s1 ?l = (True, ?p1\<lparr>pipe_data := pipe_data ?p1 @ ?l\<rparr>, s2)"
    using write_full_benign [OF s1(1)] by blast
  let ?p2 = "?p1\<lparr>pipe_data := pipe_data ?p1 @ ?l\<rparr>"
  obtain s3 where s3: "Fail \<notin> set s3"
    "write_full ?p2 s2 payload = (True, ?p2\<lparr>pipe_data := pipe_data ?p2 @ payload\<rparr>, s3)"
    using write_full_benign [OF s2(1)] by blast
  show ?thesis
  proof (cases "payload = []")
    case True
    then show ?thesis
      using s1 s2 by (auto simp: comm_write_def frame_bytes_def)
  next
    case False
    then show ?thesis
      using s1 s2 s3 by (auto simp: comm_write_def frame_bytes_def)
  qed
qed

lemma plen_le_max:
  "n \<le> 2 ^ 20 \<Longrightarrow> \<not> COMM_MAX_PAYLOAD < word_of_nat n"
  "n \<le> 2 ^ 20 \<Longrightarrow> unat (word_of_nat n :: u32) = n"
  "n \<le> 2 ^ 20 \<Longrightarrow> (0 < (word_of_nat n :: u32)) = (0 < n)"
proof -
  assume n: "n \<le> 2 ^ 20"
  then show u: "unat (word_of_nat n :: u32) = n"
    by (simp add: unat_of_nat)
  then show "\<not> COMM_MAX_PAYLOAD < word_of_nat n"
    using n by (simp add: COMM_MAX_PAYLOAD_def word_less_nat_alt)
  show "(0 < (word_of_nat n :: u32)) = (0 < n)"
    using u by (simp add: word_less_nat_alt)
qed

lemma comm_read_frame:
  assumes io: "benign io" and v: "length payload \<le> 2 ^ 20"
    and d: "pipe_data (io_in io) = frame_bytes (ty, payload) @ rest"
  shows "\<exists>sch mem. Fail \<notin> set sch \<and> False \<notin> set mem \<and>
           comm_read io =
             (message_result (ty, payload),
              io\<lparr>io_in := (io_in io)\<lparr>pipe_data := rest\<rparr>, io_rd := sch, io_mem := mem\<rparr>)"
proof -
  let ?p = "io_in io" and ?l = "store_le32 (word_of_nat (length payload))"
  let ?p1 = "?p\<lparr>pipe_data := ?l @ payload @ rest\<rparr>"
  let ?p2 = "?p\<lparr>pipe_data := payload @ rest\<rparr>"
  obtain s1 where s1: "Fail \<notin> set s1" "read_full ?p (io_rd io) 1 [] = (ReadRet 1 [ty], ?p1, s1)"
    using read_full_data [OF benignD(1) [OF io], of ?p "[ty]" "?l @ payload @ rest" 1] d
    by (auto simp: frame_bytes_def)
  obtain s2 where s2: "Fail \<notin> set s2" "read_full ?p1 s1 4 [] = (ReadRet 4 ?l, ?p2, s2)"
    using read_full_data [OF s1(1), of ?p1 ?l "payload @ rest" 4] by auto
  obtain s3 where s3: "Fail \<notin> set s3"
    "read_full ?p2 s2 (length payload) [] =
       (ReadRet (int (length payload)) payload, ?p\<lparr>pipe_data := rest\<rparr>, s3)"
    using read_full_data [OF s2(1), of ?p2 payload rest "length payload"] by auto
  have ll: "load_le32 ?l = word_of_nat (length payload)"
    using load_store_le32 [of _ "[]"] by simp
  obtain ok mem where mem: "next_result True (io_mem io) = (ok, mem)"
    by (cases "next_result True (io_mem io)")
  then have ok: "ok" "False \<notin> set mem" "False \<notin> set (io_mem io)"
    using benignD(3,4) [OF io] io by (simp_all add: benign_def)
  show ?thesis
  proof (cases "payload = []")
    case True
    then have "comm_read io =
        (message_result (ty, payload), io\<lparr>io_in := ?p\<lparr>pipe_data := rest\<rparr>, io_rd := s2\<rparr>)"
      using s1 s2 ll plen_le_max [OF v]
      by (simp add: comm_read_def message_result_def Let_def)
    moreover have "io\<lparr>io_in := ?p\<lparr>pipe_data := rest\<rparr>, io_rd := s2\<rparr> =
        io\<lparr>io_in := ?p\<lparr>pipe_data := rest\<rparr>, io_rd := s2, io_mem := io_mem io\<rparr>"
      by simp
    ultimately show ?thesis
      using s2(1) ok(3) by metis
  next
    case False
    then have "0 < length payload" by simp
    then have "comm_read io =
        (message_result (ty, payload),
         io\<lparr>io_in := ?p\<lparr>pipe_data := rest\<rparr>, io_rd := s3, io_mem := mem\<rparr>)"
      using s1 s2 s3 ll plen_le_max [OF v] mem ok False
      by (simp add: comm_read_def message_result_def Let_def)
    then show ?thesis
      using s3(1) ok(2) by blast
  qed
qed

section \<open>The channel contract holds\<close>

text \<open>Whatever the kernel does, a read that succeeds has taken exactly the bytes it returns off the pipe.\<close>

lemma read_full_taken:
  "read_full p sch sz acc = (ReadRet n bs, p', sch') \<Longrightarrow> 0 < n \<Longrightarrow> length acc \<le> sz \<Longrightarrow>
     \<exists>got. bs = acc @ got \<and> length bs = sz \<and> pipe_data p = got @ pipe_data p' \<and> pipe_wopen p' = pipe_wopen p"
proof (induction p sch sz acc rule: read_full.induct)
  case (1 p sz acc)
  then show ?case
    by (auto simp: Let_def split: if_splits)
next
  case (2 p c sch sz acc)
  show ?case
  proof (cases "sz \<le> length acc")
    case False
    show ?thesis
    proof (cases c)
      case (Chunk m)
      let ?n = "min (Suc m) (sz - length acc)" and ?d = "pipe_data p"
      have d: "?d \<noteq> []" "read_full (p\<lparr>pipe_data := drop ?n ?d\<rparr>) sch sz (acc @ take ?n ?d) = (ReadRet n bs, p', sch')"
        using "2.prems"(1,2) False Chunk by (auto simp: Let_def split: if_splits)
      have "length (acc @ take ?n ?d) \<le> sz"
        using False by simp
      from "2.IH"(1) [OF False Chunk refl refl d(1) d(2) "2.prems"(2) this] obtain got where
        "bs = acc @ take ?n ?d @ got" "length bs = sz" "drop ?n ?d = got @ pipe_data p'"
        "pipe_wopen p' = pipe_wopen p"
        by auto
      then show ?thesis
        by (intro exI [of _ "take ?n ?d @ got"]) (metis append.assoc append_take_drop_id)
    qed (use 2 False in auto)
  qed (use 2 in auto)
qed

lemma comm_read_taken:
  assumes "comm_read io = (CommRet ty payload len, io')" "0 < ty"
  shows "\<exists>b body. pipe_data (io_in io) = frame_bytes (b, body) @ pipe_data (io_in io') \<and>
    ty = uint b \<and> len = length body \<and> payload = (if body = [] then None else Some (body @ [0])) \<and>
    valid_message (b, body) \<and> pipe_wopen (io_in io') = pipe_wopen (io_in io)"
proof -
  obtain n1 tb p1 sch1 where 1: "read_full (io_in io) (io_rd io) 1 [] = (ReadRet n1 tb, p1, sch1)" "0 < n1"
    using assms by (auto simp: comm_read_def split: read_result.splits prod.splits if_splits)
  obtain n2 lb p2 sch2 where 2: "read_full p1 sch1 4 [] = (ReadRet n2 lb, p2, sch2)" "0 < n2"
    using assms 1 by (auto simp: comm_read_def split: read_result.splits prod.splits if_splits)
  note t1 = read_full_taken [OF 1] and t2 = read_full_taken [OF 2]
  obtain b where tb: "tb = [b]" "pipe_data (io_in io) = b # pipe_data p1" "pipe_wopen p1 = pipe_wopen (io_in io)"
    using t1 by (auto simp: length_Suc_conv)
  have lb: "length lb = 4" "pipe_data p1 = lb @ pipe_data p2" "pipe_wopen p2 = pipe_wopen (io_in io)"
    using t2 tb(3) by auto
  let ?l = "load_le32 lb"
  have sl: "store_le32 (word_of_nat (unat ?l)) = lb"
    using store_load_le32 [OF lb(1)] by simp
  have max: "\<not> COMM_MAX_PAYLOAD < ?l"
    using assms 1 2 by (auto simp: comm_read_def Let_def split: if_splits)
  then have u: "unat ?l \<le> 2 ^ 20"
    by (simp add: COMM_MAX_PAYLOAD_def word_less_nat_alt not_less)
  show ?thesis
  proof (cases "0 < ?l")
    case True
    obtain n3 body p3 sch3 where 3: "read_full p2 sch2 (unat ?l) [] = (ReadRet n3 body, p3, sch3)" "0 < n3"
      and r: "ty = uint b" "payload = Some (body @ [0])" "len = unat ?l" "io_in io' = p3"
      using assms 1 2 True max tb(1)
      by (auto simp: comm_read_def Let_def split: read_result.splits prod.splits if_splits)
    have "length body = unat ?l" "pipe_data p2 = body @ pipe_data p3" "pipe_wopen p3 = pipe_wopen p2"
      using read_full_taken [OF 3] by auto
    moreover have "body \<noteq> []" "b \<noteq> 0"
      using True calculation(1) assms(2) r(1) by (auto simp: word_less_nat_alt)
    ultimately show ?thesis
      using r tb lb sl u
      by (intro exI [of _ b] exI [of _ body]) (simp add: frame_bytes_def valid_message_def)
  next
    case False
    then have z: "unat ?l = 0"
      by (simp add: word_less_nat_alt)
    have r: "ty = uint b" "payload = None" "len = 0" "io_in io' = p2"
      using assms 1 2 False max tb(1) by (auto simp: comm_read_def Let_def split: if_splits)
    moreover have "b \<noteq> 0"
      using assms(2) r(1) by auto
    moreover have "store_le32 0 = lb"
      using sl z by simp
    ultimately show ?thesis
      using tb lb by (intro exI [of _ b] exI [of _ "[]"]) (simp add: frame_bytes_def valid_message_def)
  qed
qed

lemma frame_bytes_not_Nil [simp]: "frame_bytes m \<noteq> []"
  by (simp add: frame_bytes_def)

lemma chan_send_holds:
  assumes "chan_holds c ms" "valid_message m"
  shows "chan_holds (chan_send m c) (ms @ [m])"
proof -
  have "benign (fst c)"
    using assms(1) by (simp add: chan_holds_def)
  from comm_write_benign [OF this, of "fst m" "snd m"] obtain sch where
    "Fail \<notin> set sch"
    "comm_write (fst c) (fst m) (Some (snd m)) (length (snd m)) =
       (True, (fst c)\<lparr>io_out := (io_out (fst c))
          \<lparr>pipe_data := pipe_data (io_out (fst c)) @ frame_bytes m\<rparr>, io_wr := sch\<rparr>)"
    by auto
  then show ?thesis
    using assms by (auto simp: chan_holds_def chan_send_def Let_def benign_def)
qed

lemma chan_recv_Cons:
  assumes "chan_holds c (m # ms)"
  shows "fst (chan_recv c) = Some m" "chan_holds (snd (chan_recv c)) ms"
proof -
  obtain ty payload where m: "m = (ty, payload)" by (cases m)
  have r: "benign (snd c)" "length payload \<le> 2 ^ 20" "ty \<noteq> 0"
    "pipe_data (io_in (snd c)) = frame_bytes (ty, payload) @ concat (map frame_bytes ms)"
    using assms by (auto simp: chan_holds_def valid_message_def m)
  then have ty: "0 < uint ty"
    using uint_ge_0 [of ty] by (metis linorder_not_le nle_le order_le_less uint_0_iff)
  from comm_read_frame [OF r(1,2,4)] obtain sch mem where
    "Fail \<notin> set sch" "False \<notin> set mem"
    "comm_read (snd c) = (message_result (ty, payload),
        (snd c)\<lparr>io_in := (io_in (snd c))\<lparr>pipe_data := concat (map frame_bytes ms)\<rparr>,
               io_rd := sch, io_mem := mem\<rparr>)"
    by blast
  then show "fst (chan_recv c) = Some m" "chan_holds (snd (chan_recv c)) ms"
    using assms ty by (auto simp: chan_recv_def message_result_def m chan_holds_def benign_def)
qed

lemma read_full_empty_blocks:
  assumes "Fail \<notin> set sch" "pipe_data p = []" "pipe_wopen p" "0 < sz"
  shows "\<exists>sch'. Fail \<notin> set sch' \<and> read_full p sch sz [] = (ReadBlocked, p, sch')"
proof -
  have "fst (read_full p [] sz []) = ReadBlocked" "fst (snd (read_full p [] sz [])) = p"
    using assms(2-4) by (simp_all add: Let_def)
  then show ?thesis
    using read_full_benign [OF assms(1), of p sz "[]"] by simp
qed

lemma chan_recv_Nil:
  assumes "chan_holds c []"
  shows "fst (chan_recv c) = None" "chan_holds (snd (chan_recv c)) []"
proof -
  have r: "Fail \<notin> set (io_rd (snd c))" "pipe_data (io_in (snd c)) = []"
    "pipe_wopen (io_in (snd c))"
    using assms by (auto simp: chan_holds_def benign_def)
  from read_full_empty_blocks [OF this, of 1] obtain sch where sch: "Fail \<notin> set sch"
    "read_full (io_in (snd c)) (io_rd (snd c)) 1 [] = (ReadBlocked, io_in (snd c), sch)"
    by auto
  then show "fst (chan_recv c) = None" "chan_holds (snd (chan_recv c)) []"
    using assms by (auto simp: chan_recv_def comm_read_def chan_holds_def benign_def)
qed

interpretation comm_chan: fifo_channel chan_holds valid_message chan_send chan_recv
  by unfold_locales (simp_all add: chan_send_holds chan_recv_Cons chan_recv_Nil)

lemma comm_chan_run_ops [simp]: "comm_chan.run_ops ops c = chan_run ops c"
  by (induction ops c rule: chan_run.induct) (simp_all split: prod.splits option.splits)

section \<open>Reading from a closed pipe\<close>

lemma read_full_short:
  assumes "Fail \<notin> set sch" "\<not> pipe_wopen p" "length (pipe_data p) < sz"
  shows "\<exists>n p' sch'. read_full p sch sz [] = (ReadRet n [], p', sch') \<and> n \<le> 0
           \<and> (pipe_data p = [] \<longrightarrow> n = 0)"
  using read_full_benign [OF assms(1), of p sz "[]"] assms(2,3) by (auto simp: Let_def)

lemma plen_cmp: "COMM_MAX_PAYLOAD < (w :: u32) \<longleftrightarrow> 2 ^ 20 < unat w"
  by (simp add: COMM_MAX_PAYLOAD_def word_less_nat_alt)

lemma plen_pos: "0 < (w :: u32) \<longleftrightarrow> 0 < unat w"
  by (simp add: word_less_nat_alt)

lemma comm_read_closed_spec:
  assumes io: "benign io" and closed: "\<not> pipe_wopen (io_in io)"
  shows "fst (comm_read io) = decode_closed (pipe_data (io_in io))"
proof (cases "pipe_data (io_in io)")
  case Nil
  then obtain sch p where "read_full (io_in io) (io_rd io) 1 [] = (ReadRet 0 [], p, sch)"
    using read_full_short [OF benignD(1) [OF io] closed, of 1] by auto
  then show ?thesis
    by (simp add: comm_read_def decode_closed_def Nil)
next
  case (Cons ty d)
  let ?p = "io_in io" and ?p1 = "(io_in io)\<lparr>pipe_data := d\<rparr>"
  obtain s1 where s1: "Fail \<notin> set s1" "read_full ?p (io_rd io) 1 [] = (ReadRet 1 [ty], ?p1, s1)"
    using read_full_data [OF benignD(1) [OF io], of ?p "[ty]" d 1] Cons by auto
  show ?thesis
  proof (cases "length d < 4")
    case True
    then obtain s2 p2 n where "read_full ?p1 s1 4 [] = (ReadRet n [], p2, s2)" "n \<le> 0"
      using read_full_short [OF s1(1), of ?p1 4] closed by auto
    then show ?thesis
      using True s1(2) by (simp add: comm_read_def decode_closed_def Cons)
  next
    case False
    let ?l = "take 4 d" and ?p2 = "(io_in io)\<lparr>pipe_data := drop 4 d\<rparr>"
    let ?n = "unat (load_le32 (take 4 d))"
    obtain s2 where s2: "Fail \<notin> set s2" "read_full ?p1 s1 4 [] = (ReadRet 4 ?l, ?p2, s2)"
      using read_full_data [OF s1(1), of ?p1 ?l "drop 4 d" 4] False by auto
    obtain ok m where mem: "next_result True (io_mem io) = (ok, m)" and ok: "ok"
      using benignD(3) [OF io] by (cases "next_result True (io_mem io)") auto
    consider (big) "2 ^ 20 < ?n" | (zero) "?n = 0" | (short) "0 < ?n" "?n \<le> 2 ^ 20" "length d < 4 + ?n"
      | (fits) "0 < ?n" "?n \<le> 2 ^ 20" "4 + ?n \<le> length d"
      by linarith
    then show ?thesis
    proof cases
      case big
      then show ?thesis
        using False s1(2) s2(2) by (simp add: comm_read_def decode_closed_def Cons Let_def plen_cmp)
    next
      case zero
      then show ?thesis
        using False s1(2) s2(2)
        by (simp add: comm_read_def decode_closed_def Cons Let_def plen_cmp message_result_def
            plen_pos)
    next
      case short
      then have "length (pipe_data ?p2) < ?n"
        using False by simp
      then obtain s3 p3 n where "read_full ?p2 s2 ?n [] = (ReadRet n [], p3, s3)" "n \<le> 0"
        using read_full_short [OF s2(1), of ?p2 ?n] closed by auto
      then show ?thesis
        using False short s1(2) s2(2)
        by (simp add: comm_read_def decode_closed_def Cons Let_def plen_cmp plen_pos mem ok)
    next
      case fits
      let ?b = "take ?n (drop 4 d)"
      have "drop 4 d = ?b @ drop (?n + 4) d"
        by (metis append_take_drop_id drop_drop)
      then obtain s3 where "read_full ?p2 s2 ?n [] =
          (ReadRet (int ?n) ?b, ?p2\<lparr>pipe_data := drop (?n + 4) d\<rparr>, s3)"
        using read_full_data [OF s2(1), of ?p2 ?b "drop (?n + 4) d" ?n] fits False by auto
      moreover have "0 < uint (load_le32 (take 4 d))"
        using fits(1) by (simp only: unat_eq_nat_uint zero_less_nat_eq)
      ultimately show ?thesis
        using False fits s1(2) s2(2)
        by (simp add: comm_read_def decode_closed_def Cons Let_def plen_cmp plen_pos
            message_result_def mem ok)
    qed
  qed
qed

section \<open>Sending the password\<close>

lemma write_comm_password_clears: "fst (snd (write_comm_password io pw)) = clear_password_buffer pw"
  by (auto simp: write_comm_password_def Let_def split: prod.splits option.splits)

lemma write_comm_password_sends:
  assumes io: "benign io" and lock: "fst (password_buffer_lock (io_mlock_supported io) (io_mlock io))"
    and pw: "pw_repr pw cps"
  shows "fst (write_comm_password io pw)"
    and "io_out (snd (snd (write_comm_password io pw))) =
           (io_out io)\<lparr>pipe_data := pipe_data (io_out io)
              @ frame_bytes (COMM_MSG_PASSWORD, encode_all cps @ [0])\<rparr>"
proof -
  let ?sz = "pw_len pw + 1"
  obtain ok mem where mem: "next_result True (io_mem io) = (ok, mem)"
    by (cases "next_result True (io_mem io)")
  then have ok: "ok" "False \<notin> set mem"
    using benignD(3,4) [OF io] by simp_all
  obtain ok' sup' ms where lk:
    "password_buffer_lock (io_mlock_supported io) (io_mlock io) = (ok', sup', ms)" "ok'"
    using lock by (cases "password_buffer_lock (io_mlock_supported io) (io_mlock io)") auto
  let ?io = "io\<lparr>io_mem := mem, io_mlock_supported := sup', io_mlock := ms\<rparr>"
  have "?sz \<le> length (pw_buffer pw)"
    using pw by (simp add: pw_repr_def)
  then have copy: "take ?sz (pw_buffer pw) = encode_all cps @ [0]"
    using pw by (auto simp: pw_repr_def take_Suc_conv_app_nth)
  have len: "length (encode_all cps @ [0]) = ?sz"
    using pw by (simp add: pw_repr_def)
  have "benign ?io"
    using io ok by (simp add: benign_def)
  from comm_write_benign [OF this, of COMM_MSG_PASSWORD "encode_all cps @ [0]"] obtain sch where
    w: "comm_write ?io COMM_MSG_PASSWORD (Some (encode_all cps @ [0])) ?sz =
       (True, ?io\<lparr>io_out := (io_out io)\<lparr>pipe_data := pipe_data (io_out io)
          @ frame_bytes (COMM_MSG_PASSWORD, encode_all cps @ [0])\<rparr>, io_wr := sch\<rparr>)"
    unfolding len by auto
  have "write_comm_password io pw =
      (True, clear_password_buffer pw,
       ?io\<lparr>io_out := (io_out io)\<lparr>pipe_data := pipe_data (io_out io)
          @ frame_bytes (COMM_MSG_PASSWORD, encode_all cps @ [0])\<rparr>, io_wr := sch\<rparr>)"
    using mem ok lk copy w
    by (simp add: write_comm_password_def password_buffer_create_def comm_main_write_def Let_def)
  then show "fst (write_comm_password io pw)"
    "io_out (snd (snd (write_comm_password io pw))) =
       (io_out io)\<lparr>pipe_data := pipe_data (io_out io)
          @ frame_bytes (COMM_MSG_PASSWORD, encode_all cps @ [0])\<rparr>"
    by simp_all
qed

section \<open>Properties\<close>

text \<open>
  C9: The two pipes are loss-free FIFO channels of messages. Whatever interleaving of sends and
  receives the two processes perform, however the kernel splits or interrupts their \<^verbatim>\<open>read\<close> and
  \<^verbatim>\<open>write\<close> calls, the messages received so far followed by the messages still in the pipe are
  exactly the messages that were in the pipe followed by the messages sent, in order.
\<close>
theorem comm_fifo:
  assumes "chan_holds c ms" "list_all (\<lambda>op. \<forall>m. op = Send m \<longrightarrow> valid_message m) ops"
  shows "\<exists>rest. ms @ sent_messages ops = fst (chan_run ops c) @ rest \<and>
                chan_holds (snd (chan_run ops c)) rest"
  using comm_chan.run_ops_fifo [OF assms] by (simp add: sent_messages_def)

theorem comm_fifo_witness:
  "\<exists>rest. [(COMM_MSG_PASSWORD, [0x61, 0]), (COMM_MSG_CANCEL, [])] =
      fst (chan_run [Send (COMM_MSG_PASSWORD, [0x61, 0]), Recv, Send (COMM_MSG_CANCEL, [])]
             (sample_io, sample_io)) @ rest"
proof -
  have h: "chan_holds (sample_io, sample_io) []"
    "list_all (\<lambda>op. \<forall>m. op = Send m \<longrightarrow> valid_message m)
       [Send (COMM_MSG_PASSWORD, [0x61, 0]), Recv, Send (COMM_MSG_CANCEL, [])]"
    by (simp_all add: chan_holds_def sample_io_def benign_def valid_message_def comm_msg_defs)
  show ?thesis
    using comm_fifo [OF h] by (auto simp: sent_messages_def)
qed

text \<open>
  One frame round trip: what one process writes with \<^verbatim>\<open>comm_write\<close>, the other reads back with
  \<^verbatim>\<open>comm_read\<close>: the same type, the payload with a NUL byte appended (\<^verbatim>\<open>NULL\<close> when empty), the same
  length, and the pipe is left as it was before the frame.
\<close>
theorem comm_frame_roundtrip:
  assumes "benign w" "benign r" "io_out w = \<lparr>pipe_data = [], pipe_wopen = True\<rparr>"
    "length payload \<le> 2 ^ 20"
  shows "\<exists>w'. comm_write w ty (Some payload) (length payload) = (True, w') \<and>
           fst (comm_read (r\<lparr>io_in := io_out w'\<rparr>)) = message_result (ty, payload) \<and>
           pipe_data (io_in (snd (comm_read (r\<lparr>io_in := io_out w'\<rparr>)))) = []"
proof -
  from comm_write_benign [OF assms(1), of ty payload] obtain sch where
    w: "comm_write w ty (Some payload) (length payload) =
      (True, w\<lparr>io_out := (io_out w)
         \<lparr>pipe_data := pipe_data (io_out w) @ frame_bytes (ty, payload)\<rparr>, io_wr := sch\<rparr>)"
    by auto
  let ?r = "r\<lparr>io_in := \<lparr>pipe_data = frame_bytes (ty, payload), pipe_wopen = True\<rparr>\<rparr>"
  have "benign ?r" "pipe_data (io_in ?r) = frame_bytes (ty, payload) @ []"
    using assms(2) by (simp_all add: benign_def)
  from comm_read_frame [OF this(1) assms(4) this(2)] show ?thesis
    unfolding w assms(3) by auto
qed

theorem comm_frame_roundtrip_witness:
  "\<exists>w'. comm_write sample_io COMM_MSG_STAGE (Some [3]) 1 = (True, w') \<and>
        fst (comm_read (sample_io\<lparr>io_in := io_out w'\<rparr>)) = CommRet 0x85 (Some [3, 0]) 1"
proof -
  have h: "benign sample_io" "io_out sample_io = \<lparr>pipe_data = [], pipe_wopen = True\<rparr>"
    "length [3 :: byte] \<le> 2 ^ 20"
    by (simp_all add: sample_io_def benign_def)
  show ?thesis
    using comm_frame_roundtrip [OF h(1,1,2,3), of COMM_MSG_STAGE]
    by (auto simp: message_result_def comm_msg_defs)
qed



text \<open>
  C18: \<^verbatim>\<open>write_comm_password\<close> clears the password buffer whether or not anything is sent, and when
  the kernel and the allocator serve it, the one frame it sends carries exactly the typed
  characters followed by a NUL byte (so the receiver never sees an empty payload).
\<close>
theorem write_comm_password_correct:
  "fst (snd (write_comm_password io pw)) = clear_password_buffer pw \<and>
   (benign io \<and> fst (password_buffer_lock (io_mlock_supported io) (io_mlock io)) \<and> pw_repr pw cps
      \<longrightarrow> fst (write_comm_password io pw) \<and>
          pipe_data (io_out (snd (snd (write_comm_password io pw)))) =
            pipe_data (io_out io) @ frame_bytes (COMM_MSG_PASSWORD, encode_all cps @ [0]))"
  using write_comm_password_sends [of io pw cps] by (simp add: write_comm_password_clears)

theorem write_comm_password_correct_witness:
  "pipe_data (io_out (snd (snd (write_comm_password sample_io (append_ch sample_pw 0x61))))) =
     [1, 2, 0, 0, 0, 0x61, 0]"
proof -
  have e: "pw_repr sample_pw []"
    by (simp add: pw_repr_def sample_pw_def)
  have r: "pw_repr (append_ch sample_pw 0x61) [0x61]"
    using append_ch_repr [OF e, where ch = "0x61"]
    by (simp add: sample_pw_def spec_append_def spec_fits_def utf8_chsize_def)
  have h: "benign sample_io"
    "fst (password_buffer_lock (io_mlock_supported sample_io) (io_mlock sample_io))"
    by (simp_all add: sample_io_def benign_def password_buffer_lock_def numeral_eq_Suc)
  show ?thesis
    using write_comm_password_correct [of sample_io "append_ch sample_pw 0x61" "[0x61]"] h r
    by (simp add: sample_io_def frame_bytes_def store_le32_def comm_msg_defs utf8_bytes_def)
qed

end
