(* ===== verification/Loop.thy ===== *)
theory Loop
  imports Prelude
begin

text \<open>
  \<^verbatim>\<open>src/loop.c\<close>: the event loop of file descriptors and timers. A timer is known by an identifier that
  stands for its address; identifiers come from a counter and are never used twice (the slot
  invariant below shows that no stale pointer is ever followed, so reuse of freed addresses cannot be
  observed). Callbacks are values of a type of their own that the client interprets. The client
  state \<open>'s\<close> owns the loop, so the dispatcher takes the functions that read and write the
  loop inside it, together with the meaning of the callbacks and a test whether the process is still
  running (a callback may call \<^verbatim>\<open>exit\<close>).
\<close>

section \<open>Data\<close>

record timespec =
  tv_sec :: int
  tv_nsec :: int

record 'cb loop_timer =
  lt_id :: nat
  lt_callback :: 'cb
  lt_expiry :: timespec
  lt_removed :: bool

record pollfd =
  pfd_fd :: int
  pfd_events :: "16 word"
  pfd_revents :: "16 word"

text \<open>
  \<open>lp_fds\<close> are the first \<^verbatim>\<open>fd_length\<close> entries of the C array, \<open>lp_fd_events\<close> and \<open>lp_timers\<close> the two
  linked lists from head to tail.
\<close>

record ('cb, 'fcb) loop =
  lp_fds :: "pollfd list"
  lp_fd_capacity :: nat
  lp_fd_events :: "'fcb list"
  lp_timers :: "'cb loop_timer list"
  lp_next_id :: nat

definition POLLIN :: "16 word" where "POLLIN = 0x001"
definition POLLERR :: "16 word" where "POLLERR = 0x008"
definition POLLHUP :: "16 word" where "POLLHUP = 0x010"

definition INT_MAX :: int where "INT_MAX = 2147483647"

section \<open>Operations\<close>

definition loop_create :: "('cb, 'fcb) loop" where
  "loop_create =
     \<lparr>lp_fds = [], lp_fd_capacity = 10, lp_fd_events = [], lp_timers = [], lp_next_id = 0\<rparr>"

text \<open>\<open>alloc_ok\<close>: whether \<^verbatim>\<open>calloc\<close> succeeds.\<close>

definition loop_add_fd ::
    "('cb, 'fcb) loop \<Rightarrow> bool \<Rightarrow> int \<Rightarrow> 16 word \<Rightarrow> 'fcb \<Rightarrow> ('cb, 'fcb) loop" where
  "loop_add_fd l alloc_ok fd msk callback =
     (if \<not> alloc_ok then l
      else l\<lparr>lp_fd_events := lp_fd_events l @ [callback],
             lp_fd_capacity :=
               (if length (lp_fds l) = lp_fd_capacity l then lp_fd_capacity l + 10
                else lp_fd_capacity l),
             lp_fds := lp_fds l @ [\<lparr>pfd_fd = fd, pfd_events = msk, pfd_revents = 0\<rparr>]\<rparr>)"

text \<open>
  \<^verbatim>\<open>loop_remove_fd\<close> walks the event list with a running index into the array and removes the first
  entry whose descriptor matches.
\<close>

fun loop_remove_fd_from ::
    "nat \<Rightarrow> 'fcb list \<Rightarrow> int \<Rightarrow> ('cb, 'fcb) loop \<Rightarrow> ('cb, 'fcb) loop \<times> bool" where
  "loop_remove_fd_from fd_index [] fd l = (l, False)"
| "loop_remove_fd_from fd_index (e # es) fd l =
     (if pfd_fd (lp_fds l ! fd_index) = fd then
        (l\<lparr>lp_fd_events := take fd_index (lp_fd_events l) @ drop (Suc fd_index) (lp_fd_events l),
           lp_fds := take fd_index (lp_fds l) @ drop (Suc fd_index) (lp_fds l)\<rparr>, True)
      else loop_remove_fd_from (Suc fd_index) es fd l)"

definition loop_remove_fd :: "('cb, 'fcb) loop \<Rightarrow> int \<Rightarrow> ('cb, 'fcb) loop \<times> bool" where
  "loop_remove_fd l fd = loop_remove_fd_from 0 (lp_fd_events l) fd l"

text \<open>The expiry of a timer set at time \<open>now\<close>; C division truncates.\<close>

definition timer_expiry :: "timespec \<Rightarrow> int \<Rightarrow> timespec" where
  "timer_expiry now ms =
     (let sec = tv_sec now + ms sdiv 1000;
          nsec = (ms smod 1000) * 1000000;
          (sec, nsec) =
            (if tv_nsec now + nsec \<ge> 1000000000 then (sec + 1, nsec - 1000000000) else (sec, nsec))
      in \<lparr>tv_sec = sec, tv_nsec = tv_nsec now + nsec\<rparr>)"

definition loop_add_timer ::
    "('cb, 'fcb) loop \<Rightarrow> bool \<Rightarrow> timespec \<Rightarrow> int \<Rightarrow> 'cb \<Rightarrow> ('cb, 'fcb) loop \<times> nat option" where
  "loop_add_timer l alloc_ok now ms callback =
     (if \<not> alloc_ok then (l, None)
      else
        (l\<lparr>lp_timers :=
             \<lparr>lt_id = lp_next_id l, lt_callback = callback, lt_expiry = timer_expiry now ms,
              lt_removed = False\<rparr> # lp_timers l,
           lp_next_id := Suc (lp_next_id l)\<rparr>,
         Some (lp_next_id l)))"

text \<open>\<^verbatim>\<open>loop_remove_timer\<close> marks the first timer with the given address; it is freed later.\<close>

fun mark_removed :: "nat \<Rightarrow> 'cb loop_timer list \<Rightarrow> 'cb loop_timer list \<times> bool" where
  "mark_removed i [] = ([], False)"
| "mark_removed i (t # ts) =
     (if lt_id t = i then (t\<lparr>lt_removed := True\<rparr> # ts, True)
      else (case mark_removed i ts of (ts', found) \<Rightarrow> (t # ts', found)))"

definition loop_remove_timer :: "('cb, 'fcb) loop \<Rightarrow> nat \<Rightarrow> ('cb, 'fcb) loop \<times> bool" where
  "loop_remove_timer l i =
     (case mark_removed i (lp_timers l) of (ts, found) \<Rightarrow> (l\<lparr>lp_timers := ts\<rparr>, found))"

text \<open>The timeout in milliseconds that \<^verbatim>\<open>loop_poll\<close> passes to \<^verbatim>\<open>poll\<close>.\<close>

definition timer_ms :: "timespec \<Rightarrow> timespec \<Rightarrow> int" where
  "timer_ms now expiry =
     c_int (c_int ((tv_sec expiry - tv_sec now) * 1000) +
            (tv_nsec expiry - tv_nsec now) sdiv 1000000)"

definition loop_timeout :: "timespec \<Rightarrow> ('cb, 'fcb) loop \<Rightarrow> int" where
  "loop_timeout now l =
     max 0 (fold (\<lambda>t ms. if timer_ms now (lt_expiry t) < ms then timer_ms now (lt_expiry t) else ms)
              (lp_timers l) INT_MAX)"

definition timer_expired :: "timespec \<Rightarrow> 'cb loop_timer \<Rightarrow> bool" where
  "timer_expired now t \<longleftrightarrow>
     tv_sec (lt_expiry t) < tv_sec now \<or>
     (tv_sec (lt_expiry t) = tv_sec now \<and> tv_nsec (lt_expiry t) < tv_nsec now)"

definition find_timer :: "nat \<Rightarrow> 'cb loop_timer list \<Rightarrow> 'cb loop_timer option" where
  "find_timer i ts = List.find (\<lambda>t. lt_id t = i) ts"

text \<open>\<^verbatim>\<open>wl_list_remove\<close> and \<^verbatim>\<open>free\<close> of one timer.\<close>

definition unlink_timer :: "nat \<Rightarrow> ('cb, 'fcb) loop \<Rightarrow> ('cb, 'fcb) loop" where
  "unlink_timer i l = l\<lparr>lp_timers := filter (\<lambda>t. lt_id t \<noteq> i) (lp_timers l)\<rparr>"

text \<open>
  The timer half of \<^verbatim>\<open>loop_poll\<close>. \<^verbatim>\<open>wl_list_for_each_safe\<close> visits the timers that are in the list when
  the pass starts: callbacks insert new timers at the head only and never unlink one. The
  identifiers of these timers are the list argument; flags set by earlier callbacks of the same pass
  are seen because each timer is looked up when its turn comes.
\<close>

fun dispatch_timers ::
    "('s \<Rightarrow> ('cb, 'fcb) loop) \<Rightarrow> (('cb, 'fcb) loop \<Rightarrow> 's \<Rightarrow> 's) \<Rightarrow> ('s \<Rightarrow> bool) \<Rightarrow> ('cb \<Rightarrow> 's \<Rightarrow> 's) \<Rightarrow>
       timespec \<Rightarrow> nat list \<Rightarrow> 's \<Rightarrow> 's" where
  "dispatch_timers get put alive call now [] s = s"
| "dispatch_timers get put alive call now (i # is) s =
     (if \<not> alive s then s
      else case find_timer i (lp_timers (get s)) of
        None \<Rightarrow> dispatch_timers get put alive call now is s
      | Some t \<Rightarrow>
          if lt_removed t then
            dispatch_timers get put alive call now is (put (unlink_timer i (get s)) s)
          else if timer_expired now t then
            (let s' = call (lt_callback t) s in
             dispatch_timers get put alive call now is
               (if alive s' then put (unlink_timer i (get s')) s' else s'))
          else dispatch_timers get put alive call now is s)"

text \<open>
  The descriptor half: \<open>revents\<close> is what \<^verbatim>\<open>poll\<close> reported, one mask per entry (all zero after an
  interrupted call). Hang-ups and errors are always delivered. When \<^verbatim>\<open>poll\<close> itself fails, the process
  exits: \<open>die\<close>.
\<close>

fun dispatch_fds ::
    "('s \<Rightarrow> ('cb, 'fcb) loop) \<Rightarrow> ('s \<Rightarrow> bool) \<Rightarrow> ('fcb \<Rightarrow> 16 word \<Rightarrow> 's \<Rightarrow> 's) \<Rightarrow>
       nat \<Rightarrow> 'fcb list \<Rightarrow> 16 word list \<Rightarrow> 's \<Rightarrow> 's" where
  "dispatch_fds get alive call fd_index (e # es) (re # revs) s =
     (if \<not> alive s then s
      else
        (let events = pfd_events (lp_fds (get s) ! fd_index) OR POLLHUP OR POLLERR in
         dispatch_fds get alive call (Suc fd_index) es revs
           (if re AND events \<noteq> 0 then call e re s else s)))"
| "dispatch_fds get alive call fd_index _ _ s = s"

datatype poll_outcome = Polled "16 word list" | Poll_failed

definition loop_poll ::
    "('s \<Rightarrow> ('cb, 'fcb) loop) \<Rightarrow> (('cb, 'fcb) loop \<Rightarrow> 's \<Rightarrow> 's) \<Rightarrow> ('s \<Rightarrow> bool) \<Rightarrow> ('s \<Rightarrow> 's) \<Rightarrow>
       ('fcb \<Rightarrow> 16 word \<Rightarrow> 's \<Rightarrow> 's) \<Rightarrow> ('cb \<Rightarrow> 's \<Rightarrow> 's) \<Rightarrow> poll_outcome \<Rightarrow> timespec \<Rightarrow> 's \<Rightarrow> 's" where
  "loop_poll get put alive die call_fd call_timer outcome now s =
     (case outcome of
        Poll_failed \<Rightarrow> die s
      | Polled revents \<Rightarrow>
          (let s' = dispatch_fds get alive call_fd 0 (lp_fd_events (get s)) revents s
           in if alive s' then
                dispatch_timers get put alive call_timer now (map lt_id (lp_timers (get s'))) s'
              else s'))"

section \<open>Specification\<close>

text \<open>The timers that can still fire, with their callbacks.\<close>

definition live :: "('cb, 'fcb) loop \<Rightarrow> nat \<rightharpoonup> 'cb" where
  "live l i =
     (case find_timer i (lp_timers l) of
        None \<Rightarrow> None
      | Some t \<Rightarrow> if lt_removed t then None else Some (lt_callback t))"

definition loop_wf :: "('cb, 'fcb) loop \<Rightarrow> bool" where
  "loop_wf l \<longleftrightarrow>
     distinct (map lt_id (lp_timers l)) \<and> (\<forall>t \<in> set (lp_timers l). lt_id t < lp_next_id l) \<and>
     length (lp_fds l) = length (lp_fd_events l) \<and> length (lp_fds l) \<le> lp_fd_capacity l"

text \<open>The registered descriptors with their callbacks.\<close>

definition registered :: "('cb, 'fcb) loop \<Rightarrow> (int \<times> 'fcb) list" where
  "registered l = zip (map pfd_fd (lp_fds l)) (lp_fd_events l)"

definition timespec_ns :: "timespec \<Rightarrow> int" where
  "timespec_ns t = tv_sec t * 1000000000 + tv_nsec t"

definition timespec_ok :: "timespec \<Rightarrow> bool" where
  "timespec_ok t \<longleftrightarrow> 0 \<le> tv_nsec t \<and> tv_nsec t < 1000000000"

text \<open>The difference to the expiry is representable in the \<^verbatim>\<open>int\<close> variables of the code.\<close>

definition timer_in_range :: "timespec \<Rightarrow> timespec \<Rightarrow> bool" where
  "timer_in_range now expiry \<longleftrightarrow>
     timespec_ok now \<and> timespec_ok expiry \<and> \<bar>tv_sec expiry - tv_sec now\<bar> \<le> 2147482"

text \<open>The first registration of a descriptor is taken out of the list of registrations.\<close>

fun remove_first :: "int \<Rightarrow> (int \<times> 'f) list \<Rightarrow> (int \<times> 'f) list" where
  "remove_first fd [] = []"
| "remove_first fd (r # rs) = (if fst r = fd then rs else r # remove_first fd rs)"

text \<open>
  A client keeps the address of at most one pending timer per purpose in a slot. The slot is sound when
  it names the one live timer with that callback: it never dangles and no timer is orphaned.
\<close>

definition slot_ok :: "(nat \<rightharpoonup> 'cb) \<Rightarrow> 'cb \<Rightarrow> nat option \<Rightarrow> bool" where
  "slot_ok m cb slot \<longleftrightarrow> (\<forall>i. m i = Some cb \<longleftrightarrow> slot = Some i)"

lemma slot_ok_clear: "slot_ok m cb (Some i) \<Longrightarrow> slot_ok (m(i := None)) cb None"
  by (auto simp: slot_ok_def)

lemma slot_ok_clear_other:
  "slot_ok m cb (Some i) \<Longrightarrow> slot_ok m cb' s \<Longrightarrow> cb' \<noteq> cb \<Longrightarrow> slot_ok (m(i := None)) cb' s"
  unfolding slot_ok_def by (metis fun_upd_apply option.inject option.distinct(1))

lemma slot_ok_add: "slot_ok m cb None \<Longrightarrow> slot_ok (m(i \<mapsto> cb)) cb (Some i)"
  by (auto simp: slot_ok_def)

lemma slot_ok_add_other:
  "slot_ok m cb' s \<Longrightarrow> m i = None \<Longrightarrow> cb' \<noteq> cb \<Longrightarrow> slot_ok (m(i \<mapsto> cb)) cb' s"
  unfolding slot_ok_def by (metis fun_upd_apply option.inject option.distinct(1))

locale timer_service =
  fixes wf :: "'l \<Rightarrow> bool"
    and pending :: "'l \<Rightarrow> nat \<rightharpoonup> 'cb"
    and add :: "'l \<Rightarrow> bool \<Rightarrow> timespec \<Rightarrow> int \<Rightarrow> 'cb \<Rightarrow> 'l \<times> nat option"
    and remove :: "'l \<Rightarrow> nat \<Rightarrow> 'l \<times> bool"
  assumes add_Some: "wf l \<Longrightarrow> add l ok now ms cb = (l', Some i) \<Longrightarrow>
        pending l i = None \<and> pending l' = (pending l)(i \<mapsto> cb)"
    and add_None: "add l ok now ms cb = (l', None) \<Longrightarrow> l' = l"
    and add_wf: "wf l \<Longrightarrow> wf (fst (add l ok now ms cb))"
    and remove_pending: "wf l \<Longrightarrow> pending (fst (remove l i)) = (pending l)(i := None)"
    and remove_wf: "wf l \<Longrightarrow> wf (fst (remove l i))"
begin

definition cancel :: "'l \<Rightarrow> nat option \<Rightarrow> 'l" where
  "cancel l slot = (case slot of None \<Rightarrow> l | Some i \<Rightarrow> fst (remove l i))"

definition reschedule :: "'l \<Rightarrow> nat option \<Rightarrow> bool \<Rightarrow> timespec \<Rightarrow> int \<Rightarrow> 'cb \<Rightarrow> 'l \<times> nat option" where
  "reschedule l slot ok now ms cb = add (cancel l slot) ok now ms cb"

lemma cancel_wf: "wf l \<Longrightarrow> wf (cancel l slot)"
  by (simp add: cancel_def remove_wf split: option.split)

lemma cancel_pending:
  "wf l \<Longrightarrow> pending (cancel l slot) = (case slot of None \<Rightarrow> pending l | Some i \<Rightarrow> (pending l)(i := None))"
  by (simp add: cancel_def remove_pending split: option.split)

lemma reschedule_wf: "wf l \<Longrightarrow> wf (fst (reschedule l slot ok now ms cb))"
  by (simp add: reschedule_def add_wf cancel_wf)

text \<open>
  \<open>f\<close> is the timer whose callback is being run, if any: it is still in the list but no slot names it.
\<close>

definition others :: "nat option \<Rightarrow> 'l \<Rightarrow> nat \<rightharpoonup> 'cb" where
  "others f l = (case f of None \<Rightarrow> pending l | Some i \<Rightarrow> (pending l)(i := None))"

lemma others_upd:
  "f \<noteq> Some i \<or> v = None \<Longrightarrow> pending l' = (pending l)(i := v) \<Longrightarrow> others f l' = (others f l)(i := v)"
  by (auto simp: others_def fun_upd_twist split: option.split)

lemma cancel_slot:
  assumes "wf l" "slot_ok (others f l) cb slot"
  shows "slot_ok (others f (cancel l slot)) cb None"
proof (cases slot)
  case (Some i)
  then have "others f (cancel l slot) = (others f l)(i := None)"
    using cancel_pending [OF assms(1), of slot] by (simp add: others_upd)
  then show ?thesis
    using assms(2) Some by (simp add: slot_ok_clear)
qed (use assms in \<open>simp add: cancel_def\<close>)

lemma cancel_other:
  assumes "wf l" "slot_ok (others f l) cb slot" "slot_ok (others f l) cb' slot'" "cb' \<noteq> cb"
  shows "slot_ok (others f (cancel l slot)) cb' slot'"
proof (cases slot)
  case (Some i)
  then have "others f (cancel l slot) = (others f l)(i := None)"
    using cancel_pending [OF assms(1), of slot] by (simp add: others_upd)
  then show ?thesis
    using assms(2-4) Some by (simp add: slot_ok_clear_other)
qed (use assms in \<open>simp add: cancel_def\<close>)

lemma add_others:
  assumes "wf l" "add l ok now ms cb = (l', Some i)" "\<And>j. f = Some j \<Longrightarrow> pending l j \<noteq> None"
  shows "others f l' = (others f l)(i \<mapsto> cb)" "others f l i = None"
proof -
  have "pending l i = None" "pending l' = (pending l)(i \<mapsto> cb)" "f \<noteq> Some i"
    using add_Some [OF assms(1,2)] assms(3) by auto
  then show "others f l' = (others f l)(i \<mapsto> cb)" "others f l i = None"
    by (simp_all add: others_upd) (simp add: others_def split: option.split)
qed

lemma add_slot:
  assumes "wf l" "slot_ok (others f l) cb None" "add l ok now ms cb = (l', slot)"
    "\<And>j. f = Some j \<Longrightarrow> pending l j \<noteq> None"
  shows "slot_ok (others f l') cb slot"
proof (cases slot)
  case None
  then show ?thesis
    using assms add_None by blast
next
  case (Some i)
  then show ?thesis
    using add_others [OF assms(1) _ assms(4)] assms(2,3) by (simp add: slot_ok_add)
qed

lemma add_other:
  assumes "wf l" "slot_ok (others f l) cb' slot'" "add l ok now ms cb = (l', slot)" "cb' \<noteq> cb"
    "\<And>j. f = Some j \<Longrightarrow> pending l j \<noteq> None"
  shows "slot_ok (others f l') cb' slot'"
proof (cases slot)
  case None
  then show ?thesis
    using assms add_None by blast
next
  case (Some i)
  then show ?thesis
    using add_others [OF assms(1) _ assms(5)] assms(2-4) by (simp add: slot_ok_add_other)
qed

text \<open>A slot never names the timer that is being run, so cancelling keeps that timer pending.\<close>

lemma cancel_running:
  assumes "wf l" "slot_ok (others (Some j) l) cb slot" "pending l j \<noteq> None"
  shows "pending (cancel l slot) j \<noteq> None"
proof -
  have "slot \<noteq> Some j"
    using assms(2) by (auto simp: slot_ok_def others_def)
  then show ?thesis
    using cancel_pending [OF assms(1), of slot] assms(3) by (simp split: option.split)
qed

lemma reschedule_slot:
  assumes "wf l" "slot_ok (others f l) cb slot" "reschedule l slot ok now ms cb = (l', slot')"
    "\<And>j. f = Some j \<Longrightarrow> pending l j \<noteq> None"
  shows "slot_ok (others f l') cb slot'"
proof (rule add_slot)
  show "wf (cancel l slot)" "slot_ok (others f (cancel l slot)) cb None"
    using assms cancel_wf cancel_slot by blast+
  show "add (cancel l slot) ok now ms cb = (l', slot')"
    using assms(3) by (simp add: reschedule_def)
  show "pending (cancel l slot) j \<noteq> None" if "f = Some j" for j
    using cancel_running assms that by blast
qed

lemma reschedule_other:
  assumes "wf l" "slot_ok (others f l) cb slot" "slot_ok (others f l) cb' s"
    "reschedule l slot ok now ms cb = (l', slot')" "cb' \<noteq> cb"
    "\<And>j. f = Some j \<Longrightarrow> pending l j \<noteq> None"
  shows "slot_ok (others f l') cb' s"
proof (rule add_other)
  show "wf (cancel l slot)" "slot_ok (others f (cancel l slot)) cb' s"
    using assms cancel_wf cancel_other by blast+
  show "add (cancel l slot) ok now ms cb = (l', slot')"
    using assms(4) by (simp add: reschedule_def)
  show "pending (cancel l slot) j \<noteq> None" if "f = Some j" for j
    using cancel_running assms that by blast
qed (rule assms(5))

lemma reschedule_running:
  assumes "wf l" "slot_ok (others (Some j) l) cb slot" "pending l j = Some c"
    "reschedule l slot ok now ms cb = (l', slot')"
  shows "pending l' j = Some c"
proof -
  have "slot \<noteq> Some j"
    using assms(2) by (auto simp: slot_ok_def others_def)
  then have p: "pending (cancel l slot) j = Some c"
    using cancel_pending [OF assms(1), of slot] assms(3) by (simp split: option.split)
  have a: "add (cancel l slot) ok now ms cb = (l', slot')"
    using assms(4) by (simp add: reschedule_def)
  show ?thesis
  proof (cases slot')
    case None
    then show ?thesis using a p add_None by metis
  next
    case (Some i)
    then show ?thesis
      using add_Some [OF cancel_wf [OF assms(1)]] a p by (metis fun_upd_other option.distinct(1))
  qed
qed

end

section \<open>The timer laws hold\<close>

lemma find_timer_simps [simp]:
  "find_timer i [] = None"
  "find_timer i (t # ts) = (if lt_id t = i then Some t else find_timer i ts)"
  by (simp_all add: find_timer_def)

lemma find_timer_None_iff: "find_timer i ts = None \<longleftrightarrow> i \<notin> lt_id ` set ts"
  by (induction ts) auto

lemma find_timer_Some: "find_timer i ts = Some t \<Longrightarrow> t \<in> set ts \<and> lt_id t = i"
  by (induction ts) (auto split: if_splits)

lemma find_timer_member: "distinct (map lt_id ts) \<Longrightarrow> t \<in> set ts \<Longrightarrow> find_timer (lt_id t) ts = Some t"
  by (induction ts) auto

lemma find_mark_removed:
  "find_timer j (fst (mark_removed i ts)) =
     (if i = j then map_option (\<lambda>t. t\<lparr>lt_removed := True\<rparr>) (find_timer j ts) else find_timer j ts)"
  by (induction ts) (auto split: prod.splits)

lemma mark_removed_ids [simp]: "map lt_id (fst (mark_removed i ts)) = map lt_id ts"
  by (induction ts) (auto split: prod.splits)

lemma mark_removed_id_set: "lt_id ` set (fst (mark_removed i ts)) = lt_id ` set ts"
  by (metis list.set_map mark_removed_ids)

lemma find_filter_timer:
  "find_timer j (filter (\<lambda>t. lt_id t \<noteq> i) ts) = (if i = j then None else find_timer j ts)"
  by (induction ts) auto

lemma live_unlink [simp]: "live (unlink_timer i l) = (live l)(i := None)"
  by (rule ext) (simp add: live_def unlink_timer_def find_filter_timer)

lemma live_remove: "live (fst (loop_remove_timer l i)) = (live l)(i := None)"
proof (rule ext)
  fix j
  obtain ts found where m: "mark_removed i (lp_timers l) = (ts, found)"
    by (cases "mark_removed i (lp_timers l)")
  then show "live (fst (loop_remove_timer l i)) j = ((live l)(i := None)) j"
    using find_mark_removed [of j i "lp_timers l"]
    by (auto simp: live_def loop_remove_timer_def split: option.splits)
qed

lemma loop_wf_fresh: "loop_wf l \<Longrightarrow> live l (lp_next_id l) = None"
proof -
  assume "loop_wf l"
  then have "lp_next_id l \<notin> lt_id ` set (lp_timers l)"
    by (auto simp: loop_wf_def)
  then show ?thesis
    by (simp add: live_def find_timer_None_iff [symmetric])
qed

lemma live_add:
  assumes "loop_wf l" "loop_add_timer l ok now ms cb = (l', Some i)"
  shows "live l i = None \<and> live l' = (live l)(i \<mapsto> cb)"
proof -
  have i: "i = lp_next_id l"
    and l': "l' = l\<lparr>lp_timers := \<lparr>lt_id = i, lt_callback = cb, lt_expiry = timer_expiry now ms,
                   lt_removed = False\<rparr> # lp_timers l, lp_next_id := Suc i\<rparr>"
    using assms(2) by (auto simp: loop_add_timer_def split: if_splits)
  have "live l' = (live l)(i \<mapsto> cb)"
    by (rule ext) (simp add: l' live_def)
  then show ?thesis
    using loop_wf_fresh [OF assms(1)] i by simp
qed

lemma loop_add_timer_wf: "loop_wf l \<Longrightarrow> loop_wf (fst (loop_add_timer l ok now ms cb))"
  by (auto simp: loop_add_timer_def loop_wf_def less_Suc_eq)

lemma loop_remove_timer_wf: "loop_wf l \<Longrightarrow> loop_wf (fst (loop_remove_timer l i))"
proof -
  assume wf: "loop_wf l"
  obtain ts found where m: "mark_removed i (lp_timers l) = (ts, found)"
    by (cases "mark_removed i (lp_timers l)")
  have ids: "map lt_id ts = map lt_id (lp_timers l)"
    using mark_removed_ids [of i "lp_timers l"] m by simp
  have "lt_id t < lp_next_id l" if "t \<in> set ts" for t
  proof -
    have "lt_id t \<in> set (map lt_id (lp_timers l))"
      using that by (metis ids image_eqI list.set_map)
    then show ?thesis
      using wf by (auto simp: loop_wf_def)
  qed
  then show ?thesis
    using wf ids by (simp add: loop_remove_timer_def m loop_wf_def)
qed

lemma unlink_timer_wf: "loop_wf l \<Longrightarrow> loop_wf (unlink_timer i l)"
  by (auto simp: loop_wf_def unlink_timer_def intro: distinct_map_filter)

interpretation tms: timer_service loop_wf live loop_add_timer loop_remove_timer
proof
  fix l l' :: "('a, 'b) loop" and ok now ms cb
  assume "loop_add_timer l ok now ms cb = (l', None)"
  then show "l' = l"
    by (simp add: loop_add_timer_def split: if_splits)
qed (simp_all add: live_add live_remove loop_add_timer_wf loop_remove_timer_wf)

section \<open>Time\<close>

lemma timer_expiry_ns:
  assumes "timespec_ok now" "0 \<le> ms"
  shows "timespec_ok (timer_expiry now ms)"
    "timespec_ns (timer_expiry now ms) = timespec_ns now + ms * 1000000"
proof -
  have d: "ms sdiv 1000 = ms div 1000" "ms smod 1000 = ms mod 1000"
    using assms(2) by (simp_all add: signed_divide_int_def signed_modulo_int_def
        minus_div_mult_eq_mod [symmetric] sgn_if)
  define q r where "q = ms div 1000" and "r = ms mod 1000"
  have r: "0 \<le> r" "r < 1000"
    by (simp_all add: r_def)
  have m: "ms = q * 1000 + r"
    by (simp add: q_def r_def)
  have t: "timer_expiry now ms =
      (if tv_nsec now + r * 1000000 \<ge> 1000000000
       then \<lparr>tv_sec = tv_sec now + q + 1, tv_nsec = tv_nsec now + (r * 1000000 - 1000000000)\<rparr>
       else \<lparr>tv_sec = tv_sec now + q, tv_nsec = tv_nsec now + r * 1000000\<rparr>)"
    by (simp add: timer_expiry_def d Let_def q_def r_def)
  show "timespec_ok (timer_expiry now ms)"
    using assms(1) r unfolding t timespec_ok_def by auto
  show "timespec_ns (timer_expiry now ms) = timespec_ns now + ms * 1000000"
    unfolding t timespec_ns_def using m by simp
qed

lemma fold_min_le:
  fixes f :: "'a \<Rightarrow> int"
  shows "fold (\<lambda>t ms. if f t < ms then f t else ms) ts m \<le> m"
    "t \<in> set ts \<Longrightarrow> fold (\<lambda>t ms. if f t < ms then f t else ms) ts m \<le> f t"
proof -
  show le: "fold (\<lambda>t ms. if f t < ms then f t else ms) ts m \<le> m" for m
    by (induction ts arbitrary: m) (auto, (meson dual_order.trans less_imp_le)+)
  show "t \<in> set ts \<Longrightarrow> fold (\<lambda>t ms. if f t < ms then f t else ms) ts m \<le> f t"
  proof (induction ts arbitrary: m)
    case (Cons u ts)
    have le': "fold (\<lambda>t ms. if f t < ms then f t else ms) ts m' \<le> m'" for m'
      by (induction ts arbitrary: m') (auto, (meson dual_order.trans less_imp_le)+)
    show ?case
    proof (cases "t = u")
      case True
      then show ?thesis
        using le' [of "if f u < m then f u else m"] by (auto split: if_splits)
    next
      case False
      then show ?thesis using Cons by simp
    qed
  qed simp
qed

lemma sdiv_upper: "(x :: int) sdiv 1000000 * 1000000 < x + 1000000"
proof -
  have "y div 1000000 * 1000000 \<le> y" "y - 1000000 < y div 1000000 * 1000000" for y :: int
    by presburger+
  from this(1) [of x] this(2) [of "- x"] show ?thesis
    by (cases "0 < x") (auto simp: signed_divide_int_def sgn_if)
qed

lemma sdiv_range: "\<bar>x\<bar> < 1000000000 \<Longrightarrow> \<bar>x sdiv 1000000\<bar> \<le> (999 :: int)"
proof -
  have "y div 1000000 \<le> 999" if "y < 1000000000" for y :: int
    using zdiv_mono1 [of y 999999999 1000000] that by simp
  moreover have "0 \<le> y div 1000000" if "0 \<le> y" for y :: int
    using that by simp
  ultimately
  show "\<bar>x\<bar> < 1000000000 \<Longrightarrow> ?thesis"
    by (auto simp: signed_divide_int_def sgn_if abs_if)
qed

lemma timer_ms_exact:
  assumes "timer_in_range now expiry"
  shows "timer_ms now expiry =
    (tv_sec expiry - tv_sec now) * 1000 + (tv_nsec expiry - tv_nsec now) sdiv 1000000"
proof -
  have "\<bar>(tv_nsec expiry - tv_nsec now) sdiv 1000000\<bar> \<le> 999"
    using assms by (intro sdiv_range) (auto simp: timer_in_range_def timespec_ok_def)
  then show ?thesis
    using assms by (auto simp: timer_ms_def timer_in_range_def c_int_id)
qed

lemma loop_timeout_le:
  assumes "t \<in> set (lp_timers l)"
  shows "loop_timeout now l \<le> max 0 (timer_ms now (lt_expiry t))"
  unfolding loop_timeout_def
  using fold_min_le(2) [OF assms, of "\<lambda>t. timer_ms now (lt_expiry t)" INT_MAX] by (auto simp: max_def)

lemma timer_ms_upper:
  assumes "timer_in_range now expiry"
  shows "timer_ms now expiry * 1000000 < timespec_ns expiry - timespec_ns now + 1000000"
  using sdiv_upper [of "tv_nsec expiry - tv_nsec now"]
  by (simp add: timer_ms_exact [OF assms] timespec_ns_def algebra_simps)

section \<open>Dispatch\<close>

lemma dispatch_timers_passive:
  assumes "distinct (map lt_id (ts0 @ ts))" "lp_timers l = ts0 @ ts"
  shows "dispatch_timers fst (\<lambda>l s. (l, snd s)) (\<lambda>_. True) (\<lambda>cb s. (fst s, snd s @ [cb])) now
           (map lt_id ts) (l, log) =
         (l\<lparr>lp_timers := ts0 @ filter (\<lambda>t. \<not> lt_removed t \<and> \<not> timer_expired now t) ts\<rparr>,
          log @ map lt_callback (filter (\<lambda>t. \<not> lt_removed t \<and> timer_expired now t) ts))"
  using assms
proof (induction ts arbitrary: ts0 l log)
  case Nil
  then show ?case by simp
next
  case (Cons t ts)
  have find: "find_timer (lt_id t) (lp_timers l) = Some t"
    using find_timer_member [of "ts0 @ t # ts" t] Cons.prems by simp
  have "\<forall>u \<in> set ts0 \<union> set ts. lt_id u \<noteq> lt_id t"
    using Cons.prems(1) by (auto simp: image_iff)
  then have "filter (\<lambda>u. lt_id u \<noteq> lt_id t) ts0 = ts0" "filter (\<lambda>u. lt_id u \<noteq> lt_id t) ts = ts"
    by (simp_all add: filter_id_conv)
  then have unlink: "unlink_timer (lt_id t) l = l\<lparr>lp_timers := ts0 @ ts\<rparr>"
    by (simp add: unlink_timer_def Cons.prems(2))
  have drop: "distinct (map lt_id (ts0 @ ts))" and keep: "distinct (map lt_id ((ts0 @ [t]) @ ts))"
    using Cons.prems(1) by auto
  show ?case
    using Cons.IH [OF drop, of "l\<lparr>lp_timers := ts0 @ ts\<rparr>"]
      Cons.IH [OF keep, of l] Cons.prems(2) find unlink by (simp add: Let_def)
qed

section \<open>Descriptors\<close>

lemma remove_first_append:
  "fd \<notin> fst ` set xs \<Longrightarrow> remove_first fd (xs @ ys) = xs @ remove_first fd ys"
  by (induction xs) auto

lemma loop_remove_fd_from_spec:
  assumes "length ps0 = length es0" "length ps = length es"
    "lp_fds l = ps0 @ ps" "lp_fd_events l = es0 @ es" "fd \<notin> pfd_fd ` set ps0"
  shows "registered (fst (loop_remove_fd_from (length es0) es fd l)) = remove_first fd (registered l)"
    "snd (loop_remove_fd_from (length es0) es fd l) \<longleftrightarrow> fd \<in> pfd_fd ` set ps"
    "loop_wf l \<Longrightarrow> loop_wf (fst (loop_remove_fd_from (length es0) es fd l))"
    "lp_timers (fst (loop_remove_fd_from (length es0) es fd l)) = lp_timers l"
proof -
  let ?R = "\<lambda>r. registered (fst r) = remove_first fd (registered l) \<and>
     (snd r \<longleftrightarrow> fd \<in> pfd_fd ` set ps) \<and> (loop_wf l \<longrightarrow> loop_wf (fst r)) \<and>
     lp_timers (fst r) = lp_timers l"
  have "?R (loop_remove_fd_from (length es0) es fd l)"
    using assms
  proof (induction es arbitrary: es0 ps0 ps)
    case Nil
    then have "fd \<notin> fst ` set (registered l)"
      by (auto simp: registered_def dest!: set_zip_leftD)
    then show ?case
      using Nil remove_first_append [of fd "registered l" "[]"] by simp
  next
    case (Cons e es)
    obtain p ps' where ps: "ps = p # ps'" "length ps' = length es"
      using Cons.prems(2) by (cases ps) auto
    have nth: "lp_fds l ! length es0 = p"
      using Cons.prems(1,3) ps by (simp add: nth_append)
    have reg: "registered l =
        zip (map pfd_fd ps0) es0 @ (pfd_fd p, e) # zip (map pfd_fd ps') es"
      using Cons.prems ps by (simp add: registered_def)
    have out: "fd \<notin> fst ` set (zip (map pfd_fd ps0) es0)"
      using Cons.prems(5) by (auto dest!: set_zip_leftD)
    show ?case
    proof (cases "pfd_fd p = fd")
      case True
      then show ?thesis
        using Cons.prems ps nth out reg
        by (auto simp: registered_def remove_first_append loop_wf_def)
    next
      case False
      then show ?thesis
        using Cons.IH [of "ps0 @ [p]" "es0 @ [e]" ps'] Cons.prems ps nth by auto
    qed
  qed
  then show "registered (fst (loop_remove_fd_from (length es0) es fd l)) = remove_first fd (registered l)"
    "snd (loop_remove_fd_from (length es0) es fd l) \<longleftrightarrow> fd \<in> pfd_fd ` set ps"
    "loop_wf l \<Longrightarrow> loop_wf (fst (loop_remove_fd_from (length es0) es fd l))"
    "lp_timers (fst (loop_remove_fd_from (length es0) es fd l)) = lp_timers l"
    by blast+
qed

lemma loop_remove_fd_spec:
  assumes "loop_wf l"
  shows "registered (fst (loop_remove_fd l fd)) = remove_first fd (registered l)"
    "snd (loop_remove_fd l fd) \<longleftrightarrow> fd \<in> fst ` set (registered l)"
    "loop_wf (fst (loop_remove_fd l fd))"
    "lp_timers (fst (loop_remove_fd l fd)) = lp_timers l"
proof -
  have "length (lp_fds l) = length (lp_fd_events l)"
    using assms by (simp add: loop_wf_def)
  moreover from this have "fst ` set (registered l) = pfd_fd ` set (lp_fds l)"
    unfolding registered_def by (metis length_map list.set_map map_fst_zip)
  ultimately show "registered (fst (loop_remove_fd l fd)) = remove_first fd (registered l)"
    "snd (loop_remove_fd l fd) \<longleftrightarrow> fd \<in> fst ` set (registered l)"
    "loop_wf (fst (loop_remove_fd l fd))"
    "lp_timers (fst (loop_remove_fd l fd)) = lp_timers l"
    using loop_remove_fd_from_spec [of "[]" "[]" "lp_fds l" "lp_fd_events l" l fd] assms
    by (simp_all add: loop_remove_fd_def)
qed

lemma loop_add_fd_spec:
  assumes "loop_wf l"
  shows "registered (loop_add_fd l True fd m cb) = registered l @ [(fd, cb)]"
    "loop_wf (loop_add_fd l ok fd m cb)"
    "lp_timers (loop_add_fd l ok fd m cb) = lp_timers l"
  using assms by (auto simp: loop_add_fd_def registered_def loop_wf_def)

section \<open>Properties\<close>

text \<open>
  A timer set for \<open>ms\<close> milliseconds expires exactly that long after the clock reading, and the
  expiry is again a normalised time stamp: the carry of the nanoseconds is right.\<close>

theorem loop_timer_expiry_exact:
  assumes "timespec_ok now" "0 \<le> ms"
  shows "timespec_ok (timer_expiry now ms) \<and>
    timespec_ns (timer_expiry now ms) = timespec_ns now + ms * 1000000"
  using timer_expiry_ns [OF assms] by simp

theorem loop_timer_expiry_exact_witness:
  "timer_expiry \<lparr>tv_sec = 7, tv_nsec = 999500000\<rparr> 1001 = \<lparr>tv_sec = 9, tv_nsec = 500000\<rparr> \<and>
   timespec_ns (timer_expiry \<lparr>tv_sec = 7, tv_nsec = 999500000\<rparr> 1001) =
     timespec_ns \<lparr>tv_sec = 7, tv_nsec = 999500000\<rparr> + 1001 * 1000000"
  using loop_timer_expiry_exact [of "\<lparr>tv_sec = 7, tv_nsec = 999500000\<rparr>" 1001]
  by (simp add: timespec_ok_def timer_expiry_def signed_divide_int_def signed_modulo_int_def)

text \<open>
  C31: the timeout given to \<^verbatim>\<open>poll\<close> is never negative (so it never blocks for good) and it
  never oversleeps a timer: for every timer of the list the wait ends less than one millisecond after
  its expiry, and at once when it is overdue.\<close>

theorem loop_timeout_no_oversleep:
  assumes "t \<in> set (lp_timers l)" "timer_in_range now (lt_expiry t)"
  shows "0 \<le> loop_timeout now l \<and>
    loop_timeout now l * 1000000 < max 0 (timespec_ns (lt_expiry t) - timespec_ns now) + 1000000"
proof
  show "0 \<le> loop_timeout now l"
    by (simp add: loop_timeout_def)
  show "loop_timeout now l * 1000000 <
      max 0 (timespec_ns (lt_expiry t) - timespec_ns now) + 1000000"
    using loop_timeout_le [OF assms(1), of now] timer_ms_upper [OF assms(2)]
    by (auto simp: max_def split: if_splits)
qed

theorem loop_timeout_no_oversleep_witness:
  "\<exists>l :: (nat, nat) loop. \<exists>t now. t \<in> set (lp_timers l) \<and> loop_timeout now l = 1500 \<and>
     loop_timeout now l * 1000000 < max 0 (timespec_ns (lt_expiry t) - timespec_ns now) + 1000000"
proof -
  define l :: "(nat, nat) loop" where
    "l = fst (loop_add_timer loop_create True \<lparr>tv_sec = 3, tv_nsec = 0\<rparr> 1500 (8 :: nat))"
  define t where "t = hd (lp_timers l)"
  have t: "t = \<lparr>lt_id = 0, lt_callback = 8, lt_expiry = \<lparr>tv_sec = 4, tv_nsec = 500000000\<rparr>,
      lt_removed = False\<rparr>" "lp_timers l = [t]"
    by (simp_all add: t_def l_def loop_add_timer_def loop_create_def timer_expiry_def
        signed_divide_int_def signed_modulo_int_def)
  then have r: "timer_in_range \<lparr>tv_sec = 3, tv_nsec = 0\<rparr> (lt_expiry t)"
    by (simp add: timer_in_range_def timespec_ok_def)
  have "loop_timeout \<lparr>tv_sec = 3, tv_nsec = 0\<rparr> l = 1500"
    unfolding loop_timeout_def t(2) fold_simps timer_ms_exact [OF r]
    by (simp add: t(1) INT_MAX_def signed_divide_int_def)
  then show ?thesis
    using loop_timeout_no_oversleep [of t l "\<lparr>tv_sec = 3, tv_nsec = 0\<rparr>"] r t(2)
    by (metis list.set_intros(1))
qed



text \<open>
  Registrations of descriptors. Adding appends the pair of descriptor and callback; removing
  takes out the first registration of the descriptor, reports whether there was one and keeps the
  array and the list of callbacks aligned; neither touches a timer. In particular adding and then
  removing a new descriptor gives the old registrations back.\<close>

theorem loop_fd_registration:
  assumes "loop_wf l"
  shows "registered (loop_add_fd l True fd m cb) = registered l @ [(fd, cb)] \<and>
    registered (fst (loop_remove_fd l fd)) = remove_first fd (registered l) \<and>
    (snd (loop_remove_fd l fd) \<longleftrightarrow> fd \<in> fst ` set (registered l)) \<and>
    loop_wf (loop_add_fd l True fd m cb) \<and> loop_wf (fst (loop_remove_fd l fd)) \<and>
    (fd \<notin> fst ` set (registered l) \<longrightarrow>
       registered (fst (loop_remove_fd (loop_add_fd l True fd m cb) fd)) = registered l)"
  using loop_remove_fd_spec [OF assms] loop_add_fd_spec [OF assms]
    loop_remove_fd_spec(1) [OF loop_add_fd_spec(2) [OF assms]]
  by (simp add: remove_first_append)

theorem loop_fd_registration_witness:
  "registered (fst (loop_remove_fd (loop_add_fd (loop_create :: (nat, string) loop) True 5 POLLIN ''in'') 5)) =
     registered (loop_create :: (nat, string) loop)"
proof -
  have "loop_wf (loop_create :: (nat, string) loop)"
    "registered (loop_create :: (nat, string) loop) = []"
    by (simp_all add: loop_wf_def registered_def loop_create_def)
  then show ?thesis
    using loop_fd_registration [of "loop_create :: (nat, string) loop" 5 POLLIN "''in''"] by simp
qed

end
