(* ===== verification/PoolBuffer.thy ===== *)
theory PoolBuffer
  imports Prelude
begin

text \<open>
  \<^verbatim>\<open>src/pool-buffer.c\<close>: shared-memory buffers for the compositor. A pointer of the C struct is kept as
  the fact whether it is set; the pixels are not modelled. What the kernel answers to \<^verbatim>\<open>shm_open\<close> and
  \<^verbatim>\<open>ftruncate\<close> is read from a list of outcomes; an empty list stands for success. The size of a
  buffer is computed in 32-bit unsigned arithmetic, as in the code, and may wrap.
\<close>

section \<open>Data\<close>

record pool_buffer =
  pb_buffer :: bool
  pb_surface :: bool
  pb_cairo :: bool
  pb_width :: u32
  pb_height :: u32
  pb_data :: bool
  pb_size :: nat
  pb_busy :: bool

datatype shm_open_result = ShmFd | ShmExists | ShmError

record shm_env =
  se_open :: "shm_open_result list"
  se_truncate :: "bool list"

definition empty_buffer :: pool_buffer where
  "empty_buffer = \<lparr>pb_buffer = False, pb_surface = False, pb_cairo = False, pb_width = 0,
     pb_height = 0, pb_data = False, pb_size = 0, pb_busy = False\<rparr>"

section \<open>Operations\<close>

text \<open>
  The \<^verbatim>\<open>do\<close> loop: each round tries a name; \<^verbatim>\<open>EEXIST\<close> is tried again while attempts are left.
  The argument counts the attempts that are left.
\<close>

fun anonymous_shm_open_loop :: "nat \<Rightarrow> shm_open_result list \<Rightarrow> bool \<times> shm_open_result list" where
  "anonymous_shm_open_loop retries rs =
     (case next_result ShmFd rs of (r, rs') \<Rightarrow>
        (case r of
           ShmFd \<Rightarrow> (True, rs')
         | ShmExists \<Rightarrow>
             (if retries - 1 > 0 then anonymous_shm_open_loop (retries - 1) rs' else (False, rs'))
         | ShmError \<Rightarrow> (False, rs')))"

declare anonymous_shm_open_loop.simps [simp del]

definition anonymous_shm_open :: "shm_open_result list \<Rightarrow> bool \<times> shm_open_result list" where
  "anonymous_shm_open rs = anonymous_shm_open_loop 100 rs"

definition buffer_release :: "pool_buffer \<Rightarrow> pool_buffer" where
  "buffer_release b = b\<lparr>pb_busy := False\<rparr>"

definition create_buffer ::
    "shm_env \<Rightarrow> pool_buffer \<Rightarrow> u32 \<Rightarrow> u32 \<Rightarrow> pool_buffer option \<times> shm_env" where
  "create_buffer env buf width height =
     (let stride = width * 4;
          sz = unat (stride * height);
          finish = (\<lambda>b. b\<lparr>pb_size := sz, pb_width := width, pb_height := height,
                          pb_data := (sz > 0), pb_surface := True, pb_cairo := True\<rparr>)
      in if sz > 0 then
           (case anonymous_shm_open (se_open env) of (opened, rs) \<Rightarrow>
              (if \<not> opened then (None, env\<lparr>se_open := rs\<rparr>)
               else
                 (case next_result True (se_truncate env) of (ok, ts) \<Rightarrow>
                    (if \<not> ok then (None, env\<lparr>se_open := rs, se_truncate := ts\<rparr>)
                     else (Some (finish (buf\<lparr>pb_buffer := True\<rparr>)),
                           env\<lparr>se_open := rs, se_truncate := ts\<rparr>)))))
         else (Some (finish buf), env))"

definition destroy_buffer :: "pool_buffer \<Rightarrow> pool_buffer" where
  "destroy_buffer b = empty_buffer"

text \<open>The \<^verbatim>\<open>for\<close> loop keeps the last entry that is not busy.\<close>

fun pick_buffer :: "nat \<Rightarrow> pool_buffer list \<Rightarrow> nat option \<Rightarrow> nat option" where
  "pick_buffer i [] acc = acc"
| "pick_buffer i (b # bs) acc = pick_buffer (Suc i) bs (if pb_busy b then acc else Some i)"

definition get_next_buffer ::
    "shm_env \<Rightarrow> pool_buffer list \<Rightarrow> u32 \<Rightarrow> u32 \<Rightarrow> nat option \<times> pool_buffer list \<times> shm_env" where
  "get_next_buffer env pool width height =
     (case pick_buffer 0 pool None of
        None \<Rightarrow> (None, pool, env)
      | Some i \<Rightarrow>
          (let b = pool ! i;
               b = (if pb_width b \<noteq> width \<or> pb_height b \<noteq> height then destroy_buffer b else b)
           in if \<not> pb_buffer b then
                (case create_buffer env b width height of
                   (None, env') \<Rightarrow> (None, pool[i := b], env')
                 | (Some b', env') \<Rightarrow> (Some i, pool[i := b'\<lparr>pb_busy := True\<rparr>], env'))
              else (Some i, pool[i := b\<lparr>pb_busy := True\<rparr>], env)))"

section \<open>Specification\<close>

text \<open>A buffer without a compositor object has no memory; a live one has the memory of its pixels.\<close>

definition buffer_ok :: "pool_buffer \<Rightarrow> bool" where
  "buffer_ok b \<longleftrightarrow> pb_size b = unat (pb_width b * 4 * pb_height b) \<and>
     (pb_buffer b \<longleftrightarrow> pb_size b > 0) \<and> (pb_data b \<longleftrightarrow> pb_size b > 0)"

definition fits_u32 :: "u32 \<Rightarrow> u32 \<Rightarrow> bool" where
  "fits_u32 width height \<longleftrightarrow> unat width * 4 * unat height < 2 ^ 32"

section \<open>Lemmas\<close>

lemma buffer_ok_empty [simp]: "buffer_ok empty_buffer"
  by (simp add: buffer_ok_def empty_buffer_def)

lemma create_buffer_ok:
  assumes "create_buffer env b width height = (Some b', env')" "pb_buffer b = False"
  shows "buffer_ok b'" "pb_width b' = width" "pb_height b' = height" "pb_busy b' = pb_busy b"
  using assms by (auto simp: create_buffer_def Let_def buffer_ok_def split: prod.splits if_splits)

lemma pick_buffer_None:
  "pick_buffer i bs acc = None \<longleftrightarrow> acc = None \<and> (\<forall>b \<in> set bs. pb_busy b)"
  by (induction bs arbitrary: i acc) auto

lemma pick_buffer_Some:
  "pick_buffer i bs acc = Some j \<Longrightarrow>
     acc = Some j \<and> (\<forall>b \<in> set bs. pb_busy b) \<or>
     i \<le> j \<and> j < i + length bs \<and> \<not> pb_busy (bs ! (j - i)) \<and>
       (\<forall>k. j < k \<longrightarrow> k < i + length bs \<longrightarrow> pb_busy (bs ! (k - i)))"
proof (induction bs arbitrary: i acc)
  case Nil
  then show ?case by simp
next
  case (Cons b bs)
  have "k - i = Suc (k - Suc i)" if "Suc i \<le> k" for k
    using that by simp
  then have nth: "(b # bs) ! (k - i) = bs ! (k - Suc i)" if "Suc i \<le> k" for k
    using that by (metis nth_Cons_Suc)
  have "pick_buffer (Suc i) bs (if pb_busy b then acc else Some i) = Some j"
    using Cons.prems by simp
  from Cons.IH [OF this] show ?case
  proof (elim disjE conjE)
    assume a: "(if pb_busy b then acc else Some i) = Some j" "\<forall>b \<in> set bs. pb_busy b"
    show ?thesis
    proof (cases "pb_busy b")
      case True
      then show ?thesis using a by simp
    next
      case False
      then have "\<forall>k. j < k \<longrightarrow> k < i + length (b # bs) \<longrightarrow> pb_busy ((b # bs) ! (k - i))"
        using a nth by (auto simp: Suc_le_eq)
      then show ?thesis using a False by simp
    qed
  next
    assume a: "Suc i \<le> j" "j < Suc i + length bs" "\<not> pb_busy (bs ! (j - Suc i))"
      "\<forall>k. j < k \<longrightarrow> k < Suc i + length bs \<longrightarrow> pb_busy (bs ! (k - Suc i))"
    then show ?thesis
      using nth by simp
  qed
qed

lemma get_next_buffer_cases:
  assumes "get_next_buffer env pool width height = (r, pool', env')"
  shows "length pool' = length pool"
    "\<forall>b \<in> set pool. buffer_ok b \<Longrightarrow> \<forall>b \<in> set pool'. buffer_ok b"
    "r = Some i \<Longrightarrow> i < length pool \<and> \<not> pb_busy (pool ! i) \<and> pb_busy (pool' ! i) \<and>
        pb_width (pool' ! i) = width \<and> pb_height (pool' ! i) = height \<and>
        (\<forall>j < length pool. j \<noteq> i \<longrightarrow> pool' ! j = pool ! j)"
proof -
  have *: "length pool' = length pool \<and>
    ((\<forall>b \<in> set pool. buffer_ok b) \<longrightarrow> (\<forall>b \<in> set pool'. buffer_ok b)) \<and>
    (\<forall>i. r = Some i \<longrightarrow> i < length pool \<and> \<not> pb_busy (pool ! i) \<and> pb_busy (pool' ! i) \<and>
        pb_width (pool' ! i) = width \<and> pb_height (pool' ! i) = height \<and>
        (\<forall>j < length pool. j \<noteq> i \<longrightarrow> pool' ! j = pool ! j))"
  proof (cases "pick_buffer 0 pool None")
    case None
    then show ?thesis using assms by (simp add: get_next_buffer_def)
  next
    case (Some k)
    then have k: "k < length pool" "\<not> pb_busy (pool ! k)"
      using pick_buffer_Some [of 0 pool None k] by auto
    define b where
      "b = (if pb_width (pool ! k) \<noteq> width \<or> pb_height (pool ! k) \<noteq> height
            then destroy_buffer (pool ! k) else pool ! k)"
    have ok: "(\<forall>x \<in> set pool. buffer_ok x) \<Longrightarrow> buffer_ok b"
      using k by (auto simp: b_def destroy_buffer_def)
    have upd: "(\<forall>x \<in> set pool. buffer_ok x) \<Longrightarrow> buffer_ok c \<Longrightarrow> \<forall>x \<in> set (pool[k := c]). buffer_ok x" for c
      by (auto dest!: subsetD [OF set_update_subset_insert])
    have busy: "buffer_ok c \<Longrightarrow> buffer_ok (c\<lparr>pb_busy := True\<rparr>)" for c
      by (simp add: buffer_ok_def)
    show ?thesis
    proof (cases "pb_buffer b")
      case True
      then have "pb_width b = width" "pb_height b = height"
        by (auto simp: b_def destroy_buffer_def empty_buffer_def split: if_splits)
      moreover have "r = Some k" "pool' = pool[k := b\<lparr>pb_busy := True\<rparr>]"
        using assms Some True by (auto simp: get_next_buffer_def b_def Let_def split: if_splits)
      moreover have "(\<forall>x \<in> set pool. buffer_ok x) \<longrightarrow>
          (\<forall>x \<in> set (pool[k := b\<lparr>pb_busy := True\<rparr>]). buffer_ok x)"
        using upd busy ok by blast
      ultimately show ?thesis
        using k by simp
    next
      case False
      obtain c env'' where c: "create_buffer env b width height = (c, env'')"
        by (cases "create_buffer env b width height")
      show ?thesis
      proof (cases c)
        case None
        then have "r = None" "pool' = pool[k := b]"
          using assms Some False c by (auto simp: get_next_buffer_def b_def Let_def)
        moreover have "(\<forall>x \<in> set pool. buffer_ok x) \<longrightarrow> (\<forall>x \<in> set (pool[k := b]). buffer_ok x)"
          using upd ok by blast
        ultimately show ?thesis by simp
      next
        case (Some b')
        have "r = Some k" "pool' = pool[k := b'\<lparr>pb_busy := True\<rparr>]"
          using assms \<open>pick_buffer 0 pool None = Some k\<close> False c Some
          by (auto simp: get_next_buffer_def b_def Let_def)
        moreover have "buffer_ok b'" "pb_width b' = width" "pb_height b' = height"
          using create_buffer_ok [of env b width height b' env''] c Some False by simp_all
        moreover have "(\<forall>x \<in> set pool. buffer_ok x) \<longrightarrow>
            (\<forall>x \<in> set (pool[k := b'\<lparr>pb_busy := True\<rparr>]). buffer_ok x)"
          using upd busy \<open>buffer_ok b'\<close> by blast
        ultimately show ?thesis
          using k by simp
      qed
    qed
  qed
  then show "length pool' = length pool"
    "\<forall>b \<in> set pool. buffer_ok b \<Longrightarrow> \<forall>b \<in> set pool'. buffer_ok b"
    "r = Some i \<Longrightarrow> i < length pool \<and> \<not> pb_busy (pool ! i) \<and> pb_busy (pool' ! i) \<and>
        pb_width (pool' ! i) = width \<and> pb_height (pool' ! i) = height \<and>
        (\<forall>j < length pool. j \<noteq> i \<longrightarrow> pool' ! j = pool ! j)"
    by blast+
qed

lemma fits_u32_size: "fits_u32 w h \<Longrightarrow> unat (w * 4 * h) = unat w * 4 * unat h"
proof -
  assume f: "fits_u32 w h"
  show ?thesis
  proof (cases "unat h = 0")
    case True
    then have "h = 0" by (simp add: unat_eq_zero)
    then show ?thesis by simp
  next
    case False
    then have "unat w * 4 * 1 \<le> unat w * 4 * unat h"
      by (intro mult_le_mono2) simp
    then have "unat w * 4 < 2 ^ 32"
      using f unfolding fits_u32_def by linarith
    then have "unat (w * 4) = unat w * 4"
      by (simp add: unat_word_ariths)
    then show ?thesis
      using f by (simp add: fits_u32_def unat_word_ariths)
  qed
qed

section \<open>Properties\<close>

text \<open>
  C35: \<^verbatim>\<open>get_next_buffer\<close> never hands out a buffer the compositor still uses. The buffer it
  returns was free, is marked busy, has the requested dimensions and, unless the 32-bit size wraps,
  exactly the memory of its pixels; the other buffer of the pool is left alone and the pool stays
  well-formed. It gives no buffer only when every buffer is busy or the kernel refuses memory.\<close>

theorem get_next_buffer_correct:
  assumes "\<forall>b \<in> set pool. buffer_ok b"
    and "get_next_buffer env pool width height = (r, pool', env')"
  shows "length pool' = length pool \<and> (\<forall>b \<in> set pool'. buffer_ok b) \<and>
    (case r of
       Some i \<Rightarrow> i < length pool \<and> \<not> pb_busy (pool ! i) \<and> pb_busy (pool' ! i) \<and>
         pb_width (pool' ! i) = width \<and> pb_height (pool' ! i) = height \<and>
         (fits_u32 width height \<longrightarrow> pb_size (pool' ! i) = unat width * 4 * unat height) \<and>
         (\<forall>j < length pool. j \<noteq> i \<longrightarrow> pool' ! j = pool ! j)
     | None \<Rightarrow> (\<forall>b \<in> set pool. pb_busy b) \<or> se_open env \<noteq> [] \<or> se_truncate env \<noteq> [])"
proof (cases r)
  case None
  then have "(\<forall>b \<in> set pool. pb_busy b) \<or> se_open env \<noteq> [] \<or> se_truncate env \<noteq> []"
    using assms(2) pick_buffer_None [of 0 pool None]
    by (auto simp: get_next_buffer_def create_buffer_def anonymous_shm_open_def Let_def
        anonymous_shm_open_loop.simps [of _ "[]"] split: option.splits if_splits prod.splits)
  then show ?thesis
    using None get_next_buffer_cases(1,2) [OF assms(2)] assms(1) by simp
next
  case (Some i)
  note c = get_next_buffer_cases(3) [OF assms(2) Some]
  have all: "\<forall>b \<in> set pool'. buffer_ok b" and len: "length pool' = length pool"
    using get_next_buffer_cases(1,2) [OF assms(2)] assms(1) by simp_all
  then have "buffer_ok (pool' ! i)"
    using c by (metis nth_mem)
  then have "pb_size (pool' ! i) = unat (width * 4 * height)"
    using c by (simp add: buffer_ok_def)
  then have "fits_u32 width height \<longrightarrow> pb_size (pool' ! i) = unat width * 4 * unat height"
    by (simp add: fits_u32_size)
  then show ?thesis
    unfolding Some option.case using c all len by blast
qed

theorem get_next_buffer_correct_witness:
  "\<exists>pool'. get_next_buffer \<lparr>se_open = [], se_truncate = []\<rparr> [empty_buffer, empty_buffer] 20 10 =
       (Some 1, pool', \<lparr>se_open = [], se_truncate = []\<rparr>) \<and> pb_size (pool' ! 1) = 800 \<and> pb_busy (pool' ! 1)"
proof -
  obtain r pool' env' where g:
    "get_next_buffer \<lparr>se_open = [], se_truncate = []\<rparr> [empty_buffer, empty_buffer] 20 10 = (r, pool', env')"
    by (metis prod.exhaust)
  then have "r = Some 1" "env' = \<lparr>se_open = [], se_truncate = []\<rparr>"
    by (auto simp: get_next_buffer_def empty_buffer_def create_buffer_def anonymous_shm_open_def
        anonymous_shm_open_loop.simps [of _ "[]"] Let_def destroy_buffer_def)
  then show ?thesis
    using get_next_buffer_correct [OF _ g] g by (simp add: fits_u32_def)
qed

end
