(* ===== verification/Cairo.thy ===== *)
theory Cairo
  imports Complex_Main Prelude
begin

text \<open>
  \<^verbatim>\<open>src/cairo.c\<close> and \<^verbatim>\<open>src/background-image.c\<close>. Calls of the drawing library are recorded as a list
  of values of \<open>cairo_op\<close> in the order in which they are made, with the arguments the code computes;
  what the library does with them is not modelled. A \<^verbatim>\<open>double\<close> is a real number, so
  rounding is not modelled. Surfaces that hold images are known by an identifier with their size.
\<close>

section \<open>Data\<close>

record image_surface =
  is_id :: nat
  is_width :: int
  is_height :: int
  is_opaque :: bool

datatype cairo_subpixel_order =
  CAIRO_SUBPIXEL_ORDER_DEFAULT | CAIRO_SUBPIXEL_ORDER_RGB | CAIRO_SUBPIXEL_ORDER_BGR
| CAIRO_SUBPIXEL_ORDER_VRGB | CAIRO_SUBPIXEL_ORDER_VBGR

text \<open>\<open>SUBPIXEL_OTHER\<close> stands for every value the switch of the code does not name.\<close>

datatype wl_output_subpixel =
  WL_OUTPUT_SUBPIXEL_HORIZONTAL_RGB | WL_OUTPUT_SUBPIXEL_HORIZONTAL_BGR
| WL_OUTPUT_SUBPIXEL_VERTICAL_RGB | WL_OUTPUT_SUBPIXEL_VERTICAL_BGR | SUBPIXEL_OTHER

datatype cairo_operator = OPERATOR_SOURCE | OPERATOR_OVER

datatype cairo_op =
  SetAntialiasBest
| Save | Restore | IdentityMatrix
| SetOperator cairo_operator
| SetSourceRgba real real real real
| SetSourceRgb real real real
| SetSourceSurface nat real real
| SetSourceRepeat nat
| Scale real real
| Paint | Fill | FillPreserve | Stroke
| SetLineWidth real
| Rectangle real real real real
| Arc real real real real real
| MoveTo real real
| LineTo real real
| ClosePath | NewSubPath
| SetFontOptions cairo_subpixel_order
| SelectFontFace string
| SetFontSize real
| ShowText string

datatype background_mode =
  BACKGROUND_MODE_STRETCH | BACKGROUND_MODE_FILL | BACKGROUND_MODE_FIT | BACKGROUND_MODE_CENTER
| BACKGROUND_MODE_TILE | BACKGROUND_MODE_SOLID_COLOR | BACKGROUND_MODE_INVALID

text \<open>The conversion of a \<^verbatim>\<open>double\<close> to \<^verbatim>\<open>int\<close> discards the fraction.\<close>

definition trunc :: "real \<Rightarrow> int" where
  "trunc x = (if x < 0 then \<lceil>x\<rceil> else \<lfloor>x\<rfloor>)"

section \<open>Colours and pixels\<close>

definition channel :: "u32 \<Rightarrow> nat \<Rightarrow> real" where
  "channel color k = real (unat (drop_bit (k * 8) color AND 0xFF)) / 255"

definition cairo_set_source_u32 :: "u32 \<Rightarrow> cairo_op" where
  "cairo_set_source_u32 color =
     SetSourceRgba (channel color 3) (channel color 2) (channel color 1) (channel color 0)"

definition to_cairo_subpixel_order :: "wl_output_subpixel \<Rightarrow> cairo_subpixel_order" where
  "to_cairo_subpixel_order subpixel =
     (case subpixel of
        WL_OUTPUT_SUBPIXEL_HORIZONTAL_RGB \<Rightarrow> CAIRO_SUBPIXEL_ORDER_RGB
      | WL_OUTPUT_SUBPIXEL_HORIZONTAL_BGR \<Rightarrow> CAIRO_SUBPIXEL_ORDER_BGR
      | WL_OUTPUT_SUBPIXEL_VERTICAL_RGB \<Rightarrow> CAIRO_SUBPIXEL_ORDER_VRGB
      | WL_OUTPUT_SUBPIXEL_VERTICAL_BGR \<Rightarrow> CAIRO_SUBPIXEL_ORDER_VBGR
      | SUBPIXEL_OTHER \<Rightarrow> CAIRO_SUBPIXEL_ORDER_DEFAULT)"

text \<open>\<^verbatim>\<open>PREMUL_ALPHA\<close>: \<^verbatim>\<open>z\<close> is a 32-bit unsigned variable, the result is stored in a byte.\<close>

definition premul_alpha :: "byte \<Rightarrow> byte \<Rightarrow> byte" where
  "premul_alpha a b =
     (let z = (ucast a * ucast b + 0x80 :: u32) in ucast (drop_bit 8 (z + drop_bit 8 z)))"

text \<open>
  The pixel loops on a little-endian machine. \<open>gp\<close> and \<open>cp\<close> are offsets into the source and target
  memory, \<open>n\<close> counts the pixels of the row that are left.
\<close>

fun convert_row3 :: "nat \<Rightarrow> byte list \<Rightarrow> nat \<Rightarrow> nat \<Rightarrow> byte list \<Rightarrow> byte list" where
  "convert_row3 0 src gp cp dst = dst"
| "convert_row3 (Suc n) src gp cp dst =
     convert_row3 n src (gp + 3) (cp + 4)
       (dst[cp := src ! (gp + 2), cp + 1 := src ! (gp + 1), cp + 2 := src ! gp])"

fun convert_row4 :: "nat \<Rightarrow> byte list \<Rightarrow> nat \<Rightarrow> nat \<Rightarrow> byte list \<Rightarrow> byte list" where
  "convert_row4 0 src gp cp dst = dst"
| "convert_row4 (Suc n) src gp cp dst =
     convert_row4 n src (gp + 4) (cp + 4)
       (dst[cp := premul_alpha (src ! (gp + 2)) (src ! (gp + 3)),
            cp + 1 := premul_alpha (src ! (gp + 1)) (src ! (gp + 3)),
            cp + 2 := premul_alpha (src ! gp) (src ! (gp + 3)),
            cp + 3 := src ! (gp + 3)])"

fun convert_rows ::
    "(byte list \<Rightarrow> nat \<Rightarrow> nat \<Rightarrow> byte list \<Rightarrow> byte list) \<Rightarrow> nat \<Rightarrow> nat \<Rightarrow> nat \<Rightarrow>
       byte list \<Rightarrow> nat \<Rightarrow> nat \<Rightarrow> byte list \<Rightarrow> byte list" where
  "convert_rows row 0 stride cstride src gp cp dst = dst"
| "convert_rows row (Suc h) stride cstride src gp cp dst =
     convert_rows row h stride cstride src (gp + stride) (cp + cstride) (row src gp cp dst)"

text \<open>
  A decoded picture and the new image surface of the drawing library: its memory is zeroed and has
  the row length the library chooses. \<open>None\<close> stands for the null pointer.
\<close>

record pixbuf =
  px_channels :: nat
  px_pixels :: "byte list option"
  px_width :: nat
  px_height :: nat
  px_stride :: nat

record cairo_image =
  ci_has_alpha :: bool
  ci_width :: nat
  ci_height :: nat
  ci_stride :: nat
  ci_data :: "byte list"

definition gdk_cairo_image_surface_create_from_pixbuf ::
    "(bool \<Rightarrow> nat \<Rightarrow> nat \<Rightarrow> cairo_image option) \<Rightarrow> pixbuf \<Rightarrow> cairo_image option" where
  "gdk_cairo_image_surface_create_from_pixbuf create gdkbuf =
     (if px_channels gdkbuf < 3 then None
      else case px_pixels gdkbuf of
        None \<Rightarrow> None
      | Some gdkpix \<Rightarrow>
          (case create (px_channels gdkbuf \<noteq> 3) (px_width gdkbuf) (px_height gdkbuf) of
             None \<Rightarrow> None
           | Some cs \<Rightarrow>
               Some (cs\<lparr>ci_data :=
                 convert_rows
                   (if px_channels gdkbuf = 3 then convert_row3 (px_width gdkbuf)
                    else convert_row4 (px_width gdkbuf))
                   (px_height gdkbuf) (px_stride gdkbuf) (ci_stride cs) gdkpix 0 0 (ci_data cs)\<rparr>)))"

section \<open>Background images\<close>

definition parse_background_mode :: "string \<Rightarrow> background_mode" where
  "parse_background_mode mode =
     (if mode = ''stretch'' then BACKGROUND_MODE_STRETCH
      else if mode = ''fill'' then BACKGROUND_MODE_FILL
      else if mode = ''fit'' then BACKGROUND_MODE_FIT
      else if mode = ''center'' then BACKGROUND_MODE_CENTER
      else if mode = ''tile'' then BACKGROUND_MODE_TILE
      else if mode = ''solid_color'' then BACKGROUND_MODE_SOLID_COLOR
      else BACKGROUND_MODE_INVALID)"

text \<open>
  \<^verbatim>\<open>load_background_image\<close> in the build with GDK-Pixbuf: reading the file, applying the orientation
  and the status of a surface belong to the libraries and are parameters.
\<close>

definition load_background_image ::
    "(string \<Rightarrow> pixbuf option) \<Rightarrow> (pixbuf \<Rightarrow> pixbuf) \<Rightarrow> (bool \<Rightarrow> nat \<Rightarrow> nat \<Rightarrow> cairo_image option) \<Rightarrow>
       (cairo_image \<Rightarrow> bool) \<Rightarrow> string \<Rightarrow> cairo_image option" where
  "load_background_image read_file orient create status_ok path =
     (case read_file path of
        None \<Rightarrow> None
      | Some pixbuf \<Rightarrow>
          (case gdk_cairo_image_surface_create_from_pixbuf create (orient pixbuf) of
             None \<Rightarrow> None
           | Some img \<Rightarrow> if status_ok img then Some img else None))"

text \<open>The failing assertion of the two modes without an image is the value \<open>None\<close>.\<close>

definition render_background_image ::
    "image_surface \<Rightarrow> background_mode \<Rightarrow> int \<Rightarrow> int \<Rightarrow> cairo_op list option" where
  "render_background_image img mode buffer_width buffer_height =
     (let width = real_of_int (is_width img);
          height = real_of_int (is_height img);
          bw = real_of_int buffer_width;
          bh = real_of_int buffer_height;
          window_ratio = bw / bh;
          bg_ratio = width / height;
          by_width = (let scale = bw / width in
            [Scale scale scale, SetSourceSurface (is_id img) 0 (bh / 2 / scale - height / 2)]);
          by_height = (let scale = bh / height in
            [Scale scale scale, SetSourceSurface (is_id img) (bw / 2 / scale - width / 2) 0]);
          body =
            (case mode of
               BACKGROUND_MODE_STRETCH \<Rightarrow>
                 Some [Scale (bw / width) (bh / height), SetSourceSurface (is_id img) 0 0]
             | BACKGROUND_MODE_FILL \<Rightarrow> Some (if window_ratio > bg_ratio then by_width else by_height)
             | BACKGROUND_MODE_FIT \<Rightarrow> Some (if window_ratio > bg_ratio then by_height else by_width)
             | BACKGROUND_MODE_CENTER \<Rightarrow>
                 Some [SetSourceSurface (is_id img) (of_int (trunc (bw / 2 - width / 2)))
                         (of_int (trunc (bh / 2 - height / 2)))]
             | BACKGROUND_MODE_TILE \<Rightarrow> Some [SetSourceRepeat (is_id img)]
             | BACKGROUND_MODE_SOLID_COLOR \<Rightarrow> None
             | BACKGROUND_MODE_INVALID \<Rightarrow> None)
      in map_option (\<lambda>ops. [Save] @ ops @ [Paint, Restore]) body)"

section \<open>Specification\<close>

text \<open>The nearest integer to \<open>a * b / 255\<close>.\<close>

definition scaled_product :: "byte \<Rightarrow> byte \<Rightarrow> nat" where
  "scaled_product a b = (2 * (unat a * unat b) + 255) div 510"

text \<open>The part of the screen that an image occupies after scaling: offsets and size in pixels.\<close>

definition image_box :: "image_surface \<Rightarrow> cairo_op list \<Rightarrow> (real \<times> real \<times> real \<times> real) option" where
  "image_box img ops =
     (case ops of
        [Save, Scale sx sy, SetSourceSurface i x y, Paint, Restore] \<Rightarrow>
          Some (sx * x, sy * y, sx * of_int (is_width img), sy * of_int (is_height img))
      | _ \<Rightarrow> None)"

text \<open>The two scalings of the fill and fit modes.\<close>

definition by_width :: "image_surface \<Rightarrow> real \<Rightarrow> real \<Rightarrow> cairo_op list" where
  "by_width img bw bh =
     (let scale = bw / of_int (is_width img) in
      [Save, Scale scale scale,
       SetSourceSurface (is_id img) 0 (bh / 2 / scale - of_int (is_height img) / 2), Paint, Restore])"

definition by_height :: "image_surface \<Rightarrow> real \<Rightarrow> real \<Rightarrow> cairo_op list" where
  "by_height img bw bh =
     (let scale = bh / of_int (is_height img) in
      [Save, Scale scale scale,
       SetSourceSurface (is_id img) (bw / 2 / scale - of_int (is_width img) / 2) 0, Paint, Restore])"

text \<open>What byte \<open>c\<close> of a target pixel holds, for the source pixel at offset \<open>g\<close>.\<close>

definition target_byte3 :: "byte list \<Rightarrow> nat \<Rightarrow> nat \<Rightarrow> byte \<Rightarrow> byte" where
  "target_byte3 src g c old =
     (if c = 0 then src ! (g + 2) else if c = 1 then src ! (g + 1) else if c = 2 then src ! g else old)"

definition target_byte4 :: "byte list \<Rightarrow> nat \<Rightarrow> nat \<Rightarrow> byte \<Rightarrow> byte" where
  "target_byte4 src g c old =
     (if c = 0 then premul_alpha (src ! (g + 2)) (src ! (g + 3))
      else if c = 1 then premul_alpha (src ! (g + 1)) (src ! (g + 3))
      else if c = 2 then premul_alpha (src ! g) (src ! (g + 3)) else src ! (g + 3))"

text \<open>The contract of a row conversion, and what it gives for a whole image.\<close>

locale row_converter =
  fixes row :: "nat \<Rightarrow> byte list \<Rightarrow> nat \<Rightarrow> nat \<Rightarrow> byte list \<Rightarrow> byte list"
    and target :: "byte list \<Rightarrow> nat \<Rightarrow> nat \<Rightarrow> byte \<Rightarrow> byte"
    and chan :: nat
  assumes row_length: "length (row n src gp cp dst) = length dst"
    and row_nth: "cp + 4 * n \<le> length dst \<Longrightarrow> i < length dst \<Longrightarrow>
      row n src gp cp dst ! i =
        (if cp \<le> i \<and> i < cp + 4 * n
         then target src (gp + chan * ((i - cp) div 4)) ((i - cp) mod 4) (dst ! i) else dst ! i)"
begin

lemma rows_length: "length (convert_rows (row w) h stride cstride src gp cp dst) = length dst"
  by (induction h arbitrary: gp cp dst) (simp_all add: row_length)

lemma rows_before:
  "4 * w \<le> cstride \<Longrightarrow> cp + h * cstride \<le> length dst \<Longrightarrow> i < cp \<Longrightarrow>
     convert_rows (row w) h stride cstride src gp cp dst ! i = dst ! i"
  by (induction h arbitrary: gp cp dst) (simp_all add: row_length row_nth)

lemma rows_nth:
  assumes "4 * w \<le> cstride" "cp + h * cstride \<le> length dst" "y < h" "x < w" "c < 4"
  shows "convert_rows (row w) h stride cstride src gp cp dst ! (cp + y * cstride + 4 * x + c) =
    target src (gp + y * stride + chan * x) c (dst ! (cp + y * cstride + 4 * x + c))"
  using assms
proof (induction h arbitrary: y gp cp dst)
  case (Suc h)
  let ?d = "row w src gp cp dst"
  have pos: "4 * x + c < 4 * w" "(4 * x + c) div 4 = x" "(4 * x + c) mod 4 = c"
    using Suc.prems by auto
  have len: "cp + 4 * w \<le> length dst" "cp + cstride + h * cstride \<le> length ?d"
    using Suc.prems by (simp_all add: row_length)
  show ?case
  proof (cases y)
    case 0
    have "cp + 4 * x + c < cp + cstride"
      using pos(1) Suc.prems(1) by simp
    then show ?thesis
      using rows_before [OF Suc.prems(1) len(2)] 0 pos len(1) by (simp add: row_nth add.assoc)
  next
    case (Suc y')
    let ?i = "cp + cstride + y' * cstride + 4 * x + c"
    have "?i < length dst"
    proof -
      have "4 * x + c < cstride" "y' * cstride + cstride \<le> h * cstride"
        using pos(1) Suc.prems(1,3) Suc mult_le_mono1 [of "Suc y'" h cstride] by auto
      then show ?thesis using len(2) by (simp add: row_length)
    qed
    moreover have "\<not> ?i < cp + 4 * w"
      using Suc.prems(1) by simp
    ultimately have "?d ! ?i = dst ! ?i"
      using len(1) by (simp add: row_nth)
    then show ?thesis
      using Suc.IH [OF Suc.prems(1) len(2) _ Suc.prems(4,5), of y' "gp + stride"] Suc Suc.prems(3)
      by (simp add: add.assoc add.left_commute)
  qed
qed simp

end

section \<open>Lemmas\<close>

lemma rounded_div_255:
  fixes t :: nat
  assumes "128 \<le> t" "t \<le> 65153"
  shows "(t + t div 256) div 256 = (t - 1) div 255"
proof -
  define q r where "q = t div 256" and "r = t mod 256"
  have t: "t = 256 * q + r" "r < 256"
    by (simp_all add: q_def r_def)
  have "q \<le> 254"
    using assms(2) div_le_mono [of t 65153 256] by (simp add: q_def)
  have s: "1 \<le> q + r"
    using assms(1) t by (cases "q = 0") auto
  have "(t + t div 256) div 256 = (q * 256 + (q + r)) div 256"
    using t by (simp add: q_def [symmetric])
  also have "\<dots> = q + (q + r) div 256"
    by simp
  also have "(q + r) div 256 = (q + r - 1) div 255"
  proof (cases "q + r < 256")
    case True
    then show ?thesis by simp
  next
    case False
    then have "(q + r) div 256 = 1" "(q + r - 1) div 255 = 1"
      using t(2) \<open>q \<le> 254\<close> by (auto simp: div_nat_eqI)
    then show ?thesis by simp
  qed
  also have "q + (q + r - 1) div 255 = (q * 255 + (q + r - 1)) div 255"
    by simp
  also have "q * 255 + (q + r - 1) = t - 1"
    using t(1) s by simp
  finally show ?thesis .
qed

lemma unat_byte_le: "unat (b :: byte) \<le> 255"
  using unsigned_less [of b, where ?'a = nat] by simp

lemma unat_widen: "unat (ucast (b :: byte) :: u32) = unat b"
  using unat_byte_le [of b] by (simp add: unsigned_ucast_eq take_bit_nat_eq_self)

lemma premul_alpha_round: "unat (premul_alpha a b) = scaled_product a b"
proof -
  define p where "p = unat a * unat b"
  have p: "p \<le> 65025"
    unfolding p_def using mult_le_mono [OF unat_byte_le unat_byte_le, of a b] by simp
  define z where "z = (ucast a * ucast b + 0x80 :: u32)"
  have z: "unat z = p + 128"
    using p by (simp add: z_def unat_word_ariths p_def unat_widen)
  have sum: "unat (z + drop_bit 8 z) = (p + 128) + (p + 128) div 256"
    using p by (simp add: unat_word_ariths unat_drop_bit_eq drop_bit_eq_div z)
  have "(p + 128) + (p + 128) div 256 < 65536"
    using p div_le_mono [of "p + 128" 65153 256] by simp
  then have small: "((p + 128) + (p + 128) div 256) div 256 < 256"
    by (simp add: div_less_iff_less_mult)
  have high: "unat (drop_bit 8 (z + drop_bit 8 z)) = ((p + 128) + (p + 128) div 256) div 256"
    unfolding unat_drop_bit_eq sum by (simp add: drop_bit_eq_div)
  have "unat (premul_alpha a b) = ((p + 128) + (p + 128) div 256) div 256"
    unfolding premul_alpha_def Let_def z_def [symmetric]
    using high small by (simp add: unsigned_ucast_eq take_bit_nat_eq_self)
  also have "\<dots> = (p + 127) div 255"
    using rounded_div_255 [of "p + 128"] p by simp
  also have "p + 127 = (2 * p + 255) div 2"
    by simp
  also have "(2 * p + 255) div 2 div 255 = (2 * p + 255) div 510"
    by (simp add: div_mult2_eq [symmetric])
  finally show ?thesis
    by (simp add: scaled_product_def p_def)
qed

lemma nth_step4:
  fixes cp :: nat
  assumes "cp + 4 \<le> i"
  shows "(i - cp) div 4 = Suc ((i - (cp + 4)) div 4)" "(i - cp) mod 4 = (i - (cp + 4)) mod 4"
proof -
  define k where "k = i - (cp + 4)"
  have "i - cp = k + 4"
    using assms by (simp add: k_def)
  then show "(i - cp) div 4 = Suc ((i - (cp + 4)) div 4)" "(i - cp) mod 4 = (i - (cp + 4)) mod 4"
    by (simp_all add: k_def [symmetric])
qed

lemma in_pixel:
  fixes cp :: nat
  assumes "cp \<le> i" "i < cp + 4"
  shows "i = cp \<or> i = cp + 1 \<or> i = cp + 2 \<or> i = cp + 3"
  using assms by linarith

interpretation rgb: row_converter convert_row3 target_byte3 3
proof
  show "length (convert_row3 n src gp cp dst) = length dst" for n src gp cp dst
    by (induction n arbitrary: gp cp dst) simp_all
  show "convert_row3 n src gp cp dst ! i =
      (if cp \<le> i \<and> i < cp + 4 * n
       then target_byte3 src (gp + 3 * ((i - cp) div 4)) ((i - cp) mod 4) (dst ! i) else dst ! i)"
    if "cp + 4 * n \<le> length dst" "i < length dst" for n src gp cp dst i
    using that
  proof (induction n arbitrary: gp cp dst)
    case (Suc n)
    let ?d = "dst[cp := src ! (gp + 2), cp + 1 := src ! (gp + 1), cp + 2 := src ! gp]"
    have ih: "convert_row3 (Suc n) src gp cp dst ! i =
        (if cp + 4 \<le> i \<and> i < cp + 4 + 4 * n
         then target_byte3 src (gp + 3 + 3 * ((i - (cp + 4)) div 4)) ((i - (cp + 4)) mod 4) (?d ! i)
         else ?d ! i)"
      using Suc by simp
    consider "i < cp" | "cp \<le> i" "i < cp + 4" | "cp + 4 \<le> i"
      by linarith
    then show ?case
    proof cases
      case 2
      from in_pixel [OF this] show ?thesis
        using ih Suc.prems by (elim disjE) (simp_all add: target_byte3_def)
    next
      case 3
      then have "?d ! i = dst ! i"
        by simp
      then show ?thesis
        using ih nth_step4 [OF 3] 3 by (simp add: add.assoc)
    qed (use ih in simp)
  qed auto
qed

interpretation rgba: row_converter convert_row4 target_byte4 4
proof
  show "length (convert_row4 n src gp cp dst) = length dst" for n src gp cp dst
    by (induction n arbitrary: gp cp dst) simp_all
  show "convert_row4 n src gp cp dst ! i =
      (if cp \<le> i \<and> i < cp + 4 * n
       then target_byte4 src (gp + 4 * ((i - cp) div 4)) ((i - cp) mod 4) (dst ! i) else dst ! i)"
    if "cp + 4 * n \<le> length dst" "i < length dst" for n src gp cp dst i
    using that
  proof (induction n arbitrary: gp cp dst)
    case (Suc n)
    let ?d = "dst[cp := premul_alpha (src ! (gp + 2)) (src ! (gp + 3)),
      cp + 1 := premul_alpha (src ! (gp + 1)) (src ! (gp + 3)),
      cp + 2 := premul_alpha (src ! gp) (src ! (gp + 3)), cp + 3 := src ! (gp + 3)]"
    have ih: "convert_row4 (Suc n) src gp cp dst ! i =
        (if cp + 4 \<le> i \<and> i < cp + 4 + 4 * n
         then target_byte4 src (gp + 4 + 4 * ((i - (cp + 4)) div 4)) ((i - (cp + 4)) mod 4) (?d ! i)
         else ?d ! i)"
      using Suc by simp
    consider "i < cp" | "cp \<le> i" "i < cp + 4" | "cp + 4 \<le> i"
      by linarith
    then show ?case
    proof cases
      case 2
      from in_pixel [OF this] show ?thesis
        using ih Suc.prems by (elim disjE) (simp_all add: target_byte4_def)
    next
      case 3
      then have "?d ! i = dst ! i"
        by simp
      then show ?thesis
        using ih nth_step4 [OF 3] 3 by (simp add: add.assoc)
    qed (use ih in simp)
  qed auto
qed

lemma render_background_fill:
  "render_background_image img BACKGROUND_MODE_FILL bw bh =
     Some (if of_int bw / of_int bh > (of_int (is_width img) / of_int (is_height img) :: real)
           then by_width img bw bh else by_height img bw bh)"
  by (simp add: render_background_image_def by_width_def by_height_def Let_def)

lemma render_background_fit:
  "render_background_image img BACKGROUND_MODE_FIT bw bh =
     Some (if of_int bw / of_int bh > (of_int (is_width img) / of_int (is_height img) :: real)
           then by_height img bw bh else by_width img bw bh)"
  by (simp add: render_background_image_def by_width_def by_height_def Let_def)

lemma box_by_width:
  assumes "0 < bw" "0 < is_width img"
  shows "image_box img (by_width img bw bh) =
    (let h = bw / of_int (is_width img) * of_int (is_height img) in Some (0, bh / 2 - h / 2, bw, h))"
  using assms by (simp add: by_width_def image_box_def Let_def field_simps)

lemma box_by_height:
  assumes "0 < bh" "0 < is_height img"
  shows "image_box img (by_height img bw bh) =
    (let w = bh / of_int (is_height img) * of_int (is_width img) in Some (bw / 2 - w / 2, 0, w, bh))"
  using assms by (simp add: by_height_def image_box_def Let_def field_simps)

lemma ratio_scale:
  fixes bw bh w h :: real
  assumes "0 < bw" "0 < bh" "0 < w" "0 < h"
  shows "bw / bh > w / h \<longleftrightarrow> bh < bw / w * h" "bw / bh > w / h \<longleftrightarrow> bh / h * w < bw"
  using assms by (simp_all add: field_simps)

section \<open>Properties\<close>

text \<open>
  C36: converting a decoded picture. For every pixel of the picture the three colour bytes of the
  target hold the channels in the order of the drawing library; with an alpha channel each colour is
  the nearest integer to colour times alpha over 255, for all of the 65536 combinations.\<close>

theorem pixbuf_conversion_correct:
  assumes "gdk_cairo_image_surface_create_from_pixbuf create p = Some cs"
    and "px_pixels p = Some src" "create (px_channels p \<noteq> 3) (px_width p) (px_height p) = Some cs0"
    and "4 * px_width p \<le> ci_stride cs0" "px_height p * ci_stride cs0 \<le> length (ci_data cs0)"
    and "x < px_width p" "y < px_height p"
  shows "let g = y * px_stride p + (if px_channels p = 3 then 3 else 4) * x;
             t = y * ci_stride cs0 + 4 * x
         in if px_channels p = 3 then
              ci_data cs ! t = src ! (g + 2) \<and> ci_data cs ! (t + 1) = src ! (g + 1) \<and>
              ci_data cs ! (t + 2) = src ! g
            else
              unat (ci_data cs ! t) = scaled_product (src ! (g + 2)) (src ! (g + 3)) \<and>
              unat (ci_data cs ! (t + 1)) = scaled_product (src ! (g + 1)) (src ! (g + 3)) \<and>
              unat (ci_data cs ! (t + 2)) = scaled_product (src ! g) (src ! (g + 3)) \<and>
              ci_data cs ! (t + 3) = src ! (g + 3)"
proof (cases "px_channels p = 3")
  case True
  have d: "ci_data cs = convert_rows (convert_row3 (px_width p)) (px_height p) (px_stride p)
      (ci_stride cs0) src 0 0 (ci_data cs0)"
    using assms(1-3) True
    by (auto simp: gdk_cairo_image_surface_create_from_pixbuf_def split: if_splits)
  note n = rgb.rows_nth [OF assms(4) _ assms(7,6), where cp = 0 and dst = "ci_data cs0" and
      stride = "px_stride p" and src = src and gp = 0]
  show ?thesis
    using n [of 0] n [of 1] n [of 2] assms(5) True by (simp add: d target_byte3_def Let_def)
next
  case False
  have d: "ci_data cs = convert_rows (convert_row4 (px_width p)) (px_height p) (px_stride p)
      (ci_stride cs0) src 0 0 (ci_data cs0)"
    using assms(1-3) False
    by (auto simp: gdk_cairo_image_surface_create_from_pixbuf_def split: if_splits)
  note n = rgba.rows_nth [OF assms(4) _ assms(7,6), where cp = 0 and dst = "ci_data cs0" and
      stride = "px_stride p" and src = src and gp = 0]
  show ?thesis
    using n [of 0] n [of 1] n [of 2] n [of 3] assms(5) False
    by (simp add: d target_byte4_def Let_def premul_alpha_round)
qed

theorem pixbuf_conversion_correct_witness:
  "\<exists>cs. gdk_cairo_image_surface_create_from_pixbuf
     (\<lambda>alpha w h. Some \<lparr>ci_has_alpha = alpha, ci_width = w, ci_height = h, ci_stride = 4,
        ci_data = replicate 4 0\<rparr>)
     \<lparr>px_channels = 4, px_pixels = Some [255, 100, 7, 128], px_width = 1, px_height = 1, px_stride = 4\<rparr> = Some cs
   \<and> unat (ci_data cs ! 1) = scaled_product 100 128 \<and> scaled_product 100 128 = 50"
proof -
  let ?create = "\<lambda>alpha w h. Some \<lparr>ci_has_alpha = alpha, ci_width = w, ci_height = h, ci_stride = 4,
        ci_data = replicate 4 (0 :: byte)\<rparr>"
  let ?p = "\<lparr>px_channels = 4, px_pixels = Some [255, 100, 7, 128], px_width = 1, px_height = 1,
    px_stride = 4\<rparr> :: pixbuf"
  obtain cs where cs: "gdk_cairo_image_surface_create_from_pixbuf ?create ?p = Some cs"
    by (simp add: gdk_cairo_image_surface_create_from_pixbuf_def)
  have "unat (ci_data cs ! 1) = scaled_product 100 128"
    using pixbuf_conversion_correct [OF cs, where x = 0 and y = 0 and src = "[255, 100, 7, 128]"]
    by (simp add: Let_def)
  then show ?thesis
    using cs by (simp add: scaled_product_def)
qed

text \<open>
  C37: the fill and fit modes. Both keep the proportions of the picture and centre it on the screen;
  fill covers the whole screen and fit shows the whole picture.\<close>

theorem background_fill_and_fit:
  assumes "0 < is_width img" "0 < is_height img" "0 < bw" "0 < bh"
    and "mode = BACKGROUND_MODE_FILL \<or> mode = BACKGROUND_MODE_FIT"
  shows "\<exists>ops x y w h. render_background_image img mode bw bh = Some ops \<and>
    image_box img ops = Some (x, y, w, h) \<and>
    w * of_int (is_height img) = h * of_int (is_width img) \<and>
    x + w / 2 = of_int bw / 2 \<and> y + h / 2 = of_int bh / 2 \<and>
    (if mode = BACKGROUND_MODE_FILL
     then x \<le> 0 \<and> y \<le> 0 \<and> of_int bw \<le> x + w \<and> of_int bh \<le> y + h
     else 0 \<le> x \<and> 0 \<le> y \<and> x + w \<le> of_int bw \<and> y + h \<le> of_int bh)"
proof -
  let ?bw = "real_of_int bw" and ?bh = "real_of_int bh"
  let ?w = "real_of_int (is_width img)" and ?h = "real_of_int (is_height img)"
  have pos: "0 < ?bw" "0 < ?bh" "0 < ?w" "0 < ?h"
    using assms by simp_all
  define W H wide where "W = ?bh / ?h * ?w" and "H = ?bw / ?w * ?h" and "wide \<longleftrightarrow> ?w / ?h < ?bw / ?bh"
  have ratio: "wide \<longleftrightarrow> ?bh < H" "wide \<longleftrightarrow> W < ?bw"
    unfolding W_def H_def wide_def using ratio_scale [OF pos] by blast+
  have w: "image_box img (by_width img bw bh) = Some (0, ?bh / 2 - H / 2, ?bw, H)"
    and h: "image_box img (by_height img bw bh) = Some (?bw / 2 - W / 2, 0, W, ?bh)"
    using box_by_width [OF pos(1) assms(1)] box_by_height [OF pos(2) assms(2)]
    by (simp_all add: Let_def W_def H_def)
  have asp: "?bw * ?h = H * ?w" "W * ?h = ?bh * ?w"
    using pos by (simp_all add: W_def H_def)
  from assms(5) show ?thesis
  proof (elim disjE)
    assume m: "mode = BACKGROUND_MODE_FILL"
    have r: "render_background_image img mode bw bh =
        Some (if wide then by_width img bw bh else by_height img bw bh)"
      by (simp add: m render_background_fill wide_def)
    show ?thesis
      using w h asp ratio m unfolding r by (cases wide) auto
  next
    assume m: "mode = BACKGROUND_MODE_FIT"
    have r: "render_background_image img mode bw bh =
        Some (if wide then by_height img bw bh else by_width img bw bh)"
      by (simp add: m render_background_fit wide_def)
    show ?thesis
      using w h asp ratio m unfolding r by (cases wide) auto
  qed
qed

theorem background_fill_and_fit_witness:
  "\<exists>ops x y w h. render_background_image \<lparr>is_id = 1, is_width = 40, is_height = 20, is_opaque = True\<rparr>
     BACKGROUND_MODE_FIT 100 100 = Some ops \<and>
   image_box \<lparr>is_id = 1, is_width = 40, is_height = 20, is_opaque = True\<rparr> ops = Some (x, y, w, h) \<and>
   0 \<le> y \<and> y + h \<le> 100"
  using background_fill_and_fit [of "\<lparr>is_id = 1, is_width = 40, is_height = 20, is_opaque = True\<rparr>"
      100 100 BACKGROUND_MODE_FIT] by auto

end
