(* ===== verification/Log.thy ===== *)
theory Log
  imports Prelude
begin

text \<open>
  \<^verbatim>\<open>src/log.c\<close>: log output and the ring buffer of the debug overlay. A message is the text after
  formatting; the time prefix and whether standard error is a terminal are arguments. The ring buffer
  keeps the first \<^verbatim>\<open>LOG_OVERLAY_LINE_LEN - 1\<close> characters of the last \<^verbatim>\<open>LOG_OVERLAY_LINES\<close> messages.
\<close>

section \<open>Data\<close>

definition LOG_SILENT :: nat where "LOG_SILENT = 0"
definition LOG_ERROR :: nat where "LOG_ERROR = 1"
definition LOG_INFO :: nat where "LOG_INFO = 2"
definition LOG_DEBUG :: nat where "LOG_DEBUG = 3"
definition LOG_IMPORTANCE_LAST :: nat where "LOG_IMPORTANCE_LAST = 4"
definition LOG_OVERLAY_LINES :: nat where "LOG_OVERLAY_LINES = 24"
definition LOG_OVERLAY_LINE_LEN :: nat where "LOG_OVERLAY_LINE_LEN = 220"

record log_state =
  log_importance :: nat
  overlay_ring :: "string list"
  overlay_head :: nat
  overlay_count :: nat
  log_stderr :: "string list"

definition log_start :: log_state where
  "log_start = \<lparr>log_importance = LOG_ERROR, overlay_ring = replicate LOG_OVERLAY_LINES [],
     overlay_head = 0, overlay_count = 0, log_stderr = []\<rparr>"

definition verbosity_colors :: "string list" where
  "verbosity_colors =
     [[], CHR 0x1B # ''[1;31m'', CHR 0x1B # ''[1;34m'', CHR 0x1B # ''[1;90m'']"

section \<open>Operations\<close>

definition swaylock_log_init :: "nat \<Rightarrow> log_state \<Rightarrow> log_state" where
  "swaylock_log_init verbosity s =
     (if verbosity < LOG_IMPORTANCE_LAST then s\<lparr>log_importance := verbosity\<rparr> else s)"

definition swaylock_log :: "string \<Rightarrow> bool \<Rightarrow> nat \<Rightarrow> string \<Rightarrow> log_state \<Rightarrow> log_state" where
  "swaylock_log time_prefix tty verbosity msg s =
     (if verbosity > log_importance s then s
      else
        (let c = (if verbosity < LOG_IMPORTANCE_LAST then verbosity else LOG_IMPORTANCE_LAST - 1);
             out = time_prefix @ (if tty then verbosity_colors ! c else []) @ msg @
               (if tty then CHR 0x1B # ''[0m'' else []) @ [CHR 0x0A]
         in s\<lparr>log_stderr := log_stderr s @ [out],
              overlay_ring :=
                (overlay_ring s)[overlay_head s := take (LOG_OVERLAY_LINE_LEN - 1) msg],
              overlay_head := (overlay_head s + 1) mod LOG_OVERLAY_LINES,
              overlay_count :=
                (if overlay_count s < LOG_OVERLAY_LINES then overlay_count s + 1 else overlay_count s)\<rparr>))"

definition swaylock_log_get_overlay :: "log_state \<Rightarrow> string list" where
  "swaylock_log_get_overlay s =
     (let start = (overlay_head s + LOG_OVERLAY_LINES - overlay_count s) mod LOG_OVERLAY_LINES
      in map (\<lambda>i. overlay_ring s ! ((start + i) mod LOG_OVERLAY_LINES)) [0..<overlay_count s])"

fun skip_dots :: "string \<Rightarrow> string" where
  "skip_dots [] = []"
| "skip_dots (c # cs) = (if c = CHR ''.'' \<or> c = CHR ''/'' then skip_dots cs else c # cs)"

definition swaylock_strip_path :: "string \<Rightarrow> string" where
  "swaylock_strip_path filepath =
     (case filepath of c # _ \<Rightarrow> if c = CHR ''.'' then skip_dots filepath else filepath | [] \<Rightarrow> [])"

section \<open>Specification\<close>

fun log_all :: "string \<Rightarrow> bool \<Rightarrow> (nat \<times> string) list \<Rightarrow> log_state \<Rightarrow> log_state" where
  "log_all t tty [] s = s"
| "log_all t tty ((v, m) # ms) s = log_all t tty ms (swaylock_log t tty v m s)"

text \<open>The messages that pass the importance threshold, cut to the length of a line.\<close>

definition admitted :: "nat \<Rightarrow> (nat \<times> string) list \<Rightarrow> string list" where
  "admitted level ms = map (take (LOG_OVERLAY_LINE_LEN - 1) \<circ> snd) (filter (\<lambda>m. fst m \<le> level) ms)"

definition last_lines :: "string list \<Rightarrow> string list" where
  "last_lines xs = drop (length xs - LOG_OVERLAY_LINES) xs"

text \<open>The ring holds the messages \<open>xs\<close>: message number \<open>k\<close> of the last ones is in slot \<open>k\<close> modulo the size.\<close>

definition ring_holds :: "log_state \<Rightarrow> string list \<Rightarrow> bool" where
  "ring_holds s xs \<longleftrightarrow>
     length (overlay_ring s) = LOG_OVERLAY_LINES \<and>
     overlay_head s = length xs mod LOG_OVERLAY_LINES \<and>
     overlay_count s = min (length xs) LOG_OVERLAY_LINES \<and>
     (\<forall>k < length xs. length xs \<le> k + LOG_OVERLAY_LINES \<longrightarrow>
        overlay_ring s ! (k mod LOG_OVERLAY_LINES) = xs ! k)"

section \<open>Lemmas\<close>

lemma ring_holds_start: "ring_holds (log_start\<lparr>log_importance := l\<rparr>) []"
  by (simp add: ring_holds_def log_start_def LOG_OVERLAY_LINES_def)

lemma mod_window_inj:
  fixes k n :: nat
  assumes "k < n" "n < k + m" "k mod m = n mod m"
  shows False
proof -
  have "m dvd n - k"
    using assms by (metis mod_eq_dvd_iff_nat less_imp_le)
  then show False
    using assms nat_dvd_not_less [of "n - k" m] by simp
qed

lemma ring_holds_log:
  assumes "ring_holds s xs" "v \<le> log_importance s"
  shows "ring_holds (swaylock_log t tty v m s) (xs @ [take (LOG_OVERLAY_LINE_LEN - 1) m])"
proof -
  let ?n = "length xs" and ?L = LOG_OVERLAY_LINES
  have L: "0 < ?L" by (simp add: LOG_OVERLAY_LINES_def)
  let ?ring = "(overlay_ring s)[?n mod ?L := take (LOG_OVERLAY_LINE_LEN - 1) m]"
  have "?ring ! (k mod ?L) = (xs @ [take (LOG_OVERLAY_LINE_LEN - 1) m]) ! k"
    if "k < Suc ?n" "Suc ?n \<le> k + ?L" for k
  proof (cases "k = ?n")
    case True
    then show ?thesis using assms(1) L by (simp add: ring_holds_def)
  next
    case False
    then have "k < ?n" "?n < k + ?L" using that by simp_all
    then have "k mod ?L \<noteq> ?n mod ?L" using mod_window_inj by blast
    then show ?thesis using assms(1) \<open>k < ?n\<close> \<open>?n < k + ?L\<close> by (simp add: ring_holds_def nth_append)
  qed
  then show ?thesis
    using assms by (auto simp: ring_holds_def swaylock_log_def Let_def mod_simps)
qed

lemma log_all_level: "log_importance (log_all t tty ms s) = log_importance s"
  by (induction t tty ms s rule: log_all.induct) (simp_all add: swaylock_log_def Let_def)

lemma log_all_ring:
  "ring_holds s xs \<Longrightarrow> ring_holds (log_all t tty ms s) (xs @ admitted (log_importance s) ms)"
proof (induction t tty ms s arbitrary: xs rule: log_all.induct)
  case (2 t tty v m ms s)
  have lvl: "log_importance (swaylock_log t tty v m s) = log_importance s"
    by (simp add: swaylock_log_def Let_def)
  show ?case
  proof (cases "v \<le> log_importance s")
    case True
    then show ?thesis
      using "2.IH" [OF ring_holds_log [OF "2.prems" True]] lvl by (simp add: admitted_def)
  next
    case False
    then have "swaylock_log t tty v m s = s" by (simp add: swaylock_log_def)
    then show ?thesis using "2.IH" [of xs] "2.prems" False by (simp add: admitted_def)
  qed
qed (simp add: admitted_def)

lemma overlay_of_ring:
  assumes "ring_holds s xs"
  shows "swaylock_log_get_overlay s = last_lines xs"
proof -
  let ?n = "length xs" and ?L = LOG_OVERLAY_LINES and ?c = "min (length xs) LOG_OVERLAY_LINES"
  have L: "0 < ?L" by (simp add: LOG_OVERLAY_LINES_def)
  have start: "(?n mod ?L + ?L - ?c) mod ?L = (?n - ?c) mod ?L"
  proof (cases "?n \<le> ?L")
    case True
    then show ?thesis by (cases "?n = ?L") auto
  next
    case False
    then show ?thesis by (simp add: le_mod_geq)
  qed
  show ?thesis
  proof (rule nth_equalityI)
    show "length (swaylock_log_get_overlay s) = length (last_lines xs)"
      using assms by (simp add: swaylock_log_get_overlay_def last_lines_def ring_holds_def Let_def)
    fix i assume "i < length (swaylock_log_get_overlay s)"
    then have i: "i < ?c"
      using assms by (simp add: swaylock_log_get_overlay_def ring_holds_def Let_def)
    have "swaylock_log_get_overlay s ! i = overlay_ring s ! ((?n - ?c + i) mod ?L)"
      using assms i start
      by (simp add: swaylock_log_get_overlay_def ring_holds_def Let_def mod_add_left_eq)
    also have "\<dots> = xs ! (?n - ?c + i)"
      using assms i unfolding ring_holds_def by auto
    also have "\<dots> = last_lines xs ! i"
      using i by (auto simp: last_lines_def min_def)
    finally show "swaylock_log_get_overlay s ! i = last_lines xs ! i" .
  qed
qed

section \<open>Properties\<close>

text \<open>
  After any sequence of log calls the overlay shows exactly the last 24 messages at or above
  the threshold, oldest first, each cut to 219 characters.\<close>

theorem log_overlay_correct:
  "swaylock_log_get_overlay (log_all t tty ms (log_start\<lparr>log_importance := level\<rparr>)) =
     last_lines (admitted level ms)"
  using overlay_of_ring [OF log_all_ring [OF ring_holds_start [of level]]] by simp

end
