(* ===== verification/State.thy ===== *)
theory State
  imports Comm Loop PoolBuffer Cairo
begin

text \<open>
  The state of the main process: \<^verbatim>\<open>src/include/swaylock.h\<close> and \<^verbatim>\<open>src/include/seat.h\<close>. The
  record extends \<^typ>\<open>proc_io\<close>, which holds the two pipes to the child. Beside the fields of the C
  structs it has the answers of the environment that are not determined by the program (clock,
  allocation of timers, random numbers, shared memory), the log \<open>st_wire\<close> of the requests sent to
  the compositor (the pointers to globals and to the lock object are flags), and \<open>st_exit\<close>, the argument of \<^verbatim>\<open>exit\<close> once it has been called.

  Libraries are parameters: \<open>libs\<close> collects what the main process asks of the font renderer, the
  QR encoder and the keyboard library, \<open>'j cjson\<close> the JSON library on its own type of values \<open>'j\<close>.
\<close>

section \<open>Enumerations and small structs\<close>

datatype auth_state = AUTH_STATE_IDLE | AUTH_STATE_VALIDATING | AUTH_STATE_INVALID

datatype input_state =
  INPUT_STATE_IDLE | INPUT_STATE_CLEAR | INPUT_STATE_LETTER | INPUT_STATE_BACKSPACE | INPUT_STATE_NEUTRAL

text \<open>The stage is set from a byte of a message without a range check: other values are possible.\<close>

datatype authd_stage =
  AUTHD_STAGE_NONE | AUTHD_STAGE_BROKER | AUTHD_STAGE_AUTH_MODE | AUTHD_STAGE_CHALLENGE
| AUTHD_STAGE_OTHER byte

definition stage_of_byte :: "byte \<Rightarrow> authd_stage" where
  "stage_of_byte b =
     (if b = 0 then AUTHD_STAGE_NONE else if b = 1 then AUTHD_STAGE_BROKER
      else if b = 2 then AUTHD_STAGE_AUTH_MODE else if b = 3 then AUTHD_STAGE_CHALLENGE
      else AUTHD_STAGE_OTHER b)"

record swaylock_colorset =
  cs_input :: u32
  cs_cleared :: u32
  cs_caps_lock :: u32
  cs_verifying :: u32
  cs_wrong :: u32

record swaylock_colors =
  col_background :: u32
  col_bs_highlight :: u32
  col_key_highlight :: u32
  col_caps_lock_bs_highlight :: u32
  col_caps_lock_key_highlight :: u32
  col_separator :: u32
  col_layout_background :: u32
  col_layout_border :: u32
  col_layout_text :: u32
  col_inside :: swaylock_colorset
  col_line :: swaylock_colorset
  col_ring :: swaylock_colorset
  col_text :: swaylock_colorset

record swaylock_args =
  arg_colors :: swaylock_colors
  arg_mode :: background_mode
  arg_font :: string
  arg_font_size :: u32
  arg_radius :: u32
  arg_thickness :: u32
  arg_indicator_x_position :: u32
  arg_indicator_y_position :: u32
  arg_override_indicator_x_position :: bool
  arg_override_indicator_y_position :: bool
  arg_ignore_empty :: bool
  arg_steal_unlock :: bool
  arg_show_indicator :: bool
  arg_show_caps_lock_text :: bool
  arg_show_caps_lock_indicator :: bool
  arg_show_keyboard_layout :: bool
  arg_hide_keyboard_layout :: bool
  arg_show_failed_attempts :: bool
  arg_daemonize :: bool
  arg_ready_fd :: int
  arg_indicator_idle_visible :: bool

record authd_broker =
  br_id :: "string option"
  br_name :: "string option"

record authd_auth_mode =
  am_id :: "string option"
  am_label :: "string option"

record authd_ui_layout =
  ul_type :: "string option"
  ul_label :: "string option"
  ul_button :: "string option"
  ul_entry :: "string option"
  ul_wait :: bool
  ul_qr_content :: "string option"
  ul_qr_code :: "string option"

definition empty_layout :: authd_ui_layout where
  "empty_layout = \<lparr>ul_type = None, ul_label = None, ul_button = None, ul_entry = None, ul_wait = False,
     ul_qr_content = None, ul_qr_code = None\<rparr>"

section \<open>Keyboard\<close>

text \<open>
  A keymap is known by the text it was compiled from. A keyboard state of the library is known by
  its keymap and the updates it has received, newest first; the library's queries are functions of that.
\<close>

type_synonym keymap = "byte list"

record xkb_state =
  xk_keymap :: keymap
  xk_updates :: "(u32 \<times> u32 \<times> u32 \<times> u32) list"

record swaylock_xkb =
  xkb_caps_lock :: bool
  xkb_control :: bool
  xkb_st :: "xkb_state option"
  xkb_keymap :: "keymap option"

record swaylock_seat =
  seat_pointer :: bool
  seat_keyboard :: bool
  seat_repeat_period_ms :: int
  seat_repeat_delay_ms :: int
  seat_repeat_sym :: u32
  seat_repeat_codepoint :: u32
  seat_repeat_timer :: "nat option"

section \<open>Surfaces and requests to the compositor\<close>

record swaylock_surface =
  sf_image :: "image_surface option"
  sf_output_global_name :: u32
  sf_surface :: bool
  sf_child :: bool
  sf_subsurface :: bool
  sf_lock_surface :: bool
  sf_indicator_buffers :: "pool_buffer list"
  sf_created :: bool
  sf_dirty :: bool
  sf_width :: u32
  sf_height :: u32
  sf_scale :: int
  sf_subpixel :: wl_output_subpixel
  sf_output_name :: "string option"
  sf_frame :: bool
  sf_last_buffer_width :: int
  sf_last_buffer_height :: int

record swaylock_image =
  im_path :: string
  im_output_name :: "string option"
  im_surface :: image_surface

text \<open>
  The requests the program sends, with the global name of the output they concern and, for a buffer,
  what has been drawn into it.
\<close>

datatype wl_request =
  AttachBackground u32 "cairo_op list"
| BufferScale u32 int
| IndicatorPosition u32 int int
| IndicatorScale u32 int
| AttachIndicator u32 u32 u32 "cairo_op list"
| CommitIndicator u32
| RequestFrame u32
| CommitSurface u32
| AckConfigure u32 u32
| BindGlobal u32 string u32
| CreateSurface u32
| CreateChild u32
| GetSubsurface u32
| GetLockSurface u32
| SetOpaqueRegion u32
| DestroyLockSurface u32
| DestroySubsurface u32
| DestroyChild u32
| DestroySurface u32
| ReleaseOutput u32
| SetCursor u32
| LockSession
| UnlockAndDestroy

section \<open>The main state\<close>

datatype timer_callback = Set_input_idle | Set_auth_idle | Clear_password | Keyboard_repeat nat

datatype fd_callback = Display_in | Comm_in | Term_in

record swaylock_state = proc_io +
  st_eventloop :: "(timer_callback, fd_callback) loop"
  st_input_idle_timer :: "nat option"
  st_auth_idle_timer :: "nat option"
  st_clear_password_timer :: "nat option"
  st_surfaces :: "swaylock_surface list"
  st_images :: "swaylock_image list"
  st_args :: swaylock_args
  st_password :: swaylock_password
  st_xkb :: swaylock_xkb
  st_auth_state :: auth_state
  st_input_state :: input_state
  st_highlight_start :: u32
  st_failed_attempts :: int
  st_run_display :: bool
  st_locked :: bool
  st_lock_failed :: bool
  st_compositor :: bool
  st_subcompositor :: bool
  st_wl_shm :: bool
  st_lock_manager :: bool
  st_lock :: bool
  st_authd_active :: bool
  st_authd_stage :: authd_stage
  st_authd_brokers :: "authd_broker list"
  st_authd_num_brokers :: int
  st_authd_sel_broker :: int
  st_authd_auth_modes :: "authd_auth_mode list"
  st_authd_num_auth_modes :: int
  st_authd_sel_auth_mode :: int
  st_authd_layout :: authd_ui_layout
  st_authd_error :: "string option"
  st_seats :: "swaylock_seat list"
  st_clock :: "timespec list"
  st_timer_alloc :: "bool list"
  st_rand :: "nat list"
  st_shm :: shm_env
  st_wire :: "wl_request list"
  st_exit :: "int option"

definition alive :: "swaylock_state \<Rightarrow> bool" where
  "alive s \<longleftrightarrow> st_exit s = None"

definition exit_with :: "int \<Rightarrow> swaylock_state \<Rightarrow> swaylock_state" where
  "exit_with code s = s\<lparr>st_exit := Some code\<rparr>"

text \<open>A failing assertion ends the process by \<^verbatim>\<open>SIGABRT\<close>.\<close>

definition abort :: "swaylock_state \<Rightarrow> swaylock_state" where
  "abort s = exit_with 134 s"

definition send_request :: "wl_request \<Rightarrow> swaylock_state \<Rightarrow> swaylock_state" where
  "send_request r s = s\<lparr>st_wire := st_wire s @ [r]\<rparr>"

section \<open>Libraries\<close>

record font_extents =
  fe_ascent :: real
  fe_descent :: real
  fe_height :: real

record text_extents =
  te_width :: real
  te_x_bearing :: real

text \<open>
  The queries of the keyboard library for layouts and modifiers answer 1, 0, or -1 for a name or
  index the keymap does not have.
\<close>

text \<open>A font as configured: subpixel order, face and size.\<close>

type_synonym font = "cairo_subpixel_order \<times> string \<times> real"

record libs =
  lib_font_extents :: "font \<Rightarrow> font_extents"
  lib_text_extents :: "font \<Rightarrow> string \<Rightarrow> text_extents"
  lib_qrencode :: "string \<Rightarrow> (nat \<times> byte list) option"
  lib_keymap_new :: "byte list \<Rightarrow> bool"
  lib_num_layouts :: "keymap \<Rightarrow> nat"
  lib_layout_name :: "keymap \<Rightarrow> nat \<Rightarrow> string option"
  lib_layout_active :: "xkb_state \<Rightarrow> nat \<Rightarrow> int"
  lib_mod_caps_locked :: "xkb_state \<Rightarrow> int"
  lib_mod_ctrl_active :: "xkb_state \<Rightarrow> int"
  lib_key_sym :: "xkb_state \<Rightarrow> u32 \<Rightarrow> u32"
  lib_key_utf32 :: "xkb_state \<Rightarrow> u32 \<Rightarrow> u32"

text \<open>
  The JSON library: parsing a C string (\<open>None\<close>: the null pointer), the queries on values, and
  lookup of a member. A null argument of a query is \<open>None\<close>.
\<close>

record 'j cjson =
  js_parse :: "byte list option \<Rightarrow> 'j option"
  js_is_array :: "'j \<Rightarrow> bool"
  js_array_size :: "'j \<Rightarrow> nat"
  js_array_item :: "'j \<Rightarrow> nat \<Rightarrow> 'j option"
  js_object_item :: "'j option \<Rightarrow> string \<Rightarrow> 'j option"
  js_string_value :: "'j \<Rightarrow> string option"

text \<open>\<^verbatim>\<open>cJSON_IsString(x) ? strdup(x->valuestring) : NULL\<close>, where \<open>x\<close> may be null.\<close>

definition cjson_string :: "('j, 'm) cjson_scheme \<Rightarrow> 'j option \<Rightarrow> string option" where
  "cjson_string J x = (case x of None \<Rightarrow> None | Some v \<Rightarrow> js_string_value J v)"

section \<open>Timers of the main process\<close>

text \<open>Every \<^verbatim>\<open>loop_add_timer\<close> reads the clock and allocates; both answers come from the state.\<close>

definition add_timer :: "int \<Rightarrow> timer_callback \<Rightarrow> swaylock_state \<Rightarrow> nat option \<times> swaylock_state" where
  "add_timer ms cb s =
     (let (now, clock') = next_result \<lparr>tv_sec = 0, tv_nsec = 0\<rparr> (st_clock s);
          (ok, alloc') = next_result True (st_timer_alloc s);
          (l, t) = loop_add_timer (st_eventloop s) ok now ms cb
      in (t, s\<lparr>st_eventloop := l, st_clock := clock', st_timer_alloc := alloc'\<rparr>))"

definition remove_timer :: "nat option \<Rightarrow> swaylock_state \<Rightarrow> swaylock_state" where
  "remove_timer t s =
     (case t of
        None \<Rightarrow> s
      | Some i \<Rightarrow> s\<lparr>st_eventloop := fst (loop_remove_timer (st_eventloop s) i)\<rparr>)"

section \<open>A sample state\<close>

text \<open>Used by the concrete examples: default options, one free-standing password buffer.\<close>

definition sample_colorset :: "u32 \<Rightarrow> swaylock_colorset" where
  "sample_colorset c = \<lparr>cs_input = c, cs_cleared = c + 1, cs_caps_lock = c + 2, cs_verifying = c + 3,
     cs_wrong = c + 4\<rparr>"

definition sample_args :: swaylock_args where
  "sample_args = \<lparr>
     arg_colors = \<lparr>col_background = 0xA3A3A3FF, col_bs_highlight = 1, col_key_highlight = 2,
       col_caps_lock_bs_highlight = 3, col_caps_lock_key_highlight = 4, col_separator = 5,
       col_layout_background = 6, col_layout_border = 7, col_layout_text = 8,
       col_inside = sample_colorset 10, col_line = sample_colorset 20, col_ring = sample_colorset 30,
       col_text = sample_colorset 40\<rparr>,
     arg_mode = BACKGROUND_MODE_FILL, arg_font = ''sans-serif'', arg_font_size = 0, arg_radius = 50,
     arg_thickness = 10, arg_indicator_x_position = 0, arg_indicator_y_position = 0,
     arg_override_indicator_x_position = False, arg_override_indicator_y_position = False,
     arg_ignore_empty = False, arg_steal_unlock = False, arg_show_indicator = True,
     arg_show_caps_lock_text = True, arg_show_caps_lock_indicator = False,
     arg_show_keyboard_layout = False, arg_hide_keyboard_layout = False,
     arg_show_failed_attempts = False, arg_daemonize = False, arg_ready_fd = -1,
     arg_indicator_idle_visible = False\<rparr>"

definition sample_surface :: swaylock_surface where
  "sample_surface = \<lparr>sf_image = None, sf_output_global_name = 7, sf_surface = True, sf_child = True,
     sf_subsurface = True, sf_lock_surface = True,
     sf_indicator_buffers = [empty_buffer, empty_buffer], sf_created = True, sf_dirty = False,
     sf_width = 100, sf_height = 80, sf_scale = 1, sf_subpixel = SUBPIXEL_OTHER,
     sf_output_name = Some ''DP-1'', sf_frame = False, sf_last_buffer_width = 0,
     sf_last_buffer_height = 0\<rparr>"

definition sample_state :: swaylock_state where
  "sample_state = \<lparr>
     io_in = io_in sample_io, io_out = io_out sample_io, io_rd = io_rd sample_io,
     io_wr = io_wr sample_io, io_mem = io_mem sample_io, io_mlock = io_mlock sample_io,
     io_mlock_supported = io_mlock_supported sample_io,
     st_eventloop = loop_create, st_input_idle_timer = None, st_auth_idle_timer = None,
     st_clear_password_timer = None, st_surfaces = [], st_images = [], st_args = sample_args,
     st_password = sample_pw,
     st_xkb = \<lparr>xkb_caps_lock = False, xkb_control = False, xkb_st = None, xkb_keymap = None\<rparr>,
     st_auth_state = AUTH_STATE_IDLE, st_input_state = INPUT_STATE_IDLE, st_highlight_start = 0,
     st_failed_attempts = 0, st_run_display = True, st_locked = True, st_lock_failed = False,
     st_compositor = True, st_subcompositor = True, st_wl_shm = True, st_lock_manager = True, st_lock = True,
     st_authd_active = False, st_authd_stage = AUTHD_STAGE_NONE, st_authd_brokers = [],
     st_authd_num_brokers = 0, st_authd_sel_broker = -1, st_authd_auth_modes = [],
     st_authd_num_auth_modes = 0, st_authd_sel_auth_mode = -1, st_authd_layout = empty_layout,
     st_authd_error = None, st_seats = [], st_clock = [], st_timer_alloc = [], st_rand = [],
     st_shm = \<lparr>se_open = [], se_truncate = []\<rparr>, st_wire = [], st_exit = None\<rparr>"

end
