(* ===== verification/Render.thy ===== *)
theory Render
  imports State
begin

text \<open>
  \<^verbatim>\<open>src/render.c\<close> and the surface handlers of \<^verbatim>\<open>src/main.c\<close> that drive it: when a frame is drawn,
  what is drawn into the background and the indicator, and at which size and position. The build
  without the debug overlay and with the QR encoder is modelled. Surfaces are known by their position
  in \<^const>\<open>st_surfaces\<close>. The integer arithmetic of sizes is exact; conversions between
  unsigned and signed 32-bit values are written out.
\<close>

section \<open>Small helpers\<close>

definition M_PI :: real where "M_PI = 3.14159265358979323846"
definition TYPE_INDICATOR_RANGE :: real where "TYPE_INDICATOR_RANGE = M_PI / 3"
definition error_text_color :: u32 where "error_text_color = 0xFF4444FF"

fun dec_string :: "nat \<Rightarrow> string" where
  "dec_string n =
     (if n < 10 then [char_of (48 + n)] else dec_string (n div 10) @ [char_of (48 + n mod 10)])"

declare dec_string.simps [simp del]

definition u32_int :: "u32 \<Rightarrow> int" where "u32_int w = sint w"

definition update_surface ::
    "nat \<Rightarrow> (swaylock_surface \<Rightarrow> swaylock_surface) \<Rightarrow> swaylock_state \<Rightarrow> swaylock_state" where
  "update_surface i f s = s\<lparr>st_surfaces := (st_surfaces s)[i := f (st_surfaces s ! i)]\<rparr>"

definition nonempty :: "string option \<Rightarrow> bool" where
  "nonempty x \<longleftrightarrow> (case x of None \<Rightarrow> False | Some t \<Rightarrow> t \<noteq> [])"

definition str :: "string option \<Rightarrow> string" where
  "str x = (case x of None \<Rightarrow> [] | Some t \<Rightarrow> t)"

section \<open>Colours and text\<close>

datatype colorset_ref = Inside_colors | Line_colors | Ring_colors | Text_colors

definition colorset :: "swaylock_colors \<Rightarrow> colorset_ref \<Rightarrow> swaylock_colorset" where
  "colorset c r =
     (case r of Inside_colors \<Rightarrow> col_inside c | Line_colors \<Rightarrow> col_line c
      | Ring_colors \<Rightarrow> col_ring c | Text_colors \<Rightarrow> col_text c)"

text \<open>
  The third branch swaps the text colour for the duration of the call: it shows only when the colour
  set passed in is the text colour set itself.
\<close>

definition set_color_for_state :: "swaylock_state \<Rightarrow> colorset_ref \<Rightarrow> cairo_op" where
  "set_color_for_state s r =
     (let args = st_args s; colors = arg_colors args; caps_lock = xkb_caps_lock (st_xkb s) in
      if st_input_state s = INPUT_STATE_CLEAR then cairo_set_source_u32 (cs_cleared (colorset colors r))
      else if st_auth_state s = AUTH_STATE_VALIDATING
      then cairo_set_source_u32 (cs_verifying (colorset colors r))
      else if st_auth_state s = AUTH_STATE_INVALID
      then cairo_set_source_u32 (cs_wrong (colorset colors r))
      else if caps_lock \<and> arg_show_caps_lock_indicator args
      then cairo_set_source_u32 (cs_caps_lock (colorset colors r))
      else if caps_lock \<and> \<not> arg_show_caps_lock_indicator args \<and> arg_show_caps_lock_text args
      then
        (let swapped = colors\<lparr>col_text := (col_text colors)\<lparr>cs_input := cs_caps_lock (col_text colors)\<rparr>\<rparr>
         in cairo_set_source_u32 (cs_input (colorset swapped r)))
      else cairo_set_source_u32 (cs_input (colorset colors r)))"

definition frame_font :: "swaylock_state \<Rightarrow> swaylock_surface \<Rightarrow> int \<Rightarrow> font" where
  "frame_font s sf arc_radius =
     (to_cairo_subpixel_order (sf_subpixel sf), arg_font (st_args s),
      if arg_font_size (st_args s) > 0 then real (unat (arg_font_size (st_args s)))
      else of_int arc_radius / 3)"

definition configure_font_drawing :: "font \<Rightarrow> cairo_op list" where
  "configure_font_drawing f =
     (case f of (order, face, sz) \<Rightarrow> [SetFontOptions order, SelectFontFace face, SetFontSize sz])"

definition draw_indicator :: "swaylock_state \<Rightarrow> bool" where
  "draw_indicator s \<longleftrightarrow> arg_show_indicator (st_args s) \<and>
     (st_auth_state s \<noteq> AUTH_STATE_IDLE \<or> st_input_state s \<noteq> INPUT_STATE_IDLE \<or>
      arg_indicator_idle_visible (st_args s))"

definition attempts_text :: "int \<Rightarrow> string" where
  "attempts_text n = (if n > 999 then ''999+'' else dec_string (nat n))"

definition indicator_text :: "swaylock_state \<Rightarrow> string option" where
  "indicator_text s =
     (if \<not> draw_indicator s then None
      else if st_input_state s = INPUT_STATE_CLEAR then Some ''Cleared''
      else if st_auth_state s = AUTH_STATE_VALIDATING then Some ''Verifying''
      else if st_auth_state s = AUTH_STATE_INVALID then Some ''Wrong''
      else if xkb_caps_lock (st_xkb s) \<and> arg_show_caps_lock_text (st_args s) then Some ''Caps Lock''
      else if arg_show_failed_attempts (st_args s) \<and> st_failed_attempts s > 0
      then Some (attempts_text (st_failed_attempts s))
      else None)"

function first_active_layout :: "(nat \<Rightarrow> bool) \<Rightarrow> nat \<Rightarrow> nat \<Rightarrow> nat" where
  "first_active_layout active num cur =
     (if cur < num \<and> \<not> active cur then first_active_layout active num (Suc cur) else cur)"
  by pat_completeness auto
termination by (relation "measure (\<lambda>(active, num, cur). num - cur)") auto

declare first_active_layout.simps [simp del]

definition keyboard_layout_text :: "libs \<Rightarrow> swaylock_state \<Rightarrow> string option" where
  "keyboard_layout_text E s =
     (if \<not> draw_indicator s \<or> st_input_state s = INPUT_STATE_CLEAR \<or> st_auth_state s \<noteq> AUTH_STATE_IDLE
      then None
      else case xkb_keymap (st_xkb s) of
        None \<Rightarrow> None
      | Some keymap \<Rightarrow>
          (let num_layout = lib_num_layouts E keymap in
           if \<not> arg_hide_keyboard_layout (st_args s) \<and>
              (arg_show_keyboard_layout (st_args s) \<or> num_layout > 1)
           then lib_layout_name E keymap
                  (first_active_layout
                     (\<lambda>i. case xkb_st (st_xkb s) of None \<Rightarrow> False | Some xs \<Rightarrow> lib_layout_active E xs i = 1)
                     num_layout 0)
           else None))"

section \<open>Selection list\<close>

text \<open>The first visible row and the number of visible rows.\<close>

definition visible_window :: "int \<Rightarrow> int \<Rightarrow> int \<times> int" where
  "visible_window count sel =
     (let max_vis = 8;
          vis_count = (if count < max_vis then count else max_vis);
          start =
            (if count > max_vis \<and> sel \<ge> 0 then
               (let start = sel - max_vis div 2 in
                if start < 0 then 0 else if start + max_vis > count then count - max_vis else start)
             else 0)
      in (start, vis_count))"

definition is_broker_stage :: "swaylock_state \<Rightarrow> bool" where
  "is_broker_stage s \<longleftrightarrow> st_authd_stage s = AUTHD_STAGE_BROKER"

definition in_selection :: "swaylock_state \<Rightarrow> bool" where
  "in_selection s \<longleftrightarrow> st_authd_active s \<and>
     (st_authd_stage s = AUTHD_STAGE_BROKER \<or> st_authd_stage s = AUTHD_STAGE_AUTH_MODE)"

definition list_count :: "swaylock_state \<Rightarrow> int" where
  "list_count s = (if is_broker_stage s then st_authd_num_brokers s else st_authd_num_auth_modes s)"

definition list_sel :: "swaylock_state \<Rightarrow> int" where
  "list_sel s = (if is_broker_stage s then st_authd_sel_broker s else st_authd_sel_auth_mode s)"

definition list_name :: "swaylock_state \<Rightarrow> int \<Rightarrow> string" where
  "list_name s i =
     str (if is_broker_stage s then br_name (st_authd_brokers s ! nat i)
          else am_label (st_authd_auth_modes s ! nat i))"

definition visible_rows :: "swaylock_state \<Rightarrow> int list" where
  "visible_rows s =
     (case visible_window (list_count s) (list_sel s) of
        (start, vis_count) \<Rightarrow> map (\<lambda>vi. start + int vi) [0..<nat vis_count])"

definition max_text_width :: "libs \<Rightarrow> font \<Rightarrow> string list \<Rightarrow> real" where
  "max_text_width E f names =
     fold (\<lambda>name m. if te_width (lib_text_extents E f name) > m
                    then te_width (lib_text_extents E f name) else m) names 0"

definition round_to_scale :: "int \<Rightarrow> int \<Rightarrow> int" where
  "round_to_scale scale n = n + (scale - n smod scale)"

definition draw_row ::
    "libs \<Rightarrow> font \<Rightarrow> swaylock_state \<Rightarrow> int \<Rightarrow> int \<Rightarrow> nat \<times> int \<Rightarrow> cairo_op list" where
  "draw_row E f s scale buffer_width row =
     (case row of (vi, i) \<Rightarrow>
        (let colors = arg_colors (st_args s);
             fe = lib_font_extents E f;
             box_padding = 4 * of_int scale;
             item_height = fe_height fe * 1.5;
             name = list_name s i;
             ext = lib_text_extents E f name;
             iy = box_padding + real vi * item_height;
             tx = (of_int buffer_width - te_width ext) / 2 - te_x_bearing ext;
             ty = iy + (item_height + fe_height fe) / 2 - fe_descent fe
         in [Rectangle 0 iy (of_int buffer_width) item_height,
             cairo_set_source_u32
               (if i = list_sel s then col_layout_background colors else col_background colors),
             Fill, MoveTo tx ty,
             cairo_set_source_u32
               (if i = list_sel s then col_layout_text colors else cs_input (col_text colors)),
             ShowText name]))"

definition clear_ops :: "cairo_op list" where
  "clear_ops = [Save, SetSourceRgba 0 0 0 0, SetOperator OPERATOR_SOURCE, Paint, Restore]"

definition centred :: "bool \<Rightarrow> u32 \<Rightarrow> u32 \<Rightarrow> int \<Rightarrow> int \<Rightarrow> int" where
  "centred override pos extent buffer_size scale =
     c_int (uint (if override then pos else extent div 2) - buffer_size sdiv (2 * scale))"

definition commit_indicator ::
    "nat \<Rightarrow> int \<times> int \<Rightarrow> int \<times> int \<Rightarrow> cairo_op list \<Rightarrow> swaylock_state \<Rightarrow> swaylock_state" where
  "commit_indicator i pos dims ops s =
     (let sf = st_surfaces s ! i; name = sf_output_global_name sf in
      s\<lparr>st_wire := st_wire s @
          [IndicatorPosition name (fst pos) (snd pos), IndicatorScale name (sf_scale sf),
           AttachIndicator name (word_of_int (fst dims)) (word_of_int (snd dims)) ops,
           CommitIndicator name]\<rparr>)"

text \<open>\<^verbatim>\<open>get_next_buffer\<close> on the indicator buffers of surface \<open>i\<close>.\<close>

definition indicator_buffer :: "nat \<Rightarrow> int \<times> int \<Rightarrow> swaylock_state \<Rightarrow> bool \<times> swaylock_state" where
  "indicator_buffer i dims s =
     (case get_next_buffer (st_shm s) (sf_indicator_buffers (st_surfaces s ! i))
             (word_of_int (fst dims)) (word_of_int (snd dims)) of
        (r, pool, env) \<Rightarrow>
          (r \<noteq> None, (update_surface i (\<lambda>sf. sf\<lparr>sf_indicator_buffers := pool\<rparr>) s)\<lparr>st_shm := env\<rparr>))"

definition selection_size :: "libs \<Rightarrow> font \<Rightarrow> swaylock_state \<Rightarrow> int \<Rightarrow> int \<times> int" where
  "selection_size E f s scale =
     (let box_padding = 4 * real_of_int scale;
          item_height = fe_height (lib_font_extents E f) * 1.5;
          rows = visible_rows s;
          w = trunc (max_text_width E f (map (list_name s) rows) + 4 * box_padding);
          h = trunc (real (length rows) * item_height + 2 * box_padding)
      in (round_to_scale scale w, round_to_scale scale h))"

definition selection_ops :: "libs \<Rightarrow> font \<Rightarrow> swaylock_state \<Rightarrow> int \<Rightarrow> int \<Rightarrow> cairo_op list" where
  "selection_ops E f s scale buffer_width =
     [SetAntialiasBest, IdentityMatrix] @ clear_ops @ configure_font_drawing f @
     concat (map (draw_row E f s scale buffer_width) (enumerate 0 (visible_rows s)))"

definition render_selection :: "libs \<Rightarrow> nat \<Rightarrow> swaylock_state \<Rightarrow> bool \<times> swaylock_state" where
  "render_selection E i s =
     (let sf = st_surfaces s ! i; args = st_args s; scale = sf_scale sf;
          arc_radius = u32_int (arg_radius args * word_of_int scale);
          f = frame_font s sf arc_radius;
          dims = selection_size E f s scale;
          pos = (centred (arg_override_indicator_x_position args) (arg_indicator_x_position args)
                   (sf_width sf) (fst dims) scale,
                 centred (arg_override_indicator_y_position args) (arg_indicator_y_position args)
                   (sf_height sf) (snd dims) scale)
      in case indicator_buffer i dims s of
           (False, s') \<Rightarrow> (False, s')
         | (True, s') \<Rightarrow> (True, commit_indicator i pos dims (selection_ops E f s scale (fst dims)) s'))"

section \<open>Size of the indicator\<close>

definition is_qrcode :: "swaylock_state \<Rightarrow> bool" where
  "is_qrcode s \<longleftrightarrow> st_authd_active s \<and> st_authd_stage s = AUTHD_STAGE_CHALLENGE \<and>
     ul_type (st_authd_layout s) = Some ''qrcode''"

definition frame_qrcode :: "libs \<Rightarrow> swaylock_state \<Rightarrow> (nat \<times> byte list) option" where
  "frame_qrcode E s =
     (if is_qrcode s then
        (case ul_qr_content (st_authd_layout s) of None \<Rightarrow> None | Some c \<Rightarrow> lib_qrencode E c)
      else None)"

definition widen :: "int \<Rightarrow> int \<Rightarrow> int" where
  "widen w n = (if w < n then n else w)"

definition qr_size :: "libs \<Rightarrow> font \<Rightarrow> swaylock_state \<Rightarrow> int \<Rightarrow> int \<Rightarrow> int \<times> int" where
  "qr_size E f s scale diameter =
     (let box_padding = 4 * real_of_int scale;
          (w, h, have_qr_image) =
            (case frame_qrcode E s of
               None \<Rightarrow> (diameter, diameter, False)
             | Some (qw, _) \<Rightarrow> (int qw * 4 * scale, int qw * 4 * scale, True))
      in if nonempty (ul_qr_code (st_authd_layout s)) then
           (let ext = lib_text_extents E f (str (ul_qr_code (st_authd_layout s))) in
            (if have_qr_image then w else widen w (trunc (te_width ext + 2 * box_padding)),
             h + trunc (fe_height (lib_font_extents E f) + 2 * box_padding)))
         else (w, h))"

definition text_size ::
    "libs \<Rightarrow> font \<Rightarrow> string option \<Rightarrow> string option \<Rightarrow> int \<Rightarrow> int \<Rightarrow> int \<times> int" where
  "text_size E f txt layout_text scale diameter =
     (let w = (case txt of
                 None \<Rightarrow> diameter
               | Some t \<Rightarrow>
                   if of_int diameter < te_width (lib_text_extents E f t)
                   then trunc (te_width (lib_text_extents E f t)) else diameter)
      in case layout_text of
           None \<Rightarrow> (w, diameter)
         | Some t \<Rightarrow>
             (let box_padding = 4 * real_of_int scale;
                  need = te_width (lib_text_extents E f t) + 2 * box_padding
              in (if of_int w < need then trunc need else w,
                  trunc (of_int diameter + (fe_height (lib_font_extents E f) + 2 * box_padding)))))"

record extra_space =
  ex_label :: real
  ex_button :: real
  ex_error :: real

definition extra_heights :: "libs \<Rightarrow> font \<Rightarrow> swaylock_state \<Rightarrow> int \<Rightarrow> extra_space" where
  "extra_heights E f s scale =
     (let box_padding = 4 * real_of_int scale; fe = lib_font_extents E f; l = st_authd_layout s in
      if st_authd_active s \<and> st_authd_stage s = AUTHD_STAGE_CHALLENGE then
        \<lparr>ex_label = (if \<not> is_qrcode s \<and> nonempty (ul_label l) then fe_height fe + 2 * box_padding else 0),
         ex_button = (if \<not> is_qrcode s \<and> nonempty (ul_button l) then fe_height fe + 2 * box_padding else 0),
         ex_error = (if nonempty (st_authd_error s) then fe_height fe + box_padding else 0)\<rparr>
      else \<lparr>ex_label = 0, ex_button = 0, ex_error = 0\<rparr>)"

definition extra_size :: "libs \<Rightarrow> font \<Rightarrow> swaylock_state \<Rightarrow> int \<Rightarrow> int \<times> int \<Rightarrow> int \<times> int" where
  "extra_size E f s scale dims =
     (let box_padding = 4 * real_of_int scale; l = st_authd_layout s;
          ex = extra_heights E f s scale;
          tw = (\<lambda>t. te_width (lib_text_extents E f (str t)));
          challenge = st_authd_active s \<and> st_authd_stage s = AUTHD_STAGE_CHALLENGE;
          (w, h) = dims;
          (w, h) = (if challenge \<and> \<not> is_qrcode s \<and> nonempty (ul_label l)
                    then (widen w (trunc (tw (ul_label l) + 2 * box_padding)), h + trunc (ex_label ex))
                    else (w, h));
          (w, h) = (if challenge \<and> \<not> is_qrcode s \<and> nonempty (ul_button l)
                    then (widen w (trunc (tw (ul_button l) + 2 * box_padding)), h + trunc (ex_button ex))
                    else (w, h));
          (w, h) = (if challenge \<and> nonempty (st_authd_error s)
                    then (widen w (trunc (tw (st_authd_error s))), h + trunc (ex_error ex))
                    else (w, h))
      in (w, h))"

definition frame_size ::
    "libs \<Rightarrow> font \<Rightarrow> swaylock_state \<Rightarrow> int \<Rightarrow> int \<Rightarrow> int \<times> int" where
  "frame_size E f s scale diameter =
     (let base = (if is_qrcode s then qr_size E f s scale diameter
                  else text_size E f (indicator_text s) (keyboard_layout_text E s) scale diameter);
          dims = extra_size E f s scale base
      in (round_to_scale scale (fst dims), round_to_scale scale (snd dims)))"

definition frame_position ::
    "libs \<Rightarrow> font \<Rightarrow> swaylock_state \<Rightarrow> swaylock_surface \<Rightarrow> int \<times> int \<Rightarrow> int \<times> int" where
  "frame_position E f s sf dims =
     (let args = st_args s; scale = sf_scale sf in
      if is_qrcode s then
        (centred (arg_override_indicator_x_position args) (arg_indicator_x_position args)
           (sf_width sf) (fst dims) scale,
         centred (arg_override_indicator_y_position args) (arg_indicator_y_position args)
           (sf_height sf) (snd dims) scale)
      else
        (c_int (uint (if arg_override_indicator_x_position args then arg_indicator_x_position args
                      else sf_width sf div 2) - fst dims sdiv (2 * scale) + 2 sdiv scale),
         c_int (uint (if arg_override_indicator_y_position args then arg_indicator_y_position args
                      else sf_height sf div 2) - uint (arg_radius args + arg_thickness args)) -
         trunc (ex_label (extra_heights E f s scale) / of_int scale)))"

section \<open>Drawing\<close>

definition centred_text_x :: "int \<Rightarrow> text_extents \<Rightarrow> real" where
  "centred_text_x buffer_width ext = (of_int buffer_width - te_width ext) / 2 - te_x_bearing ext"

definition qr_modules :: "nat \<Rightarrow> byte list \<Rightarrow> int \<Rightarrow> int \<Rightarrow> cairo_op list" where
  "qr_modules width modules qr_x mod_size =
     concat (map (\<lambda>row. concat (map (\<lambda>col.
         if modules ! (row * width + col) AND 1 = 0 then []
         else [Rectangle (of_int (qr_x + int col * mod_size)) (of_int (int row * mod_size))
                 (of_int mod_size) (of_int mod_size)]) [0..<width])) [0..<width])"

definition draw_qr_image :: "(nat \<times> byte list) option \<Rightarrow> int \<Rightarrow> int \<Rightarrow> cairo_op list" where
  "draw_qr_image qrcode scale buffer_width =
     (case qrcode of
        None \<Rightarrow> []
      | Some (width, modules) \<Rightarrow>
          (let mod_size = 4 * scale; qr_px = int width * mod_size;
               qr_x = (buffer_width - qr_px) sdiv 2
           in [Rectangle (of_int qr_x) 0 (of_int qr_px) (of_int qr_px), SetSourceRgb 1 1 1, Fill,
               SetSourceRgb 0 0 0] @ qr_modules width modules qr_x mod_size @ [Fill]))"

definition draw_qr :: "libs \<Rightarrow> font \<Rightarrow> swaylock_state \<Rightarrow> int \<Rightarrow> int \<times> int \<Rightarrow> cairo_op list" where
  "draw_qr E f s scale dims =
     (let fe = lib_font_extents E f; box_padding = 4 * real_of_int scale;
          buffer_width = fst dims; buffer_height = snd dims;
          error_h = ex_error (extra_heights E f s scale);
          qrcode = frame_qrcode E s; l = st_authd_layout s;
          qr_y0 = (case qrcode of None \<Rightarrow> 0 | Some (width, _) \<Rightarrow> real_of_int (int width * (4 * scale)));
          code = str (ul_qr_code l);
          (ty, qr_y) =
            (if qrcode \<noteq> None
             then (qr_y0 + (fe_height fe - fe_descent fe) + box_padding,
                   qr_y0 + fe_height fe + 2 * box_padding)
             else ((of_int buffer_height - error_h) / 2 + (fe_height fe / 2 - fe_descent fe),
                   of_int buffer_height - error_h));
          err = str (st_authd_error s)
      in configure_font_drawing f @ draw_qr_image qrcode scale buffer_width @
         (if nonempty (ul_qr_code l)
          then [MoveTo (centred_text_x buffer_width (lib_text_extents E f code)) ty,
                cairo_set_source_u32 (col_layout_text (arg_colors (st_args s))), ShowText code]
          else []) @
         (if error_h > 0
          then [MoveTo (centred_text_x buffer_width (lib_text_extents E f err))
                  ((if nonempty (ul_qr_code l) then qr_y else qr_y0) +
                   (fe_height fe - fe_descent fe) + box_padding / 2),
                cairo_set_source_u32 error_text_color, ShowText err]
          else []))"

text \<open>A box with a background, a border and a text, as for the label and the keyboard layout.\<close>

definition text_box ::
    "libs \<Rightarrow> font \<Rightarrow> swaylock_state \<Rightarrow> int \<Rightarrow> real \<Rightarrow> real \<Rightarrow> string \<Rightarrow> cairo_op list" where
  "text_box E f s scale x y t =
     (let fe = lib_font_extents E f; ext = lib_text_extents E f t; box_padding = 4 * real_of_int scale;
          colors = arg_colors (st_args s)
      in [Rectangle x y (te_width ext + 2 * box_padding) (fe_height fe + 2 * box_padding),
          cairo_set_source_u32 (col_layout_background colors), FillPreserve,
          cairo_set_source_u32 (col_layout_border colors), Stroke,
          MoveTo (x - te_x_bearing ext + box_padding) (y + (fe_height fe - fe_descent fe) + box_padding),
          cairo_set_source_u32 (col_layout_text colors), ShowText t, NewSubPath])"

definition draw_label :: "libs \<Rightarrow> font \<Rightarrow> swaylock_state \<Rightarrow> int \<Rightarrow> int \<Rightarrow> cairo_op list" where
  "draw_label E f s scale buffer_width =
     (if ex_label (extra_heights E f s scale) > 0 then
        (let t = str (ul_label (st_authd_layout s)) in
         text_box E f s scale
           (of_int buffer_width / 2 - te_width (lib_text_extents E f t) / 2 - 4 * of_int scale) 0 t)
      else [])"

definition draw_ring :: "swaylock_state \<Rightarrow> int \<Rightarrow> int \<Rightarrow> int \<Rightarrow> int \<Rightarrow> cairo_op list" where
  "draw_ring s cx ring_cy arc_radius arc_thickness =
     [SetLineWidth 0,
      Arc (of_int cx) (of_int ring_cy) (of_int (arc_radius - arc_thickness sdiv 2)) 0 (2 * M_PI),
      set_color_for_state s Inside_colors, FillPreserve, Stroke,
      SetLineWidth (of_int arc_thickness),
      Arc (of_int cx) (of_int ring_cy) (of_int arc_radius) 0 (2 * M_PI),
      set_color_for_state s Ring_colors, Stroke]"

definition draw_message :: "libs \<Rightarrow> font \<Rightarrow> swaylock_state \<Rightarrow> int \<Rightarrow> int \<Rightarrow> cairo_op list" where
  "draw_message E f s cx ring_cy =
     configure_font_drawing f @ [set_color_for_state s Text_colors] @
     (case indicator_text s of
        None \<Rightarrow> []
      | Some t \<Rightarrow>
          (let ext = lib_text_extents E f t; fe = lib_font_extents E f in
           [MoveTo (of_int cx - (te_width ext / 2 + te_x_bearing ext))
              (of_int ring_cy + (fe_height fe / 2 - fe_descent fe)),
            ShowText t, ClosePath, NewSubPath]))"

definition highlight_color :: "swaylock_state \<Rightarrow> u32" where
  "highlight_color s =
     (let colors = arg_colors (st_args s);
          caps = xkb_caps_lock (st_xkb s) \<and> arg_show_caps_lock_indicator (st_args s)
      in if st_input_state s = INPUT_STATE_LETTER
         then (if caps then col_caps_lock_key_highlight colors else col_key_highlight colors)
         else (if caps then col_caps_lock_bs_highlight colors else col_bs_highlight colors))"

definition draw_typing ::
    "swaylock_state \<Rightarrow> int \<Rightarrow> int \<Rightarrow> int \<Rightarrow> int \<Rightarrow> int \<Rightarrow> int \<Rightarrow> cairo_op list" where
  "draw_typing s scale buffer_width ring_cy arc_radius arc_thickness diameter =
     (if st_input_state s = INPUT_STATE_LETTER \<or> st_input_state s = INPUT_STATE_BACKSPACE then
        (let highlight_start = real (unat (st_highlight_start s)) * (M_PI / 1024);
             hs_end = highlight_start + TYPE_INDICATOR_RANGE;
             inner_radius = of_int diameter / 2 - of_int arc_thickness * 1.5;
             outer_radius = of_int diameter / 2 - of_int arc_thickness / 2;
             pt = (\<lambda>angle r. (of_int buffer_width / 2 + cos angle * r, of_int ring_cy + sin angle * r))
         in [Arc (of_int (buffer_width sdiv 2)) (of_int ring_cy) (of_int arc_radius) highlight_start hs_end,
             cairo_set_source_u32 (highlight_color s), Stroke,
             SetLineWidth (2 * of_int scale),
             cairo_set_source_u32 (col_separator (arg_colors (st_args s))),
             MoveTo (fst (pt highlight_start inner_radius)) (snd (pt highlight_start inner_radius)),
             LineTo (fst (pt highlight_start outer_radius)) (snd (pt highlight_start outer_radius)), Stroke,
             MoveTo (fst (pt hs_end inner_radius)) (snd (pt hs_end inner_radius)),
             LineTo (fst (pt hs_end outer_radius)) (snd (pt hs_end outer_radius)), Stroke])
      else [])"

definition draw_borders :: "swaylock_state \<Rightarrow> int \<Rightarrow> int \<Rightarrow> int \<Rightarrow> int \<Rightarrow> int \<Rightarrow> cairo_op list" where
  "draw_borders s scale cx ring_cy arc_radius arc_thickness =
     [set_color_for_state s Line_colors, SetLineWidth (2 * of_int scale),
      Arc (of_int cx) (of_int ring_cy) (of_int (arc_radius - arc_thickness sdiv 2)) 0 (2 * M_PI), Stroke,
      Arc (of_int cx) (of_int ring_cy) (of_int (arc_radius + arc_thickness sdiv 2)) 0 (2 * M_PI), Stroke]"

definition draw_layout_text ::
    "libs \<Rightarrow> font \<Rightarrow> swaylock_state \<Rightarrow> int \<Rightarrow> int \<Rightarrow> int \<Rightarrow> cairo_op list" where
  "draw_layout_text E f s scale buffer_width diameter =
     (case keyboard_layout_text E s of
        None \<Rightarrow> []
      | Some t \<Rightarrow>
          text_box E f s scale
            (of_int (buffer_width sdiv 2) - te_width (lib_text_extents E f t) / 2 - 4 * of_int scale)
            (of_int (trunc (ex_label (extra_heights E f s scale)) + diameter)) t)"

definition draw_button :: "libs \<Rightarrow> font \<Rightarrow> swaylock_state \<Rightarrow> int \<Rightarrow> int \<Rightarrow> real \<Rightarrow> cairo_op list" where
  "draw_button E f s scale buffer_width y =
     (let fe = lib_font_extents E f; box_padding = 4 * real_of_int scale;
          t = str (ul_button (st_authd_layout s)); ext = lib_text_extents E f t;
          colors = arg_colors (st_args s);
          bw = te_width ext + 2 * box_padding; bh = fe_height fe + 2 * box_padding;
          bx = (of_int buffer_width - bw) / 2; corner = bh / 4
      in [NewSubPath,
          Arc (bx + bw - corner) (y + corner) corner (- M_PI / 2) 0,
          Arc (bx + bw - corner) (y + bh - corner) corner 0 (M_PI / 2),
          Arc (bx + corner) (y + bh - corner) corner (M_PI / 2) M_PI,
          Arc (bx + corner) (y + corner) corner M_PI (3 * M_PI / 2), ClosePath,
          cairo_set_source_u32 (col_layout_background colors), FillPreserve,
          SetLineWidth (2 * of_int scale), cairo_set_source_u32 (col_layout_border colors), Stroke,
          MoveTo (bx - te_x_bearing ext + box_padding) (y + (fe_height fe - fe_descent fe) + box_padding),
          cairo_set_source_u32 (col_layout_text colors), ShowText t, NewSubPath])"

definition draw_button_and_error ::
    "libs \<Rightarrow> font \<Rightarrow> swaylock_state \<Rightarrow> int \<Rightarrow> int \<Rightarrow> int \<Rightarrow> cairo_op list" where
  "draw_button_and_error E f s scale buffer_width diameter =
     (let fe = lib_font_extents E f; box_padding = 4 * real_of_int scale;
          ex = extra_heights E f s scale;
          y0 = of_int (trunc (ex_label ex) + diameter) +
               (if keyboard_layout_text E s \<noteq> None then fe_height fe + 2 * box_padding else 0);
          y1 = (if ex_button ex > 0 then y0 + ex_button ex else y0);
          err = str (st_authd_error s)
      in (if ex_button ex > 0 then draw_button E f s scale buffer_width y0 else []) @
         (if ex_error ex > 0
          then [MoveTo (centred_text_x buffer_width (lib_text_extents E f err))
                  (y1 + (fe_height fe - fe_descent fe) + box_padding / 2),
                cairo_set_source_u32 error_text_color, ShowText err, NewSubPath]
          else []))"

definition indicator_ops :: "libs \<Rightarrow> font \<Rightarrow> swaylock_state \<Rightarrow> int \<Rightarrow> int \<times> int \<Rightarrow> cairo_op list" where
  "indicator_ops E f s scale dims =
     (let args = st_args s; buffer_width = fst dims;
          arc_radius = u32_int (arg_radius args * word_of_int scale);
          arc_thickness = u32_int (arg_thickness args * word_of_int scale);
          diameter = (arc_radius + arc_thickness) * 2;
          ring_cy = trunc (ex_label (extra_heights E f s scale)) + diameter sdiv 2;
          cx = buffer_width sdiv 2
      in [SetAntialiasBest, IdentityMatrix] @ clear_ops @
         (if is_qrcode s then draw_qr E f s scale dims
          else if draw_indicator s then
            configure_font_drawing f @ draw_label E f s scale buffer_width @
            draw_ring s cx ring_cy arc_radius arc_thickness @
            draw_message E f s cx ring_cy @
            draw_typing s scale buffer_width ring_cy arc_radius arc_thickness diameter @
            draw_borders s scale cx ring_cy arc_radius arc_thickness @
            draw_layout_text E f s scale buffer_width diameter @
            draw_button_and_error E f s scale buffer_width diameter
          else []))"

definition render_indicator :: "libs \<Rightarrow> nat \<Rightarrow> swaylock_state \<Rightarrow> bool \<times> swaylock_state" where
  "render_indicator E i s =
     (let sf = st_surfaces s ! i; args = st_args s; scale = sf_scale sf;
          arc_radius = u32_int (arg_radius args * word_of_int scale);
          arc_thickness = u32_int (arg_thickness args * word_of_int scale);
          diameter = (arc_radius + arc_thickness) * 2;
          f = frame_font s sf arc_radius;
          dims = frame_size E f s scale diameter
      in case indicator_buffer i dims s of
           (False, s') \<Rightarrow> (False, s')
         | (True, s') \<Rightarrow>
             (True, commit_indicator i (frame_position E f s sf dims) dims
                      (indicator_ops E f s scale dims) s'))"

definition render_frame :: "libs \<Rightarrow> nat \<Rightarrow> swaylock_state \<Rightarrow> bool \<times> swaylock_state" where
  "render_frame E i s = (if in_selection s then render_selection E i s else render_indicator E i s)"

section \<open>Background and frame scheduling\<close>

text \<open>
  \<open>None\<close>: the assertion in \<^verbatim>\<open>render_background_image\<close> fails. The options do not exclude it:
  the mode of a rejected line of the configuration file stays in place.
\<close>

definition background_ops :: "swaylock_state \<Rightarrow> swaylock_surface \<Rightarrow> int \<Rightarrow> int \<Rightarrow> cairo_op list option" where
  "background_ops s sf buffer_width buffer_height =
     map_option (\<lambda>ops.
         [SetAntialiasBest, Save, SetOperator OPERATOR_SOURCE,
          cairo_set_source_u32 (col_background (arg_colors (st_args s))), Paint] @ ops @
         [Restore, IdentityMatrix])
       (case sf_image sf of
          None \<Rightarrow> Some []
        | Some img \<Rightarrow>
            (if arg_mode (st_args s) \<noteq> BACKGROUND_MODE_SOLID_COLOR then
               map_option (\<lambda>ops. SetOperator OPERATOR_OVER # ops)
                 (render_background_image img (arg_mode (st_args s)) buffer_width buffer_height)
             else Some []))"

text \<open>
  The first part of \<^verbatim>\<open>render\<close>: a new background buffer when the size has changed. The flag of the
  result says whether rendering goes on.
\<close>

definition render_background :: "nat \<Rightarrow> int \<Rightarrow> int \<Rightarrow> swaylock_state \<Rightarrow> bool \<times> swaylock_state" where
  "render_background i buffer_width buffer_height s =
     (let sf = st_surfaces s ! i in
      if buffer_width \<noteq> sf_last_buffer_width sf \<or> buffer_height \<noteq> sf_last_buffer_height sf then
        (case create_buffer (st_shm s) empty_buffer (word_of_int buffer_width) (word_of_int buffer_height) of
           (None, env) \<Rightarrow> (False, s\<lparr>st_shm := env\<rparr>)
         | (Some _, env) \<Rightarrow>
             (case background_ops s sf buffer_width buffer_height of
                None \<Rightarrow> (False, abort (s\<lparr>st_shm := env\<rparr>))
              | Some ops \<Rightarrow>
                  (True,
                   update_surface i (\<lambda>sf. sf\<lparr>sf_last_buffer_width := buffer_width,
                                             sf_last_buffer_height := buffer_height\<rparr>)
                     (send_request (AttachBackground (sf_output_global_name sf) ops) (s\<lparr>st_shm := env\<rparr>)))))
      else (True, s))"

definition render :: "libs \<Rightarrow> nat \<Rightarrow> swaylock_state \<Rightarrow> swaylock_state" where
  "render E i s =
     (let sf = st_surfaces s ! i;
          buffer_width = u32_int (sf_width sf * word_of_int (sf_scale sf));
          buffer_height = u32_int (sf_height sf * word_of_int (sf_scale sf))
      in if buffer_width = 0 \<or> buffer_height = 0 then s
         else if \<not> sf_dirty sf \<or> sf_frame sf then s
         else
           (case render_background i buffer_width buffer_height s of
              (False, s1) \<Rightarrow> s1
            | (True, s1) \<Rightarrow>
                (let s2 = send_request (BufferScale (sf_output_global_name sf) (sf_scale sf)) s1;
                     (_, s3) = render_frame E i s2;
                     s4 = update_surface i (\<lambda>sf. sf\<lparr>sf_dirty := False, sf_frame := True\<rparr>) s3
                 in s4\<lparr>st_wire := st_wire s4 @ [RequestFrame (sf_output_global_name sf),
                                                 CommitSurface (sf_output_global_name sf)]\<rparr>)))"

definition surface_frame_handle_done :: "libs \<Rightarrow> nat \<Rightarrow> swaylock_state \<Rightarrow> swaylock_state" where
  "surface_frame_handle_done E i s = render E i (update_surface i (\<lambda>sf. sf\<lparr>sf_frame := False\<rparr>) s)"

text \<open>A process that has ended does nothing.\<close>

definition mark_and_render :: "libs \<Rightarrow> nat \<Rightarrow> swaylock_state \<Rightarrow> swaylock_state" where
  "mark_and_render E i s =
     (if alive s then render E i (update_surface i (\<lambda>sf. sf\<lparr>sf_dirty := True\<rparr>) s) else s)"

definition damage_state :: "libs \<Rightarrow> swaylock_state \<Rightarrow> swaylock_state" where
  "damage_state E s = fold (mark_and_render E) [0..<length (st_surfaces s)] s"

section \<open>What rendering leaves alone\<close>

text \<open>The counts kept beside the two arrays agree with their lengths.\<close>

definition lists_wf :: "swaylock_state \<Rightarrow> bool" where
  "lists_wf s \<longleftrightarrow> st_authd_num_brokers s = int (length (st_authd_brokers s)) \<and>
     st_authd_num_auth_modes s = int (length (st_authd_auth_modes s))"

text \<open>A surface the compositor has given a size, and memory that never runs out.\<close>

definition configured :: "swaylock_surface \<Rightarrow> bool" where
  "configured sf \<longleftrightarrow> u32_int (sf_width sf * word_of_int (sf_scale sf)) \<noteq> 0 \<and>
     u32_int (sf_height sf * word_of_int (sf_scale sf)) \<noteq> 0"

definition memory_ok :: "shm_env \<Rightarrow> bool" where
  "memory_ok env \<longleftrightarrow> se_open env = [] \<and> se_truncate env = []"

text \<open>The texts that a list of drawing operations shows.\<close>

definition shown_texts :: "cairo_op list \<Rightarrow> string list" where
  "shown_texts ops = concat (map (\<lambda>c. case c of ShowText t \<Rightarrow> [t] | _ \<Rightarrow> []) ops)"

text \<open>
  Rendering leaves alone the fields of a surface other than these five, and starts to wait for a frame
  only on a surface that has a size.
\<close>

definition surface_core :: "swaylock_surface \<Rightarrow> swaylock_surface" where
  "surface_core sf = sf\<lparr>sf_indicator_buffers := [], sf_dirty := False, sf_frame := False,
     sf_last_buffer_width := 0, sf_last_buffer_height := 0\<rparr>"

definition surface_step :: "swaylock_surface \<Rightarrow> swaylock_surface \<Rightarrow> bool" where
  "surface_step sf sf' \<longleftrightarrow> surface_core sf' = surface_core sf \<and>
     (sf_frame sf' \<longrightarrow> sf_frame sf \<or> configured sf)"

text \<open>The requests that draw on the surface of the output with the global name \<open>n\<close>.\<close>

definition drawing :: "u32 \<Rightarrow> wl_request \<Rightarrow> bool" where
  "drawing n r \<longleftrightarrow>
     (case r of
        AttachBackground m _ \<Rightarrow> m = n | BufferScale m _ \<Rightarrow> m = n | IndicatorPosition m _ _ \<Rightarrow> m = n
      | IndicatorScale m _ \<Rightarrow> m = n | AttachIndicator m _ _ _ \<Rightarrow> m = n | CommitIndicator m \<Rightarrow> m = n
      | RequestFrame m \<Rightarrow> m = n | CommitSurface m \<Rightarrow> m = n | _ \<Rightarrow> False)"

definition draws :: "swaylock_state \<Rightarrow> wl_request \<Rightarrow> bool" where
  "draws s r \<longleftrightarrow> (\<exists>sf \<in> set (st_surfaces s). configured sf \<and> drawing (sf_output_global_name sf) r)"

text \<open>
  Rendering changes surfaces, the shared-memory environment and the wire only, keeps the number and the
  core fields of the surfaces, and sends only drawing requests, for surfaces that have a size. The
  process survives unless the background mode is invalid.
\<close>

definition rendered :: "swaylock_state \<Rightarrow> swaylock_state \<Rightarrow> bool" where
  "rendered s s' \<longleftrightarrow>
     (\<exists>sfs env w e. s' = s\<lparr>st_surfaces := sfs, st_shm := env, st_wire := st_wire s @ w, st_exit := e\<rparr> \<and>
        list_all2 surface_step (st_surfaces s) sfs \<and>
        (e = st_exit s \<or> arg_mode (st_args s) = BACKGROUND_MODE_INVALID \<and> e \<noteq> None) \<and>
        (\<forall>r \<in> set w. draws s r))"

lemma renderedI:
  assumes "s' = s\<lparr>st_surfaces := sfs, st_shm := env, st_wire := st_wire s @ w, st_exit := e\<rparr>"
    "list_all2 surface_step (st_surfaces s) sfs"
    "e = st_exit s \<or> arg_mode (st_args s) = BACKGROUND_MODE_INVALID \<and> e \<noteq> None"
    "\<forall>r \<in> set w. draws s r"
  shows "rendered s s'"
  using assms unfolding rendered_def by blast

lemma surface_step_refl [simp]: "surface_step sf sf"
  by (simp add: surface_step_def)

lemma surface_core_fields:
  "configured (surface_core sf) = configured sf"
  "sf_output_global_name (surface_core sf) = sf_output_global_name sf"
  "sf_created (surface_core sf) = sf_created sf"
  "sf_surface (surface_core sf) = sf_surface sf"
  "sf_child (surface_core sf) = sf_child sf"
  "sf_subsurface (surface_core sf) = sf_subsurface sf"
  "sf_lock_surface (surface_core sf) = sf_lock_surface sf"
  "sf_width (surface_core sf) = sf_width sf"
  "sf_height (surface_core sf) = sf_height sf"
  by (simp_all add: surface_core_def configured_def)

lemma surface_core_eq:
  assumes "surface_core sf' = surface_core sf"
  shows "configured sf' = configured sf"
    "sf_output_global_name sf' = sf_output_global_name sf"
    "sf_created sf' = sf_created sf"
    "sf_surface sf' = sf_surface sf"
    "sf_child sf' = sf_child sf"
    "sf_subsurface sf' = sf_subsurface sf"
    "sf_lock_surface sf' = sf_lock_surface sf"
    "sf_width sf' = sf_width sf"
    "sf_height sf' = sf_height sf"
  using assms by (metis surface_core_fields)+

lemmas configured_core = surface_core_eq(1)
lemmas global_name_core = surface_core_eq(2)

lemma surface_step_trans: "surface_step a b \<Longrightarrow> surface_step b c \<Longrightarrow> surface_step a c"
  unfolding surface_step_def by (metis configured_core)

lemma surfaces_refl [simp]: "list_all2 surface_step sfs sfs"
  by (simp add: list_all2_refl)

lemma surfaces_trans:
  "list_all2 surface_step a b \<Longrightarrow> list_all2 surface_step b c \<Longrightarrow> list_all2 surface_step a c"
  by (rule list_all2_trans [OF surface_step_trans])

lemma draws_step:
  assumes "list_all2 surface_step (st_surfaces s) (st_surfaces s')" "draws s' r"
  shows "draws s r"
proof -
  obtain i where i: "i < length (st_surfaces s')" "configured (st_surfaces s' ! i)"
    "drawing (sf_output_global_name (st_surfaces s' ! i)) r"
    using assms(2) by (auto simp: draws_def in_set_conv_nth)
  then have "surface_core (st_surfaces s' ! i) = surface_core (st_surfaces s ! i)" "i < length (st_surfaces s)"
    using assms(1) by (auto simp: list_all2_conv_all_nth surface_step_def)
  then show ?thesis
    using i configured_core global_name_core unfolding draws_def by (metis nth_mem)
qed

lemma rendered_refl [simp]: "rendered s s"
  by (rule renderedI [where sfs = "st_surfaces s" and env = "st_shm s" and w = "[]" and e = "st_exit s"])
    simp_all

lemma rendered_surfaces: "rendered s s' \<Longrightarrow> list_all2 surface_step (st_surfaces s) (st_surfaces s')"
  by (auto simp: rendered_def)

lemma rendered_trans:
  assumes "rendered s s'" "rendered s' s''"
  shows "rendered s s''"
proof -
  obtain sfs env w e where 1:
    "s' = s\<lparr>st_surfaces := sfs, st_shm := env, st_wire := st_wire s @ w, st_exit := e\<rparr>"
    "list_all2 surface_step (st_surfaces s) sfs"
    "e = st_exit s \<or> arg_mode (st_args s) = BACKGROUND_MODE_INVALID \<and> e \<noteq> None"
    "\<forall>r \<in> set w. draws s r"
    using assms(1) unfolding rendered_def by blast
  obtain sfs' env' w' e' where 2:
    "s'' = s'\<lparr>st_surfaces := sfs', st_shm := env', st_wire := st_wire s' @ w', st_exit := e'\<rparr>"
    "list_all2 surface_step (st_surfaces s') sfs'"
    "e' = st_exit s' \<or> arg_mode (st_args s') = BACKGROUND_MODE_INVALID \<and> e' \<noteq> None"
    "\<forall>r \<in> set w'. draws s' r"
    using assms(2) unfolding rendered_def by blast
  have "\<forall>r \<in> set (w @ w'). draws s r"
    using 1(4) 2(4) draws_step [OF rendered_surfaces [OF assms(1)]] by auto
  moreover have "list_all2 surface_step (st_surfaces s) sfs'"
    using surfaces_trans [OF 1(2)] 1(1) 2(2) by simp
  ultimately show ?thesis
    by (intro renderedI [where sfs = sfs' and env = env' and w = "w @ w'" and e = e']) (use 1 2 in auto)
qed

lemma rendered_update:
  assumes "surface_step (st_surfaces s ! i) (f (st_surfaces s ! i))"
  shows "rendered s (update_surface i f s)"
proof -
  have "list_all2 surface_step (st_surfaces s) ((st_surfaces s)[i := f (st_surfaces s ! i)])"
    using assms by (cases "i < length (st_surfaces s)") (auto simp: list_all2_conv_all_nth nth_list_update)
  then show ?thesis
    by (intro renderedI [where sfs = "(st_surfaces s)[i := f (st_surfaces s ! i)]" and env = "st_shm s"
        and w = "[]" and e = "st_exit s"])
      (simp_all add: update_surface_def)
qed

lemma rendered_wire: "\<forall>r \<in> set w. draws s r \<Longrightarrow> rendered s (s\<lparr>st_wire := st_wire s @ w\<rparr>)"
  by (rule renderedI [where sfs = "st_surfaces s" and env = "st_shm s" and w = w and e = "st_exit s"])
    simp_all

lemma rendered_shm: "rendered s (s\<lparr>st_shm := env\<rparr>)"
  by (rule renderedI [where sfs = "st_surfaces s" and env = env and w = "[]" and e = "st_exit s"]) simp_all

lemma rendered_abort:
  "arg_mode (st_args s) = BACKGROUND_MODE_INVALID \<Longrightarrow> rendered s (abort (s\<lparr>st_shm := env\<rparr>))"
  by (rule renderedI [where sfs = "st_surfaces s" and env = env and w = "[]" and e = "Some 134"])
    (simp_all add: abort_def exit_with_def)

lemma background_ops_None:
  "background_ops s sf bw bh = None \<Longrightarrow> arg_mode (st_args s) = BACKGROUND_MODE_INVALID"
  by (auto simp: background_ops_def render_background_image_def Let_def
      split: option.splits if_splits background_mode.splits)

text \<open>A surface in the list that has a size, as the steps of rendering need it.\<close>

definition ready :: "nat \<Rightarrow> swaylock_state \<Rightarrow> bool" where
  "ready i s \<longleftrightarrow> i < length (st_surfaces s) \<and> configured (st_surfaces s ! i)"

lemma ready_rendered:
  assumes "rendered s s'" "ready i s"
  shows "ready i s'"
proof -
  have "surface_core (st_surfaces s' ! i) = surface_core (st_surfaces s ! i)" "i < length (st_surfaces s')"
    using rendered_surfaces [OF assms(1)] assms(2)
    by (auto simp: ready_def list_all2_conv_all_nth surface_step_def)
  then show ?thesis
    using assms(2) configured_core unfolding ready_def by metis
qed

lemma ready_draws: "ready i s \<Longrightarrow> drawing (sf_output_global_name (st_surfaces s ! i)) r \<Longrightarrow> draws s r"
  unfolding ready_def draws_def by (meson nth_mem)

lemma rendered_name:
  assumes "rendered s s'" "ready i s"
  shows "sf_output_global_name (st_surfaces s' ! i) = sf_output_global_name (st_surfaces s ! i)"
  using rendered_surfaces [OF assms(1)] assms(2)
  by (intro global_name_core) (auto simp: ready_def list_all2_conv_all_nth surface_step_def)

lemma rendered_indicator_buffer: "rendered s (snd (indicator_buffer i dims s))"
proof -
  have "rendered s ((update_surface i (\<lambda>sf. sf\<lparr>sf_indicator_buffers := pool\<rparr>) s)\<lparr>st_shm := env\<rparr>)" for pool env
    by (rule rendered_trans [OF rendered_update rendered_shm]) (simp add: surface_core_def surface_step_def)
  then show ?thesis
    by (simp add: indicator_buffer_def split: prod.split)
qed

lemma rendered_commit: "ready i s \<Longrightarrow> rendered s (commit_indicator i pos dims ops s)"
  unfolding commit_indicator_def Let_def
  by (rule rendered_wire) (auto simp: drawing_def intro: ready_draws)

lemma rendered_render_frame:
  assumes "ready i s"
  shows "rendered s (snd (render_frame E i s))"
proof -
  have "rendered s (snd (case indicator_buffer i dims s of (False, s') \<Rightarrow> (False, s')
      | (True, s') \<Rightarrow> (True, commit_indicator i pos dims ops s')))" for dims pos ops
    using rendered_indicator_buffer [of s i dims]
      rendered_trans [OF rendered_indicator_buffer rendered_commit
        [OF ready_rendered [OF rendered_indicator_buffer assms, of i dims]], of pos dims ops]
    by (cases "indicator_buffer i dims s") (simp split: bool.split)
  then show ?thesis
    by (simp add: render_frame_def render_selection_def render_indicator_def Let_def)
qed

lemma rendered_background:
  assumes "ready i s"
  shows "rendered s (snd (render_background i bw bh s))"
proof -
  have "rendered s (update_surface i (\<lambda>sf. sf\<lparr>sf_last_buffer_width := bw, sf_last_buffer_height := bh\<rparr>)
      (send_request (AttachBackground (sf_output_global_name (st_surfaces s ! i)) ops) (s\<lparr>st_shm := env\<rparr>)))"
    for ops env
    unfolding send_request_def
    by (intro rendered_trans [OF rendered_trans [OF rendered_shm rendered_wire] rendered_update])
      (use assms ready_draws [OF ready_rendered [OF rendered_shm assms], of env] in
        \<open>simp_all add: surface_core_def surface_step_def drawing_def\<close>)
  then show ?thesis
    by (auto simp: render_background_def Let_def rendered_shm rendered_abort background_ops_None
        split: prod.splits option.splits)
qed

lemma rendered_finish:
  assumes "ready i s" "n = sf_output_global_name (st_surfaces s ! i)"
  shows "rendered s ((update_surface i (\<lambda>sf. sf\<lparr>sf_dirty := False, sf_frame := True\<rparr>)
      (snd (render_frame E i (send_request (BufferScale n k) s))))
      \<lparr>st_wire := st_wire (update_surface i (\<lambda>sf. sf\<lparr>sf_dirty := False, sf_frame := True\<rparr>)
        (snd (render_frame E i (send_request (BufferScale n k) s)))) @ [RequestFrame n, CommitSurface n]\<rparr>)"
  (is "rendered s (?s4\<lparr>st_wire := _\<rparr>)")
proof -
  let ?s3 = "snd (render_frame E i (send_request (BufferScale n k) s))"
  have "rendered s (send_request (BufferScale n k) s)"
    unfolding send_request_def using assms ready_draws [OF assms(1)]
    by (intro rendered_wire) (simp add: drawing_def)
  then have 3: "rendered s ?s3"
    using rendered_render_frame ready_rendered [OF _ assms(1)] rendered_trans by blast
  moreover have "rendered ?s3 ?s4"
    using ready_rendered [OF 3 assms(1)]
    by (intro rendered_update) (simp add: surface_step_def surface_core_def ready_def)
  ultimately have 4: "rendered s ?s4"
    by (rule rendered_trans)
  have "rendered ?s4 (?s4\<lparr>st_wire := st_wire ?s4 @ [RequestFrame n, CommitSurface n]\<rparr>)"
    using ready_draws [OF ready_rendered [OF 4 assms(1)]] rendered_name [OF 4 assms(1)] assms(2)
    by (intro rendered_wire) (simp add: drawing_def)
  with 4 show ?thesis
    by (rule rendered_trans)
qed

lemma rendered_render:
  assumes "i < length (st_surfaces s)"
  shows "rendered s (render E i s)"
proof (cases "configured (st_surfaces s ! i)")
  case True
  then have r: "ready i s"
    using assms by (simp add: ready_def)
  have "rendered s (case render_background i bw bh s of (False, s1) \<Rightarrow> s1
      | (True, s1) \<Rightarrow>
          (let s2 = send_request (BufferScale (sf_output_global_name (st_surfaces s ! i)) k) s1;
               (_, s3) = render_frame E i s2;
               s4 = update_surface i (\<lambda>sf. sf\<lparr>sf_dirty := False, sf_frame := True\<rparr>) s3
           in s4\<lparr>st_wire := st_wire s4 @ [RequestFrame (sf_output_global_name (st_surfaces s ! i)),
                CommitSurface (sf_output_global_name (st_surfaces s ! i))]\<rparr>))" for bw bh k
    using rendered_background [OF r, of bw bh]
      rendered_trans [OF rendered_background [OF r, of bw bh]
        rendered_finish [OF ready_rendered [OF rendered_background [OF r] r]
          rendered_name [OF rendered_background [OF r] r, symmetric], where E = E]]
    by (simp add: case_prod_unfold Let_def split: bool.split)
  then show ?thesis
    by (simp add: render_def Let_def)
next
  case False
  then show ?thesis
    by (simp add: render_def configured_def Let_def)
qed

lemma length_update_surface [simp]: "length (st_surfaces (update_surface i f s)) = length (st_surfaces s)"
  by (simp add: update_surface_def)

lemma rendered_mark: "i < length (st_surfaces s) \<Longrightarrow> rendered s (mark_and_render E i s)"
  unfolding mark_and_render_def
  by (auto simp: surface_step_def surface_core_def
      intro: rendered_trans [OF rendered_update rendered_render])

lemma rendered_length: "rendered s s' \<Longrightarrow> length (st_surfaces s') = length (st_surfaces s)"
  using list_all2_lengthD [OF rendered_surfaces] by metis

lemma rendered_fold:
  "\<forall>i \<in> set is. i < length (st_surfaces s) \<Longrightarrow> rendered s (fold (mark_and_render E) is s)"
proof (induction "is" arbitrary: s)
  case (Cons i "is")
  have 1: "rendered s (mark_and_render E i s)"
    using Cons.prems by (simp add: rendered_mark)
  moreover have "rendered (mark_and_render E i s) (fold (mark_and_render E) is (mark_and_render E i s))"
    using Cons rendered_length [OF 1] by simp
  ultimately show ?case
    using rendered_trans by simp
qed simp

lemma rendered_damage: "rendered s (damage_state E s)"
  by (simp add: damage_state_def rendered_fold)

lemma rendered_fields:
  assumes "rendered s s'"
  shows
    "io_in s' = io_in s"
    "io_out s' = io_out s"
    "io_rd s' = io_rd s"
    "io_wr s' = io_wr s"
    "io_mem s' = io_mem s"
    "io_mlock s' = io_mlock s"
    "io_mlock_supported s' = io_mlock_supported s"
    "st_eventloop s' = st_eventloop s"
    "st_input_idle_timer s' = st_input_idle_timer s"
    "st_auth_idle_timer s' = st_auth_idle_timer s"
    "st_clear_password_timer s' = st_clear_password_timer s"
    "st_images s' = st_images s"
    "st_args s' = st_args s"
    "st_password s' = st_password s"
    "st_xkb s' = st_xkb s"
    "st_auth_state s' = st_auth_state s"
    "st_input_state s' = st_input_state s"
    "st_highlight_start s' = st_highlight_start s"
    "st_failed_attempts s' = st_failed_attempts s"
    "st_run_display s' = st_run_display s"
    "st_locked s' = st_locked s"
    "st_lock_failed s' = st_lock_failed s"
    "st_compositor s' = st_compositor s"
    "st_subcompositor s' = st_subcompositor s"
    "st_wl_shm s' = st_wl_shm s"
    "st_lock_manager s' = st_lock_manager s"
    "st_lock s' = st_lock s"
    "st_authd_active s' = st_authd_active s"
    "st_authd_stage s' = st_authd_stage s"
    "st_authd_brokers s' = st_authd_brokers s"
    "st_authd_num_brokers s' = st_authd_num_brokers s"
    "st_authd_sel_broker s' = st_authd_sel_broker s"
    "st_authd_auth_modes s' = st_authd_auth_modes s"
    "st_authd_num_auth_modes s' = st_authd_num_auth_modes s"
    "st_authd_sel_auth_mode s' = st_authd_sel_auth_mode s"
    "st_authd_layout s' = st_authd_layout s"
    "st_authd_error s' = st_authd_error s"
    "st_seats s' = st_seats s"
    "st_clock s' = st_clock s"
    "st_timer_alloc s' = st_timer_alloc s"
    "st_rand s' = st_rand s"
    "length (st_surfaces s') = length (st_surfaces s)"
  using assms rendered_length [OF assms] by (auto simp: rendered_def)

lemmas damage_fields [simp, frame_simps] = rendered_fields [OF rendered_damage]
lemmas mark_fields = rendered_fields [OF rendered_mark]

lemma rendered_exit:
  "rendered s s' \<Longrightarrow> arg_mode (st_args s) \<noteq> BACKGROUND_MODE_INVALID \<Longrightarrow> st_exit s' = st_exit s"
  by (auto simp: rendered_def)

lemmas damage_exit [simp] = rendered_exit [OF rendered_damage]

lemma rendered_dead: "rendered s s' \<Longrightarrow> \<not> alive s \<Longrightarrow> \<not> alive s'"
  by (auto simp: rendered_def alive_def)

lemmas damage_dead [simp] = rendered_dead [OF rendered_damage]

lemma rendered_wire_unlock:
  "rendered s s' \<Longrightarrow> UnlockAndDestroy \<in> set (st_wire s') \<longleftrightarrow> UnlockAndDestroy \<in> set (st_wire s)"
proof -
  have "\<not> draws s UnlockAndDestroy"
    by (simp add: draws_def drawing_def)
  then show "rendered s s' \<Longrightarrow> ?thesis"
    by (auto simp: rendered_def)
qed

lemma damage_unlock [simp]:
  "UnlockAndDestroy \<in> set (st_wire (damage_state E s)) \<longleftrightarrow> UnlockAndDestroy \<in> set (st_wire s)"
  by (rule rendered_wire_unlock [OF rendered_damage])

section \<open>What handlers leave alone\<close>

text \<open>
  Handlers other than those of outputs and of the session lock touch the compositor only by drawing:
  they keep options, images, lock state, the core of the surfaces, the
  pipe from the child and the registered descriptors, and the requests they add draw on
  surfaces that have a size.
\<close>

definition quiet :: "swaylock_state \<Rightarrow> swaylock_state \<Rightarrow> bool" where
  "quiet s s' \<longleftrightarrow>
     st_args s' = st_args s \<and> st_images s' = st_images s \<and> length (st_seats s') = length (st_seats s) \<and>
     st_locked s' = st_locked s \<and> st_lock_failed s' = st_lock_failed s \<and> st_lock s' = st_lock s \<and>
     io_in s' = io_in s \<and> io_rd s' = io_rd s \<and>
     lp_fds (st_eventloop s') = lp_fds (st_eventloop s) \<and>
     lp_fd_events (st_eventloop s') = lp_fd_events (st_eventloop s) \<and>
     list_all2 surface_step (st_surfaces s) (st_surfaces s') \<and>
     (\<exists>w. st_wire s' = st_wire s @ w \<and> (\<forall>r \<in> set w. draws s r)) \<and>
     (\<not> alive s \<longrightarrow> \<not> alive s') \<and>
     (arg_mode (st_args s) \<noteq> BACKGROUND_MODE_INVALID \<longrightarrow> st_exit s' = st_exit s)"

lemma quiet_same:
  assumes "st_args s' = st_args s" "st_images s' = st_images s" "length (st_seats s') = length (st_seats s)"
    "st_locked s' = st_locked s" "st_lock_failed s' = st_lock_failed s" "st_lock s' = st_lock s"
    "st_surfaces s' = st_surfaces s" "st_wire s' = st_wire s" "st_exit s' = st_exit s"
    "io_in s' = io_in s" "io_rd s' = io_rd s" "lp_fds (st_eventloop s') = lp_fds (st_eventloop s)"
    "lp_fd_events (st_eventloop s') = lp_fd_events (st_eventloop s)"
  shows "quiet s s'"
  using assms by (simp add: quiet_def alive_def)

lemma quiet_refl [simp]: "quiet s s"
  by (simp add: quiet_same)

lemma quiet_trans:
  assumes "quiet s s'" "quiet s' s''"
  shows "quiet s s''"
proof -
  obtain w w' where "st_wire s' = st_wire s @ w" "\<forall>r \<in> set w. draws s r"
    "st_wire s'' = st_wire s' @ w'" "\<forall>r \<in> set w'. draws s' r"
    using assms unfolding quiet_def by blast
  then have "st_wire s'' = st_wire s @ (w @ w') \<and> (\<forall>r \<in> set (w @ w'). draws s r)"
    using draws_step [of s s'] assms(1) by (auto simp: quiet_def)
  moreover have "list_all2 surface_step (st_surfaces s) (st_surfaces s'')"
    using assms surfaces_trans unfolding quiet_def by blast
  ultimately show ?thesis
    using assms unfolding quiet_def by auto
qed

lemma quiet_rendered: "rendered s s' \<Longrightarrow> quiet s s'"
  unfolding quiet_def
  by (auto simp: rendered_fields rendered_surfaces rendered_dead rendered_exit)
    (auto simp: rendered_def)

lemma quiet_damage: "quiet s s' \<Longrightarrow> quiet s (damage_state E s')"
  by (rule quiet_trans [OF _ quiet_rendered [OF rendered_damage]])

section \<open>Rendering does not read the password\<close>

lemma pw_colors: "set_color_for_state (s\<lparr>st_password := p\<rparr>) r = set_color_for_state s r"
  by (simp add: set_color_for_state_def Let_def)

lemma pw_font: "frame_font (s\<lparr>st_password := p\<rparr>) = frame_font s"
  by (simp add: fun_eq_iff frame_font_def)

lemma pw_draw_indicator: "draw_indicator (s\<lparr>st_password := p\<rparr>) = draw_indicator s"
  by (simp add: draw_indicator_def)

lemma pw_indicator_text: "indicator_text (s\<lparr>st_password := p\<rparr>) = indicator_text s"
  by (simp add: indicator_text_def pw_draw_indicator)

lemma pw_layout_text: "keyboard_layout_text E (s\<lparr>st_password := p\<rparr>) = keyboard_layout_text E s"
  by (simp add: keyboard_layout_text_def pw_draw_indicator Let_def split: option.split)

lemma pw_list:
  "is_broker_stage (s\<lparr>st_password := p\<rparr>) = is_broker_stage s"
  "in_selection (s\<lparr>st_password := p\<rparr>) = in_selection s"
  "list_count (s\<lparr>st_password := p\<rparr>) = list_count s"
  "list_sel (s\<lparr>st_password := p\<rparr>) = list_sel s"
  "list_name (s\<lparr>st_password := p\<rparr>) = list_name s"
  "visible_rows (s\<lparr>st_password := p\<rparr>) = visible_rows s"
  by (simp_all add: is_broker_stage_def in_selection_def list_count_def list_sel_def fun_eq_iff
      list_name_def visible_rows_def)

lemma pw_rows: "draw_row E f (s\<lparr>st_password := p\<rparr>) = draw_row E f s"
  by (simp add: fun_eq_iff draw_row_def pw_list Let_def)

lemma pw_selection:
  "selection_size E f (s\<lparr>st_password := p\<rparr>) scale = selection_size E f s scale"
  "selection_ops E f (s\<lparr>st_password := p\<rparr>) scale w = selection_ops E f s scale w"
  by (simp_all add: selection_size_def selection_ops_def pw_list pw_rows Let_def)

lemma pw_qr:
  "is_qrcode (s\<lparr>st_password := p\<rparr>) = is_qrcode s"
  "frame_qrcode E (s\<lparr>st_password := p\<rparr>) = frame_qrcode E s"
  by (simp_all add: is_qrcode_def frame_qrcode_def)

lemma pw_extra:
  "extra_heights E f (s\<lparr>st_password := p\<rparr>) = extra_heights E f s"
  "extra_size E f (s\<lparr>st_password := p\<rparr>) = extra_size E f s"
proof -
  show h: "extra_heights E f (s\<lparr>st_password := p\<rparr>) = extra_heights E f s"
    by (simp add: fun_eq_iff extra_heights_def pw_qr Let_def)
  show "extra_size E f (s\<lparr>st_password := p\<rparr>) = extra_size E f s"
    by (simp add: fun_eq_iff extra_size_def h pw_qr cong: if_cong)
qed

lemma pw_qr_size: "qr_size E f (s\<lparr>st_password := p\<rparr>) = qr_size E f s"
  by (simp add: fun_eq_iff qr_size_def pw_qr Let_def case_prod_unfold cong: if_cong)

lemma pw_frame:
  "frame_size E f (s\<lparr>st_password := p\<rparr>) scale d = frame_size E f s scale d"
  "frame_position E f (s\<lparr>st_password := p\<rparr>) sf dims = frame_position E f s sf dims"
  by (simp_all add: frame_size_def frame_position_def pw_extra pw_qr pw_qr_size pw_indicator_text
      pw_layout_text Let_def)

lemma pw_draw:
  "draw_qr E f (s\<lparr>st_password := p\<rparr>) scale dims = draw_qr E f s scale dims"
  "draw_label E f (s\<lparr>st_password := p\<rparr>) scale w = draw_label E f s scale w"
  "draw_ring (s\<lparr>st_password := p\<rparr>) cx cy r t = draw_ring s cx cy r t"
  "draw_message E f (s\<lparr>st_password := p\<rparr>) cx cy = draw_message E f s cx cy"
  "draw_typing (s\<lparr>st_password := p\<rparr>) scale w cy r t d = draw_typing s scale w cy r t d"
  "draw_borders (s\<lparr>st_password := p\<rparr>) scale cx cy r t = draw_borders s scale cx cy r t"
  "draw_layout_text E f (s\<lparr>st_password := p\<rparr>) scale w d = draw_layout_text E f s scale w d"
  "draw_button_and_error E f (s\<lparr>st_password := p\<rparr>) scale w d = draw_button_and_error E f s scale w d"
  by (simp_all add: draw_qr_def draw_label_def draw_ring_def draw_message_def draw_typing_def
      draw_borders_def draw_layout_text_def draw_button_and_error_def draw_button_def text_box_def
      highlight_color_def pw_extra pw_qr pw_colors pw_indicator_text pw_layout_text
      Let_def cong: if_cong option.case_cong)

lemma pw_indicator_ops: "indicator_ops E f (s\<lparr>st_password := p\<rparr>) scale dims = indicator_ops E f s scale dims"
  by (simp add: indicator_ops_def pw_draw pw_extra pw_qr pw_draw_indicator Let_def)

lemma pw_indicator_buffer:
  "indicator_buffer i dims (s\<lparr>st_password := p\<rparr>) =
     map_prod id (\<lambda>s. s\<lparr>st_password := p\<rparr>) (indicator_buffer i dims s)"
  by (simp add: indicator_buffer_def update_surface_def split: prod.split)

lemma pw_commit:
  "commit_indicator i pos dims ops (s\<lparr>st_password := p\<rparr>) =
     (commit_indicator i pos dims ops s)\<lparr>st_password := p\<rparr>"
  by (simp add: commit_indicator_def Let_def)

lemma pw_render_frame:
  "render_frame E i (s\<lparr>st_password := p\<rparr>) = map_prod id (\<lambda>s. s\<lparr>st_password := p\<rparr>) (render_frame E i s)"
  by (simp add: render_frame_def render_selection_def render_indicator_def Let_def pw_font pw_selection
      pw_frame pw_indicator_ops pw_indicator_buffer pw_commit pw_list split: prod.split bool.split)

lemma pw_background:
  "render_background i bw bh (s\<lparr>st_password := p\<rparr>) =
     map_prod id (\<lambda>s. s\<lparr>st_password := p\<rparr>) (render_background i bw bh s)"
  by (simp add: render_background_def background_ops_def update_surface_def send_request_def abort_def
      exit_with_def Let_def split: prod.split option.split)

lemma pw_update: "update_surface i g (s\<lparr>st_password := p\<rparr>) = (update_surface i g s)\<lparr>st_password := p\<rparr>"
  by (simp add: update_surface_def)

lemma pw_render: "render E i (s\<lparr>st_password := p\<rparr>) = (render E i s)\<lparr>st_password := p\<rparr>"
proof -
  have sr: "send_request r (s\<lparr>st_password := p\<rparr>) = (send_request r s)\<lparr>st_password := p\<rparr>" for r s
    by (simp add: send_request_def)
  show ?thesis
    by (simp add: render_def Let_def pw_background sr pw_update pw_render_frame
        split: prod.split bool.split)
qed

lemma pw_mark:
  "mark_and_render E i (s\<lparr>st_password := p\<rparr>) = (mark_and_render E i s)\<lparr>st_password := p\<rparr>"
  by (simp add: mark_and_render_def pw_update pw_render alive_def)

lemma pw_damage: "damage_state E (s\<lparr>st_password := p\<rparr>) = (damage_state E s)\<lparr>st_password := p\<rparr>"
proof -
  have "fold (mark_and_render E) is (s\<lparr>st_password := p\<rparr>) = (fold (mark_and_render E) is s)\<lparr>st_password := p\<rparr>"
    for "is"
    by (induction "is" arbitrary: s) (simp_all add: pw_mark)
  then show ?thesis
    by (simp add: damage_state_def)
qed

section \<open>Sizes and rows\<close>

lemma round_to_scale_dvd: "scale dvd round_to_scale scale n"
proof -
  have "n - n smod scale = n sdiv scale * scale"
    by (simp add: minus_sdiv_mult_eq_smod [symmetric])
  then have "round_to_scale scale n = (n sdiv scale + 1) * scale"
    by (simp add: round_to_scale_def algebra_simps)
  then show ?thesis by simp
qed

lemma round_to_scale_bounds:
  assumes "0 < scale" "0 \<le> n"
  shows "n < round_to_scale scale n" "round_to_scale scale n \<le> n + scale"
proof -
  have "n smod scale = n mod scale"
    using assms by (simp add: signed_modulo_int_def signed_divide_int_def sgn_if
        minus_div_mult_eq_mod [symmetric])
  then have "0 \<le> n smod scale" "n smod scale < scale"
    using assms by simp_all
  then show "n < round_to_scale scale n" "round_to_scale scale n \<le> n + scale"
    by (simp_all add: round_to_scale_def)
qed

lemma visible_window_bounds:
  assumes "visible_window count sel = (start, vis)" "0 \<le> count"
  shows "0 \<le> start" "0 \<le> vis" "vis = min count 8" "start + vis \<le> count"
    "0 \<le> sel \<Longrightarrow> sel < count \<Longrightarrow> start \<le> sel \<and> sel < start + vis"
  using assms by (auto simp: visible_window_def Let_def split: if_splits)

lemma visible_rows_set:
  assumes "visible_window (list_count s) (list_sel s) = (start, vis)" "0 \<le> vis"
  shows "set (visible_rows s) = {start..<start + vis}" "length (visible_rows s) = nat vis"
    "distinct (visible_rows s)"
proof -
  show "set (visible_rows s) = {start..<start + vis}"
  proof (rule set_eqI)
    fix i
    have "i \<in> set (visible_rows s) \<longleftrightarrow> (\<exists>k < nat vis. i = start + int k)"
      using assms by (auto simp: visible_rows_def)
    also have "\<dots> \<longleftrightarrow> i \<in> {start..<start + vis}"
    proof
      assume "i \<in> {start..<start + vis}"
      then show "\<exists>k < nat vis. i = start + int k"
        by (intro exI [of _ "nat (i - start)"]) auto
    qed auto
    finally show "i \<in> set (visible_rows s) \<longleftrightarrow> i \<in> {start..<start + vis}" .
  qed
  show "length (visible_rows s) = nat vis" "distinct (visible_rows s)"
    using assms by (auto simp: visible_rows_def distinct_map inj_on_def)
qed

lemma shown_texts_simps [simp]:
  "shown_texts [] = []"
  "shown_texts (a @ b) = shown_texts a @ shown_texts b"
  "shown_texts (c # b) = (case c of ShowText t \<Rightarrow> [t] | _ \<Rightarrow> []) @ shown_texts b"
  "shown_texts (concat bs) = concat (map shown_texts bs)"
proof -
  show "shown_texts (concat bs) = concat (map shown_texts bs)"
    by (induction bs) (simp_all add: shown_texts_def)
qed (simp_all add: shown_texts_def)

lemma shown_selection: "shown_texts (selection_ops E f s scale w) = map (list_name s) (visible_rows s)"
proof -
  have "map (shown_texts \<circ> draw_row E f s scale w) (enumerate n rows) = map (\<lambda>i. [list_name s i]) rows"
    for n rows
    by (induction rows arbitrary: n) (simp_all add: draw_row_def cairo_set_source_u32_def Let_def)
  then show ?thesis
    by (cases f) (simp add: selection_ops_def clear_ops_def configure_font_drawing_def concat_map_singleton)
qed

section \<open>No frame is lost\<close>

lemma create_buffer_mem: "memory_ok env \<Longrightarrow> \<exists>b'. create_buffer env b w h = (Some b', env)"
  by (cases env) (auto simp: memory_ok_def create_buffer_def anonymous_shm_open_def
      anonymous_shm_open_loop.simps [of _ "[]"] Let_def)

lemma get_next_buffer_mem:
  assumes "memory_ok env"
  shows "snd (snd (get_next_buffer env pool w h)) = env"
proof -
  have "\<exists>b'. create_buffer env b w h = (Some b', env)" for b
    by (rule create_buffer_mem [OF assms])
  then show ?thesis
    by (auto simp: get_next_buffer_def Let_def split: option.split prod.split) (metis prod.inject)+
qed

lemma indicator_buffer_effect:
  assumes "memory_ok (st_shm s)"
  shows "st_shm (snd (indicator_buffer i dims s)) = st_shm s"
    "\<exists>pool. st_surfaces (snd (indicator_buffer i dims s)) =
       (st_surfaces s)[i := (st_surfaces s ! i)\<lparr>sf_indicator_buffers := pool\<rparr>]"
  using get_next_buffer_mem [OF assms, of "sf_indicator_buffers (st_surfaces s ! i)"
      "word_of_int (fst dims)" "word_of_int (snd dims)"]
  by (auto simp: indicator_buffer_def update_surface_def split: prod.split)

lemma render_frame_effect:
  assumes "memory_ok (st_shm s)"
  shows "st_shm (snd (render_frame E i s)) = st_shm s"
    "\<exists>pool. st_surfaces (snd (render_frame E i s)) =
       (st_surfaces s)[i := (st_surfaces s ! i)\<lparr>sf_indicator_buffers := pool\<rparr>]"
proof -
  let ?r = "\<lambda>dims pos ops. snd (case indicator_buffer i dims s of (False, s') \<Rightarrow> (False, s')
      | (True, s') \<Rightarrow> (True, commit_indicator i pos dims ops s'))"
  have r: "st_shm (?r dims pos ops) = st_shm s"
    "\<exists>pool. st_surfaces (?r dims pos ops) =
       (st_surfaces s)[i := (st_surfaces s ! i)\<lparr>sf_indicator_buffers := pool\<rparr>]" for dims pos ops
    using indicator_buffer_effect [OF assms, of i dims]
    by (auto simp: commit_indicator_def Let_def split: prod.split bool.split)
  then show "st_shm (snd (render_frame E i s)) = st_shm s"
    "\<exists>pool. st_surfaces (snd (render_frame E i s)) =
       (st_surfaces s)[i := (st_surfaces s ! i)\<lparr>sf_indicator_buffers := pool\<rparr>]"
    by (simp_all add: render_frame_def render_selection_def render_indicator_def Let_def)
qed

lemma render_background_effect:
  assumes "memory_ok (st_shm s)" "render_background i bw bh s = (ok, s1)"
    "arg_mode (st_args s) \<noteq> BACKGROUND_MODE_INVALID"
  shows "ok" "st_shm s1 = st_shm s"
    "\<exists>w h. st_surfaces s1 = (st_surfaces s)[i := (st_surfaces s ! i)
       \<lparr>sf_last_buffer_width := w, sf_last_buffer_height := h\<rparr>]"
proof -
  obtain b where c: "create_buffer (st_shm s) empty_buffer (word_of_int bw) (word_of_int bh) = (Some b, st_shm s)"
    using create_buffer_mem [OF assms(1)] by blast
  obtain ops where o: "background_ops s (st_surfaces s ! i) bw bh = Some ops"
    using background_ops_None assms(3) by blast
  have same: "(st_surfaces s)[i := (st_surfaces s ! i)\<lparr>
      sf_last_buffer_width := sf_last_buffer_width (st_surfaces s ! i),
      sf_last_buffer_height := sf_last_buffer_height (st_surfaces s ! i)\<rparr>] = st_surfaces s"
    by simp
  show "ok" "st_shm s1 = st_shm s"
    using assms(2) c o
    by (auto simp: render_background_def Let_def update_surface_def send_request_def split: if_splits)
  have "st_surfaces s1 = (st_surfaces s)[i := (st_surfaces s ! i)
      \<lparr>sf_last_buffer_width := bw, sf_last_buffer_height := bh\<rparr>] \<or> st_surfaces s1 = st_surfaces s"
    using assms(2) c o
    by (auto simp: render_background_def Let_def update_surface_def send_request_def split: if_splits)
  then show "\<exists>w h. st_surfaces s1 = (st_surfaces s)[i := (st_surfaces s ! i)
       \<lparr>sf_last_buffer_width := w, sf_last_buffer_height := h\<rparr>]"
    using same by metis
qed

lemma render_effect:
  assumes "memory_ok (st_shm s)" "i < length (st_surfaces s)" "configured (st_surfaces s ! i)"
    "sf_dirty (st_surfaces s ! i)" "\<not> sf_frame (st_surfaces s ! i)"
    "arg_mode (st_args s) \<noteq> BACKGROUND_MODE_INVALID"
  shows "st_shm (render E i s) = st_shm s"
    "sf_frame (st_surfaces (render E i s) ! i)" "\<not> sf_dirty (st_surfaces (render E i s) ! i)"
    "j \<noteq> i \<Longrightarrow> st_surfaces (render E i s) ! j = st_surfaces s ! j"
proof -
  let ?sf = "st_surfaces s ! i"
  obtain ok s1 where b: "render_background i (u32_int (sf_width ?sf * word_of_int (sf_scale ?sf)))
      (u32_int (sf_height ?sf * word_of_int (sf_scale ?sf))) s = (ok, s1)"
    using prod.exhaust by blast
  define s2 where "s2 = send_request (BufferScale (sf_output_global_name ?sf) (sf_scale ?sf)) s1"
  define s3 where "s3 = snd (render_frame E i s2)"
  note be = render_background_effect [OF assms(1) b assms(6)]
  have s2: "st_shm s2 = st_shm s" "st_surfaces s2 = st_surfaces s1"
    using be by (simp_all add: s2_def send_request_def)
  obtain pool where s3: "st_shm s3 = st_shm s"
    "st_surfaces s3 = (st_surfaces s2)[i := (st_surfaces s2 ! i)\<lparr>sf_indicator_buffers := pool\<rparr>]"
    using render_frame_effect [of s2 E i] s2 assms(1) by (auto simp: s3_def)
  have r: "render E i s = (update_surface i (\<lambda>sf. sf\<lparr>sf_dirty := False, sf_frame := True\<rparr>) s3)
      \<lparr>st_wire := st_wire (update_surface i (\<lambda>sf. sf\<lparr>sf_dirty := False, sf_frame := True\<rparr>) s3) @
         [RequestFrame (sf_output_global_name ?sf), CommitSurface (sf_output_global_name ?sf)]\<rparr>"
    using assms(3-5) b be(1)
    by (simp add: render_def Let_def configured_def s2_def s3_def case_prod_unfold)
  have len: "length (st_surfaces s1) = length (st_surfaces s)"
    using be(3) by auto
  show "st_shm (render E i s) = st_shm s"
    using s3 by (simp add: r update_surface_def)
  show "sf_frame (st_surfaces (render E i s) ! i)" "\<not> sf_dirty (st_surfaces (render E i s) ! i)"
    using s2 s3 len assms(2) by (simp_all add: r update_surface_def)
  show "st_surfaces (render E i s) ! j = st_surfaces s ! j" if "j \<noteq> i"
    using s2 s3 be(3) that by (auto simp: r update_surface_def)
qed

lemma render_idle:
  assumes "\<not> configured (st_surfaces s ! i) \<or> \<not> sf_dirty (st_surfaces s ! i) \<or> sf_frame (st_surfaces s ! i)"
  shows "render E i s = s"
  using assms by (auto simp: render_def configured_def Let_def)

lemma mark_effect:
  assumes "memory_ok (st_shm s)" "alive s" "arg_mode (st_args s) \<noteq> BACKGROUND_MODE_INVALID"
    "i < length (st_surfaces s)"
  shows "st_shm (mark_and_render E i s) = st_shm s"
    "configured (st_surfaces s ! i) \<Longrightarrow> sf_frame (st_surfaces (mark_and_render E i s) ! i)"
    "j \<noteq> i \<Longrightarrow> st_surfaces (mark_and_render E i s) ! j = st_surfaces s ! j"
proof -
  define s1 where "s1 = update_surface i (\<lambda>sf. sf\<lparr>sf_dirty := True\<rparr>) s"
  have s1: "st_shm s1 = st_shm s" "st_surfaces s1 ! i = (st_surfaces s ! i)\<lparr>sf_dirty := True\<rparr>"
    "j \<noteq> i \<Longrightarrow> st_surfaces s1 ! j = st_surfaces s ! j" "i < length (st_surfaces s1)"
    "st_args s1 = st_args s" for j
    using assms(4) by (simp_all add: s1_def update_surface_def)
  have c: "configured (st_surfaces s1 ! i) = configured (st_surfaces s ! i)"
    by (simp add: s1 configured_def)
  have "st_shm (render E i s1) = st_shm s1 \<and>
    (configured (st_surfaces s ! i) \<longrightarrow> sf_frame (st_surfaces (render E i s1) ! i)) \<and>
    (j \<noteq> i \<longrightarrow> st_surfaces (render E i s1) ! j = st_surfaces s1 ! j)" for j
  proof (cases "configured (st_surfaces s ! i) \<and> \<not> sf_frame (st_surfaces s ! i)")
    case True
    then show ?thesis
      using render_effect(1-3) [of s1 i E] render_effect(4) [of s1 i j E] assms(1,3) s1 c by simp
  next
    case False
    then have "render E i s1 = s1"
      using c s1 by (intro render_idle) auto
    then show ?thesis
      using False s1 by simp
  qed
  then show "st_shm (mark_and_render E i s) = st_shm s"
    "configured (st_surfaces s ! i) \<Longrightarrow> sf_frame (st_surfaces (mark_and_render E i s) ! i)"
    "j \<noteq> i \<Longrightarrow> st_surfaces (mark_and_render E i s) ! j = st_surfaces s ! j"
    using s1 assms(2) by (simp_all add: mark_and_render_def s1_def [symmetric])
qed

lemma fold_mark_effect:
  assumes "memory_ok (st_shm s)" "alive s" "arg_mode (st_args s) \<noteq> BACKGROUND_MODE_INVALID"
    "\<forall>i \<in> set is. i < length (st_surfaces s)" "distinct is"
  shows "(i \<in> set is \<longrightarrow> configured (st_surfaces s ! i) \<longrightarrow>
      sf_frame (st_surfaces (fold (mark_and_render E) is s) ! i)) \<and>
    (i \<notin> set is \<longrightarrow> st_surfaces (fold (mark_and_render E) is s) ! i = st_surfaces s ! i)"
  using assms
proof (induction "is" arbitrary: s)
  case (Cons k ks)
  note m = mark_effect(1) [OF Cons.prems(1-3), of k E] mark_effect(2) [OF Cons.prems(1-3), of k E]
    mark_effect(3) [OF Cons.prems(1-3), of k _ E]
  have "alive (mark_and_render E k s)" "st_args (mark_and_render E k s) = st_args s"
    using Cons.prems(2-4) rendered_exit [OF rendered_mark] by (simp_all add: alive_def mark_fields)
  moreover have "length (st_surfaces (mark_and_render E k s)) = length (st_surfaces s)"
    using Cons.prems(4) by (simp add: mark_fields)
  ultimately have ih: "(i \<in> set ks \<longrightarrow> configured (st_surfaces (mark_and_render E k s) ! i) \<longrightarrow>
      sf_frame (st_surfaces (fold (mark_and_render E) ks (mark_and_render E k s)) ! i)) \<and>
    (i \<notin> set ks \<longrightarrow> st_surfaces (fold (mark_and_render E) ks (mark_and_render E k s)) ! i =
       st_surfaces (mark_and_render E k s) ! i)"
    using Cons m(1) by (intro Cons.IH) auto
  show ?case
    using ih m(2,3) Cons.prems(4,5) by (cases "i = k") auto
qed simp

lemma damage_frames:
  assumes "memory_ok (st_shm s)" "alive s" "arg_mode (st_args s) \<noteq> BACKGROUND_MODE_INVALID" "i < length (st_surfaces s)" "configured (st_surfaces s ! i)"
  shows "sf_frame (st_surfaces (damage_state E s) ! i)"
  using fold_mark_effect [OF assms(1-3), of "[0..<length (st_surfaces s)]" i E] assms(4,5)
  by (simp add: damage_state_def)

section \<open>Properties\<close>


text \<open>
  The selection list. Every row that is drawn is an index inside the array, no row is drawn twice,
  at most eight are drawn, the selected one is among them, and the texts shown are the names of those
  rows in order.\<close>

theorem selection_rows_correct:
  assumes "lists_wf s"
  shows "(\<forall>i \<in> set (visible_rows s). 0 \<le> i \<and>
      nat i < (if is_broker_stage s then length (st_authd_brokers s) else length (st_authd_auth_modes s))) \<and>
    distinct (visible_rows s) \<and> int (length (visible_rows s)) = min (list_count s) 8 \<and>
    (0 \<le> list_sel s \<and> list_sel s < list_count s \<longrightarrow> list_sel s \<in> set (visible_rows s)) \<and>
    shown_texts (selection_ops E f s scale w) = map (list_name s) (visible_rows s)"
proof -
  obtain start vis where w: "visible_window (list_count s) (list_sel s) = (start, vis)"
    using prod.exhaust by blast
  have count: "list_count s =
      int (if is_broker_stage s then length (st_authd_brokers s) else length (st_authd_auth_modes s))"
    using assms by (simp add: list_count_def lists_wf_def)
  then have "0 \<le> list_count s" by simp
  note b = visible_window_bounds [OF w this]
  note r = visible_rows_set [OF w b(2)]
  have "0 \<le> i \<and> nat i < (if is_broker_stage s then length (st_authd_brokers s) else length (st_authd_auth_modes s))"
    if "i \<in> set (visible_rows s)" for i
    using that r(1) b(1,4) count by (auto simp: nat_less_iff)
  moreover have "int (length (visible_rows s)) = min (list_count s) 8"
    using r(2) b(2,3) by simp
  moreover have "0 \<le> list_sel s \<and> list_sel s < list_count s \<longrightarrow> list_sel s \<in> set (visible_rows s)"
    using r(1) b(5) by simp
  ultimately show ?thesis
    using r(3) shown_selection by blast
qed

theorem selection_rows_correct_witness:
  "visible_rows (sample_state\<lparr>st_authd_active := True, st_authd_stage := AUTHD_STAGE_BROKER,
     st_authd_brokers := replicate 20 \<lparr>br_id = None, br_name = None\<rparr>, st_authd_num_brokers := 20,
     st_authd_sel_broker := 19\<rparr>) = [12, 13, 14, 15, 16, 17, 18, 19] \<and>
   int (length (visible_rows (sample_state\<lparr>st_authd_active := True, st_authd_stage := AUTHD_STAGE_BROKER,
     st_authd_brokers := replicate 20 \<lparr>br_id = None, br_name = None\<rparr>, st_authd_num_brokers := 20,
     st_authd_sel_broker := 19\<rparr>))) = 8"
proof -
  define s where "s = sample_state\<lparr>st_authd_active := True, st_authd_stage := AUTHD_STAGE_BROKER,
     st_authd_brokers := replicate 20 \<lparr>br_id = None, br_name = None\<rparr>, st_authd_num_brokers := 20,
     st_authd_sel_broker := 19\<rparr>"
  have "lists_wf s" "list_count s = 20" "list_sel s = 19"
    by (simp_all add: s_def lists_wf_def sample_state_def list_count_def list_sel_def is_broker_stage_def)
  moreover from this have "visible_rows s = [12, 13, 14, 15, 16, 17, 18, 19]"
    by (simp add: visible_rows_def visible_window_def upt_rec)
  ultimately show ?thesis
    using selection_rows_correct [of s undefined undefined undefined undefined]
    by (simp add: s_def [symmetric])
qed

text \<open>
  The size of the indicator buffer is a multiple of the buffer scale in both directions, as the
  protocol requires, in every stage; rounding adds at least one pixel and at most one scale unit to
  a size that is not negative.\<close>

theorem indicator_size_multiple_of_scale:
  "scale dvd fst (frame_size E f s scale d) \<and> scale dvd snd (frame_size E f s scale d) \<and>
   scale dvd fst (selection_size E f s scale) \<and> scale dvd snd (selection_size E f s scale) \<and>
   (0 < scale \<and> 0 \<le> n \<longrightarrow> n < round_to_scale scale n \<and> round_to_scale scale n \<le> n + scale)"
  by (simp add: frame_size_def selection_size_def Let_def round_to_scale_dvd round_to_scale_bounds)

theorem indicator_size_multiple_of_scale_witness:
  "round_to_scale 2 121 = 122 \<and> 121 < round_to_scale 2 121"
  using indicator_size_multiple_of_scale [of 2 undefined undefined undefined undefined 121]
  by (simp add: round_to_scale_def signed_modulo_int_def signed_divide_int_def)



end
