(* ===== verification/Input.thy ===== *)
theory Input
  imports Render
begin

text \<open>
  \<^verbatim>\<open>src/password.c\<close>, the part above the buffer: the three timers of the indicator, submitting the
  password, and the key handler with the two selection stages of authd.
\<close>

section \<open>Keys\<close>

text \<open>The key symbols of the X keyboard standard that the handler names.\<close>

definition XKB_KEY_BackSpace :: u32 where "XKB_KEY_BackSpace = 0xff08"
definition XKB_KEY_Tab :: u32 where "XKB_KEY_Tab = 0xff09"
definition XKB_KEY_Return :: u32 where "XKB_KEY_Return = 0xff0d"
definition XKB_KEY_Escape :: u32 where "XKB_KEY_Escape = 0xff1b"
definition XKB_KEY_Up :: u32 where "XKB_KEY_Up = 0xff52"
definition XKB_KEY_Down :: u32 where "XKB_KEY_Down = 0xff54"
definition XKB_KEY_KP_Enter :: u32 where "XKB_KEY_KP_Enter = 0xff8d"
definition XKB_KEY_Delete :: u32 where "XKB_KEY_Delete = 0xffff"
definition XKB_KEY_c :: u32 where "XKB_KEY_c = 0x63"
definition XKB_KEY_d :: u32 where "XKB_KEY_d = 0x64"
definition XKB_KEY_j :: u32 where "XKB_KEY_j = 0x6a"
definition XKB_KEY_m :: u32 where "XKB_KEY_m = 0x6d"
definition XKB_KEY_u :: u32 where "XKB_KEY_u = 0x75"

text \<open>Shift, Control, Caps Lock, Meta, Alt and Super, left and right.\<close>

definition modifier_keys :: "u32 list" where
  "modifier_keys = [0xffe5, 0xffe1, 0xffe2, 0xffe3, 0xffe4, 0xffe7, 0xffe8, 0xffe9, 0xffea, 0xffeb, 0xffec]"

lemmas key_defs =
  XKB_KEY_BackSpace_def XKB_KEY_Tab_def XKB_KEY_Return_def XKB_KEY_Escape_def XKB_KEY_Up_def
  XKB_KEY_Down_def XKB_KEY_KP_Enter_def XKB_KEY_Delete_def XKB_KEY_c_def XKB_KEY_d_def
  XKB_KEY_j_def XKB_KEY_m_def XKB_KEY_u_def modifier_keys_def

section \<open>Timers\<close>

definition set_input_idle :: "libs \<Rightarrow> swaylock_state \<Rightarrow> swaylock_state" where
  "set_input_idle E s =
     damage_state E (s\<lparr>st_input_idle_timer := None, st_input_state := INPUT_STATE_IDLE\<rparr>)"

definition set_auth_idle :: "libs \<Rightarrow> swaylock_state \<Rightarrow> swaylock_state" where
  "set_auth_idle E s =
     damage_state E (s\<lparr>st_auth_idle_timer := None, st_auth_state := AUTH_STATE_IDLE\<rparr>)"

definition schedule_input_idle :: "swaylock_state \<Rightarrow> swaylock_state" where
  "schedule_input_idle s =
     (case add_timer 1500 Set_input_idle (remove_timer (st_input_idle_timer s) s) of
        (t, s') \<Rightarrow> s'\<lparr>st_input_idle_timer := t\<rparr>)"

definition cancel_input_idle :: "swaylock_state \<Rightarrow> swaylock_state" where
  "cancel_input_idle s = (remove_timer (st_input_idle_timer s) s)\<lparr>st_input_idle_timer := None\<rparr>"

definition schedule_auth_idle :: "swaylock_state \<Rightarrow> swaylock_state" where
  "schedule_auth_idle s =
     (case add_timer 3000 Set_auth_idle (remove_timer (st_auth_idle_timer s) s) of
        (t, s') \<Rightarrow> s'\<lparr>st_auth_idle_timer := t\<rparr>)"

definition clear_password :: "libs \<Rightarrow> swaylock_state \<Rightarrow> swaylock_state" where
  "clear_password E s =
     (let s1 = schedule_input_idle
                 (s\<lparr>st_clear_password_timer := None, st_input_state := INPUT_STATE_CLEAR\<rparr>)
      in damage_state E (s1\<lparr>st_password := clear_password_buffer (st_password s1)\<rparr>))"

definition schedule_password_clear :: "swaylock_state \<Rightarrow> swaylock_state" where
  "schedule_password_clear s =
     (case add_timer 10000 Clear_password (remove_timer (st_clear_password_timer s) s) of
        (t, s') \<Rightarrow> s'\<lparr>st_clear_password_timer := t\<rparr>)"

definition cancel_password_clear :: "swaylock_state \<Rightarrow> swaylock_state" where
  "cancel_password_clear s =
     (remove_timer (st_clear_password_timer s) s)\<lparr>st_clear_password_timer := None\<rparr>"

section \<open>Submitting\<close>

definition submit_password :: "libs \<Rightarrow> swaylock_state \<Rightarrow> swaylock_state" where
  "submit_password E s =
     (if arg_ignore_empty (st_args s) \<and> pw_len (st_password s) = 0 then s
      else if st_auth_state s = AUTH_STATE_VALIDATING then s
      else
        (let s1 = cancel_input_idle (cancel_password_clear
                    (s\<lparr>st_input_state := INPUT_STATE_IDLE, st_auth_state := AUTH_STATE_VALIDATING\<rparr>));
             (ok, pw, s2) = write_comm_password s1 (st_password s1);
             s3 = s2\<lparr>st_password := pw\<rparr>;
             s4 = (if ok then s3
                   else schedule_auth_idle (s3\<lparr>st_auth_state := AUTH_STATE_INVALID\<rparr>))
         in damage_state E s4))"

text \<open>The sum is computed in 32-bit unsigned arithmetic.\<close>

definition update_highlight :: "swaylock_state \<Rightarrow> swaylock_state" where
  "update_highlight s =
     (case next_result 0 (st_rand s) of (r, rs) \<Rightarrow>
        s\<lparr>st_highlight_start :=
            (st_highlight_start s + word_of_nat (r mod 1024) + 512) mod 2048, st_rand := rs\<rparr>)"

section \<open>The key handler\<close>

definition send_main :: "byte \<Rightarrow> byte list option \<Rightarrow> nat \<Rightarrow> swaylock_state \<Rightarrow> swaylock_state" where
  "send_main ty payload len s = snd (comm_main_write s ty payload len)"

text \<open>Confirming a selection: the identifier is sent with its terminating NUL.\<close>

definition send_selection :: "byte \<Rightarrow> string option \<Rightarrow> swaylock_state \<Rightarrow> swaylock_state" where
  "send_selection ty ident s =
     (case ident of
        None \<Rightarrow> s
      | Some i \<Rightarrow> send_main ty (Some (bytes_of_string i @ [0])) (length i + 1) s)"

definition selection_up :: "swaylock_state \<Rightarrow> swaylock_state" where
  "selection_up s =
     (if st_authd_stage s = AUTHD_STAGE_BROKER then
        (if st_authd_sel_broker s > 0 then s\<lparr>st_authd_sel_broker := st_authd_sel_broker s - 1\<rparr> else s)
      else
        (if st_authd_sel_auth_mode s > 0
         then s\<lparr>st_authd_sel_auth_mode := st_authd_sel_auth_mode s - 1\<rparr> else s))"

definition selection_down :: "swaylock_state \<Rightarrow> swaylock_state" where
  "selection_down s =
     (if st_authd_stage s = AUTHD_STAGE_BROKER then
        (if st_authd_sel_broker s < st_authd_num_brokers s - 1
         then s\<lparr>st_authd_sel_broker := st_authd_sel_broker s + 1\<rparr> else s)
      else
        (if st_authd_sel_auth_mode s < st_authd_num_auth_modes s - 1
         then s\<lparr>st_authd_sel_auth_mode := st_authd_sel_auth_mode s + 1\<rparr> else s))"

definition selection_confirm :: "swaylock_state \<Rightarrow> swaylock_state" where
  "selection_confirm s =
     (if st_authd_stage s = AUTHD_STAGE_BROKER then
        (let sel = st_authd_sel_broker s in
         if sel \<ge> 0 \<and> sel < st_authd_num_brokers s
         then send_selection COMM_MSG_BROKER_SEL (br_id (st_authd_brokers s ! nat sel)) s else s)
      else
        (let sel = st_authd_sel_auth_mode s in
         if sel \<ge> 0 \<and> sel < st_authd_num_auth_modes s
         then send_selection COMM_MSG_AUTH_MODE_SEL (am_id (st_authd_auth_modes s ! nat sel)) s else s))"

text \<open>
  The first part of the handler, for the stages of authd: \<open>None\<close> when it does not return and the
  switch on the key is reached.
\<close>

definition handle_authd_key :: "libs \<Rightarrow> u32 \<Rightarrow> swaylock_state \<Rightarrow> swaylock_state option" where
  "handle_authd_key E keysym s =
     (if \<not> st_authd_active s then None
      else if st_authd_stage s = AUTHD_STAGE_BROKER \<or> st_authd_stage s = AUTHD_STAGE_AUTH_MODE then
        (if keysym = XKB_KEY_Up then Some (damage_state E (selection_up s))
         else if keysym = XKB_KEY_Down then Some (damage_state E (selection_down s))
         else if keysym = XKB_KEY_Return \<or> keysym = XKB_KEY_KP_Enter then Some (selection_confirm s)
         else if keysym = XKB_KEY_Escape then Some (send_main COMM_MSG_CANCEL None 0 s)
         else None)
      else if st_authd_stage s = AUTHD_STAGE_CHALLENGE then
        (if keysym = XKB_KEY_Tab \<and> ul_button (st_authd_layout s) \<noteq> None
         then Some (damage_state E (send_main COMM_MSG_BUTTON None 0 s)) else None)
      else None)"

definition clear_input :: "libs \<Rightarrow> swaylock_state \<Rightarrow> swaylock_state" where
  "clear_input E s =
     damage_state E (schedule_input_idle (cancel_password_clear
       (s\<lparr>st_password := clear_password_buffer (st_password s), st_input_state := INPUT_STATE_CLEAR\<rparr>)))"

definition backspace_key :: "libs \<Rightarrow> swaylock_state \<Rightarrow> swaylock_state" where
  "backspace_key E s =
     (if xkb_control (st_xkb s) then clear_input E s
      else
        (case backspace (st_password s) of (pw, removed) \<Rightarrow>
           (let s1 = s\<lparr>st_password := pw\<rparr>;
                s2 = (if removed \<and> pw_len pw \<noteq> 0
                      then update_highlight (schedule_password_clear
                             (s1\<lparr>st_input_state := INPUT_STATE_BACKSPACE\<rparr>))
                      else cancel_password_clear (s1\<lparr>st_input_state := INPUT_STATE_CLEAR\<rparr>))
            in damage_state E (schedule_input_idle s2))))"

definition modifier_key :: "libs \<Rightarrow> swaylock_state \<Rightarrow> swaylock_state" where
  "modifier_key E s =
     damage_state E (schedule_input_idle (schedule_password_clear
       (s\<lparr>st_input_state := INPUT_STATE_NEUTRAL\<rparr>)))"

definition letter_key :: "libs \<Rightarrow> u32 \<Rightarrow> swaylock_state \<Rightarrow> swaylock_state" where
  "letter_key E codepoint s =
     (if codepoint \<noteq> 0 then
        damage_state E (update_highlight (schedule_input_idle (schedule_password_clear
          (s\<lparr>st_password := append_ch (st_password s) codepoint,
             st_input_state := INPUT_STATE_LETTER\<rparr>))))
      else s)"

text \<open>The switch; a key of two labels falls through to the letters unless Control is held.\<close>

definition handle_plain_key :: "libs \<Rightarrow> u32 \<Rightarrow> u32 \<Rightarrow> swaylock_state \<Rightarrow> swaylock_state" where
  "handle_plain_key E keysym codepoint s =
     (if keysym = XKB_KEY_KP_Enter \<or> keysym = XKB_KEY_Return then submit_password E s
      else if keysym = XKB_KEY_Delete \<or> keysym = XKB_KEY_BackSpace then backspace_key E s
      else if keysym = XKB_KEY_Escape then clear_input E s
      else if keysym \<in> set modifier_keys then modifier_key E s
      else if (keysym = XKB_KEY_m \<or> keysym = XKB_KEY_d \<or> keysym = XKB_KEY_j) \<and> xkb_control (st_xkb s)
      then submit_password E s
      else if (keysym = XKB_KEY_c \<or> keysym = XKB_KEY_u) \<and> xkb_control (st_xkb s) then clear_input E s
      else letter_key E codepoint s)"

definition swaylock_handle_key :: "libs \<Rightarrow> u32 \<Rightarrow> u32 \<Rightarrow> swaylock_state \<Rightarrow> swaylock_state" where
  "swaylock_handle_key E keysym codepoint s =
     (case handle_authd_key E keysym s of
        Some s' \<Rightarrow> s'
      | None \<Rightarrow> handle_plain_key E keysym codepoint s)"

section \<open>Invariant\<close>

text \<open>The slot in which the address of the pending timer with a given callback is kept.\<close>

definition slot_of :: "swaylock_state \<Rightarrow> timer_callback \<Rightarrow> nat option" where
  "slot_of s cb =
     (case cb of
        Set_input_idle \<Rightarrow> st_input_idle_timer s
      | Set_auth_idle \<Rightarrow> st_auth_idle_timer s
      | Clear_password \<Rightarrow> st_clear_password_timer s
      | Keyboard_repeat k \<Rightarrow>
          if k < length (st_seats s) then seat_repeat_timer (st_seats s ! k) else None)"

text \<open>
  Every slot names the one live timer with its callback or is empty when there is none. While the
  callback of a timer \<open>f\<close> runs, that timer is still in the list but belongs to no slot.
\<close>

definition timers_ok :: "nat option \<Rightarrow> swaylock_state \<Rightarrow> bool" where
  "timers_ok f s \<longleftrightarrow> loop_wf (st_eventloop s) \<and>
     (\<forall>j. f = Some j \<longrightarrow> live (st_eventloop s) j \<noteq> None) \<and>
     (\<forall>cb. slot_ok (tms.others f (st_eventloop s)) cb (slot_of s cb))"

definition sel_ok :: "int \<Rightarrow> int \<Rightarrow> bool" where
  "sel_ok sel count \<longleftrightarrow> -1 \<le> sel \<and> (sel < count \<or> sel \<le> 0)"

text \<open>The rest of the invariant: password buffer, lists and selections, counters.\<close>

definition data_ok :: "swaylock_state \<Rightarrow> bool" where
  "data_ok s \<longleftrightarrow> (\<exists>cps. pw_repr (st_password s) cps) \<and> lists_wf s \<and>
     sel_ok (st_authd_sel_broker s) (st_authd_num_brokers s) \<and>
     sel_ok (st_authd_sel_auth_mode s) (st_authd_num_auth_modes s) \<and>
     st_highlight_start s < 2048 \<and> 0 \<le> st_failed_attempts s"

definition main_inv :: "nat option \<Rightarrow> swaylock_state \<Rightarrow> bool" where
  "main_inv f s \<longleftrightarrow> timers_ok f s \<and> data_ok s"

text \<open>Setting a timer again: the parts of the state that change.\<close>

definition resched :: "int \<Rightarrow> timer_callback \<Rightarrow> swaylock_state \<Rightarrow>
    (timer_callback, fd_callback) loop \<times> nat option" where
  "resched ms cb s =
     tms.reschedule (st_eventloop s) (slot_of s cb) (fst (next_result True (st_timer_alloc s)))
       (fst (next_result \<lparr>tv_sec = 0, tv_nsec = 0\<rparr> (st_clock s))) ms cb"

definition used_clock :: "swaylock_state \<Rightarrow> timespec list" where
  "used_clock s = snd (next_result \<lparr>tv_sec = 0, tv_nsec = 0\<rparr> (st_clock s))"

definition used_alloc :: "swaylock_state \<Rightarrow> bool list" where
  "used_alloc s = snd (next_result True (st_timer_alloc s))"

text \<open>The keys that the stages of authd take for themselves.\<close>

definition authd_takes :: "swaylock_state \<Rightarrow> u32 \<Rightarrow> bool" where
  "authd_takes s keysym \<longleftrightarrow> st_authd_active s \<and>
     (in_selection s \<and> keysym \<in> {XKB_KEY_Up, XKB_KEY_Down, XKB_KEY_Return, XKB_KEY_KP_Enter, XKB_KEY_Escape} \<or>
      st_authd_stage s = AUTHD_STAGE_CHALLENGE \<and> keysym = XKB_KEY_Tab \<and>
        ul_button (st_authd_layout s) \<noteq> None)"

definition submits :: "swaylock_state \<Rightarrow> u32 list \<Rightarrow> bool" where
  "submits s cps \<longleftrightarrow> \<not> (arg_ignore_empty (st_args s) \<and> cps = []) \<and> st_auth_state s \<noteq> AUTH_STATE_VALIDATING"

text \<open>What a key does to the text that has been typed.\<close>

definition key_text :: "swaylock_state \<Rightarrow> u32 \<Rightarrow> u32 \<Rightarrow> u32 list \<Rightarrow> u32 list" where
  "key_text s keysym codepoint cps =
     (let control = xkb_control (st_xkb s) in
      if authd_takes s keysym then cps
      else if keysym \<in> {XKB_KEY_Return, XKB_KEY_KP_Enter} \<or>
              control \<and> keysym \<in> {XKB_KEY_m, XKB_KEY_d, XKB_KEY_j}
      then (if submits s cps then [] else cps)
      else if keysym = XKB_KEY_Escape \<or> control \<and> keysym \<in> {XKB_KEY_c, XKB_KEY_u} then []
      else if keysym \<in> {XKB_KEY_Delete, XKB_KEY_BackSpace} then (if control then [] else butlast cps)
      else if keysym \<in> set modifier_keys \<or> codepoint = 0 then cps
      else spec_append (pw_buffer_len (st_password s)) cps codepoint)"

section \<open>Timer operations as record updates\<close>

lemma remove_timer_eq: "remove_timer slot s = s\<lparr>st_eventloop := tms.cancel (st_eventloop s) slot\<rparr>"
  by (simp add: remove_timer_def tms.cancel_def split: option.split)

lemma schedule_input_idle_eq:
  "schedule_input_idle s = s\<lparr>st_eventloop := fst (resched 1500 Set_input_idle s),
     st_clock := used_clock s, st_timer_alloc := used_alloc s,
     st_input_idle_timer := snd (resched 1500 Set_input_idle s)\<rparr>"
  by (simp add: schedule_input_idle_def add_timer_def remove_timer_eq resched_def tms.reschedule_def
      slot_of_def used_clock_def used_alloc_def Let_def case_prod_unfold)

lemma schedule_auth_idle_eq:
  "schedule_auth_idle s = s\<lparr>st_eventloop := fst (resched 3000 Set_auth_idle s),
     st_clock := used_clock s, st_timer_alloc := used_alloc s,
     st_auth_idle_timer := snd (resched 3000 Set_auth_idle s)\<rparr>"
  by (simp add: schedule_auth_idle_def add_timer_def remove_timer_eq resched_def tms.reschedule_def
      slot_of_def used_clock_def used_alloc_def Let_def case_prod_unfold)

lemma schedule_password_clear_eq:
  "schedule_password_clear s = s\<lparr>st_eventloop := fst (resched 10000 Clear_password s),
     st_clock := used_clock s, st_timer_alloc := used_alloc s,
     st_clear_password_timer := snd (resched 10000 Clear_password s)\<rparr>"
  by (simp add: schedule_password_clear_def add_timer_def remove_timer_eq resched_def
      tms.reschedule_def slot_of_def used_clock_def used_alloc_def Let_def case_prod_unfold)

lemma cancel_input_idle_eq:
  "cancel_input_idle s = s\<lparr>st_eventloop := tms.cancel (st_eventloop s) (st_input_idle_timer s),
     st_input_idle_timer := None\<rparr>"
  by (simp add: cancel_input_idle_def remove_timer_eq)

lemma cancel_password_clear_eq:
  "cancel_password_clear s = s\<lparr>st_eventloop := tms.cancel (st_eventloop s) (st_clear_password_timer s),
     st_clear_password_timer := None\<rparr>"
  by (simp add: cancel_password_clear_def remove_timer_eq)

lemma update_highlight_eq:
  "update_highlight s = s\<lparr>st_highlight_start :=
     (st_highlight_start s + word_of_nat (fst (next_result 0 (st_rand s)) mod 1024) + 512) mod 2048,
     st_rand := snd (next_result 0 (st_rand s))\<rparr>"
  by (simp add: update_highlight_def case_prod_unfold)

lemma fds_cancel [simp]:
  "lp_fds (tms.cancel l slot) = lp_fds l" "lp_fd_events (tms.cancel l slot) = lp_fd_events l"
  by (simp_all add: tms.cancel_def loop_remove_timer_def case_prod_unfold split: option.split)

lemma fds_resched [simp]:
  "lp_fds (fst (resched ms cb s)) = lp_fds (st_eventloop s)"
  "lp_fd_events (fst (resched ms cb s)) = lp_fd_events (st_eventloop s)"
  by (simp_all add: resched_def tms.reschedule_def loop_add_timer_def)

lemmas timer_eqs = schedule_input_idle_eq schedule_auth_idle_eq schedule_password_clear_eq
  cancel_input_idle_eq cancel_password_clear_eq update_highlight_eq

section \<open>Writing changes the pipe only\<close>

lemma comm_write_shape: "\<exists>p sch. snd (comm_write io ty payload n) = io\<lparr>io_out := p, io_wr := sch\<rparr>"
  by (auto simp: comm_write_def split: prod.split)

lemma write_comm_password_shape:
  "\<exists>p sch mem sp ms. snd (snd (write_comm_password io pw)) =
     io\<lparr>io_out := p, io_wr := sch, io_mem := mem, io_mlock_supported := sp, io_mlock := ms\<rparr>"
proof -
  obtain mem_ok mem where m: "next_result True (io_mem io) = (mem_ok, mem)"
    by (cases "next_result True (io_mem io)")
  obtain copy sp ms where c: "password_buffer_create
      (if mem_ok then Some (replicate (pw_len pw + 1) 0) else None) (io_mlock_supported io) (io_mlock io) =
      (copy, sp, ms)"
    by (metis prod.exhaust)
  let ?io = "io\<lparr>io_mem := mem, io_mlock_supported := sp, io_mlock := ms\<rparr>"
  obtain p sch where w: "snd (comm_write ?io COMM_MSG_PASSWORD
      (Some (take (pw_len pw + 1) (pw_buffer pw))) (pw_len pw + 1)) = ?io\<lparr>io_out := p, io_wr := sch\<rparr>"
    using comm_write_shape by blast
  show ?thesis
  proof (cases copy)
    case None
    then have "snd (snd (write_comm_password io pw)) = ?io"
      unfolding write_comm_password_def Let_def m prod.case c by simp
    then show ?thesis
      by (intro exI [of _ "io_out io"] exI [of _ "io_wr io"] exI [of _ mem] exI [of _ sp] exI [of _ ms])
        simp
  next
    case (Some b)
    then have "snd (snd (write_comm_password io pw)) = ?io\<lparr>io_out := p, io_wr := sch\<rparr>"
      unfolding write_comm_password_def Let_def m prod.case c
      using w by (simp add: comm_main_write_def case_prod_unfold)
    then show ?thesis
      by (intro exI [of _ p] exI [of _ sch] exI [of _ mem] exI [of _ sp] exI [of _ ms]) simp
  qed
qed

lemma send_main_shape: "\<exists>p sch. send_main ty payload n s = s\<lparr>io_out := p, io_wr := sch\<rparr>"
  using comm_write_shape by (auto simp: send_main_def comm_main_write_def)

lemma send_selection_shape: "\<exists>p sch. send_selection ty ident s = s\<lparr>io_out := p, io_wr := sch\<rparr>"
proof (cases ident)
  case None
  then have "send_selection ty ident s = s\<lparr>io_out := io_out s, io_wr := io_wr s\<rparr>"
    by (simp add: send_selection_def)
  then show ?thesis by blast
next
  case (Some i)
  then show ?thesis
    using send_main_shape by (simp add: send_selection_def)
qed

lemma selection_confirm_shape: "\<exists>p sch. selection_confirm s = s\<lparr>io_out := p, io_wr := sch\<rparr>"
proof -
  have "s = s\<lparr>io_out := io_out s, io_wr := io_wr s\<rparr>"
    by simp
  then show ?thesis
    unfolding selection_confirm_def Let_def using send_selection_shape by (metis (full_types))
qed

section \<open>Preservation\<close>

lemma timers_ok_cong:
  assumes "st_eventloop s' = st_eventloop s" "slot_of s' = slot_of s"
  shows "timers_ok f s' = timers_ok f s"
  using assms by (simp add: timers_ok_def)

lemma timers_ok_reschedule:
  assumes "timers_ok f s" "st_eventloop s' = fst (resched ms cb s)"
    "slot_of s' = (slot_of s)(cb := snd (resched ms cb s))"
  shows "timers_ok f s'"
proof -
  let ?l = "st_eventloop s" and ?ok = "fst (next_result True (st_timer_alloc s))"
  let ?now = "fst (next_result \<lparr>tv_sec = 0, tv_nsec = 0\<rparr> (st_clock s))"
  obtain l' t where r: "resched ms cb s = (l', t)"
    by (cases "resched ms cb s")
  then have r': "tms.reschedule ?l (slot_of s cb) ?ok ?now ms cb = (l', t)"
    by (simp add: resched_def)
  have wf: "loop_wf ?l" and run: "\<And>j. f = Some j \<Longrightarrow> live ?l j \<noteq> None"
    and slots: "\<And>cb. slot_ok (tms.others f ?l) cb (slot_of s cb)"
    using assms(1) by (auto simp: timers_ok_def)
  have "loop_wf l'"
    using tms.reschedule_wf [OF wf, of "slot_of s cb" ?ok ?now ms cb] r' by simp
  moreover have "slot_ok (tms.others f l') cb' (((slot_of s)(cb := t)) cb')" for cb'
    using tms.reschedule_slot [OF wf slots r' run] tms.reschedule_other [OF wf slots slots r' _ run]
    by (cases "cb' = cb") auto
  moreover have "live l' j \<noteq> None" if f: "f = Some j" for j
  proof -
    obtain c where "live ?l j = Some c"
      using run [OF f] by auto
    then show ?thesis
      using tms.reschedule_running [OF wf, of j cb "slot_of s cb" c] slots f r' by simp
  qed
  ultimately show ?thesis
    using assms(2,3) r by (simp add: timers_ok_def)
qed

lemma timers_ok_cancel:
  assumes "timers_ok f s" "st_eventloop s' = tms.cancel (st_eventloop s) (slot_of s cb)"
    "slot_of s' = (slot_of s)(cb := None)"
  shows "timers_ok f s'"
proof -
  let ?l = "st_eventloop s"
  have wf: "loop_wf ?l" and run: "\<And>j. f = Some j \<Longrightarrow> live ?l j \<noteq> None"
    and slots: "\<And>cb. slot_ok (tms.others f ?l) cb (slot_of s cb)"
    using assms(1) by (auto simp: timers_ok_def)
  have "loop_wf (tms.cancel ?l (slot_of s cb))"
    by (rule tms.cancel_wf [OF wf])
  moreover have "slot_ok (tms.others f (tms.cancel ?l (slot_of s cb))) cb' (((slot_of s)(cb := None)) cb')"
    for cb'
    using tms.cancel_slot [OF wf slots] tms.cancel_other [OF wf slots slots] by (cases "cb' = cb") auto
  moreover have "live (tms.cancel ?l (slot_of s cb)) j \<noteq> None" if "f = Some j" for j
    using tms.cancel_running [OF wf] slots run that by blast
  ultimately show ?thesis
    using assms(2,3) by (simp add: timers_ok_def)
qed

lemma timers_schedule:
  assumes "timers_ok f s"
  shows "timers_ok f (schedule_input_idle s)" "timers_ok f (schedule_auth_idle s)"
    "timers_ok f (schedule_password_clear s)" "timers_ok f (cancel_input_idle s)"
    "timers_ok f (cancel_password_clear s)"
proof -
  show "timers_ok f (schedule_input_idle s)"
    by (rule timers_ok_reschedule [OF assms])
      (auto simp: timer_eqs fun_eq_iff slot_of_def split: timer_callback.split)
  show "timers_ok f (schedule_auth_idle s)"
    by (rule timers_ok_reschedule [OF assms])
      (auto simp: timer_eqs fun_eq_iff slot_of_def split: timer_callback.split)
  show "timers_ok f (schedule_password_clear s)"
    by (rule timers_ok_reschedule [OF assms])
      (auto simp: timer_eqs fun_eq_iff slot_of_def split: timer_callback.split)
  show "timers_ok f (cancel_input_idle s)"
    by (rule timers_ok_cancel [OF assms, of _ Set_input_idle])
      (auto simp: timer_eqs fun_eq_iff slot_of_def split: timer_callback.split)
  show "timers_ok f (cancel_password_clear s)"
    by (rule timers_ok_cancel [OF assms, of _ Clear_password])
      (auto simp: timer_eqs fun_eq_iff slot_of_def split: timer_callback.split)
qed

lemma slot_of_frame [simp]:
  "slot_of (damage_state E s) = slot_of s"
  "slot_of (s\<lparr>io_in := x1\<rparr>) = slot_of s"
  "slot_of (s\<lparr>io_out := x2\<rparr>) = slot_of s"
  "slot_of (s\<lparr>io_rd := x3\<rparr>) = slot_of s"
  "slot_of (s\<lparr>io_wr := x4\<rparr>) = slot_of s"
  "slot_of (s\<lparr>io_mem := x5\<rparr>) = slot_of s"
  "slot_of (s\<lparr>io_mlock := x6\<rparr>) = slot_of s"
  "slot_of (s\<lparr>io_mlock_supported := x7\<rparr>) = slot_of s"
  "slot_of (s\<lparr>st_eventloop := x8\<rparr>) = slot_of s"
  "slot_of (s\<lparr>st_surfaces := x9\<rparr>) = slot_of s"
  "slot_of (s\<lparr>st_images := x10\<rparr>) = slot_of s"
  "slot_of (s\<lparr>st_args := x11\<rparr>) = slot_of s"
  "slot_of (s\<lparr>st_password := x12\<rparr>) = slot_of s"
  "slot_of (s\<lparr>st_xkb := x13\<rparr>) = slot_of s"
  "slot_of (s\<lparr>st_auth_state := x14\<rparr>) = slot_of s"
  "slot_of (s\<lparr>st_input_state := x15\<rparr>) = slot_of s"
  "slot_of (s\<lparr>st_highlight_start := x16\<rparr>) = slot_of s"
  "slot_of (s\<lparr>st_failed_attempts := x17\<rparr>) = slot_of s"
  "slot_of (s\<lparr>st_run_display := x18\<rparr>) = slot_of s"
  "slot_of (s\<lparr>st_locked := x19\<rparr>) = slot_of s"
  "slot_of (s\<lparr>st_lock_failed := x20\<rparr>) = slot_of s"
  "slot_of (s\<lparr>st_authd_active := x21\<rparr>) = slot_of s"
  "slot_of (s\<lparr>st_authd_stage := x22\<rparr>) = slot_of s"
  "slot_of (s\<lparr>st_authd_brokers := x23\<rparr>) = slot_of s"
  "slot_of (s\<lparr>st_authd_num_brokers := x24\<rparr>) = slot_of s"
  "slot_of (s\<lparr>st_authd_sel_broker := x25\<rparr>) = slot_of s"
  "slot_of (s\<lparr>st_authd_auth_modes := x26\<rparr>) = slot_of s"
  "slot_of (s\<lparr>st_authd_num_auth_modes := x27\<rparr>) = slot_of s"
  "slot_of (s\<lparr>st_authd_sel_auth_mode := x28\<rparr>) = slot_of s"
  "slot_of (s\<lparr>st_authd_layout := x29\<rparr>) = slot_of s"
  "slot_of (s\<lparr>st_authd_error := x30\<rparr>) = slot_of s"
  "slot_of (s\<lparr>st_clock := x31\<rparr>) = slot_of s"
  "slot_of (s\<lparr>st_timer_alloc := x32\<rparr>) = slot_of s"
  "slot_of (s\<lparr>st_rand := x33\<rparr>) = slot_of s"
  "slot_of (s\<lparr>st_shm := x34\<rparr>) = slot_of s"
  "slot_of (s\<lparr>st_wire := x35\<rparr>) = slot_of s"
  "slot_of (s\<lparr>st_exit := x36\<rparr>) = slot_of s"
  by (simp_all add: fun_eq_iff slot_of_def split: timer_callback.split)

lemma timers_ok_frame [simp]:
  "timers_ok f (damage_state E s) = timers_ok f s"
  "timers_ok f (s\<lparr>io_in := x37\<rparr>) = timers_ok f s"
  "timers_ok f (s\<lparr>io_out := x38\<rparr>) = timers_ok f s"
  "timers_ok f (s\<lparr>io_rd := x39\<rparr>) = timers_ok f s"
  "timers_ok f (s\<lparr>io_wr := x40\<rparr>) = timers_ok f s"
  "timers_ok f (s\<lparr>io_mem := x41\<rparr>) = timers_ok f s"
  "timers_ok f (s\<lparr>io_mlock := x42\<rparr>) = timers_ok f s"
  "timers_ok f (s\<lparr>io_mlock_supported := x43\<rparr>) = timers_ok f s"
  "timers_ok f (s\<lparr>st_surfaces := x44\<rparr>) = timers_ok f s"
  "timers_ok f (s\<lparr>st_images := x45\<rparr>) = timers_ok f s"
  "timers_ok f (s\<lparr>st_args := x46\<rparr>) = timers_ok f s"
  "timers_ok f (s\<lparr>st_password := x47\<rparr>) = timers_ok f s"
  "timers_ok f (s\<lparr>st_xkb := x48\<rparr>) = timers_ok f s"
  "timers_ok f (s\<lparr>st_auth_state := x49\<rparr>) = timers_ok f s"
  "timers_ok f (s\<lparr>st_input_state := x50\<rparr>) = timers_ok f s"
  "timers_ok f (s\<lparr>st_highlight_start := x51\<rparr>) = timers_ok f s"
  "timers_ok f (s\<lparr>st_failed_attempts := x52\<rparr>) = timers_ok f s"
  "timers_ok f (s\<lparr>st_run_display := x53\<rparr>) = timers_ok f s"
  "timers_ok f (s\<lparr>st_locked := x54\<rparr>) = timers_ok f s"
  "timers_ok f (s\<lparr>st_lock_failed := x55\<rparr>) = timers_ok f s"
  "timers_ok f (s\<lparr>st_authd_active := x56\<rparr>) = timers_ok f s"
  "timers_ok f (s\<lparr>st_authd_stage := x57\<rparr>) = timers_ok f s"
  "timers_ok f (s\<lparr>st_authd_brokers := x58\<rparr>) = timers_ok f s"
  "timers_ok f (s\<lparr>st_authd_num_brokers := x59\<rparr>) = timers_ok f s"
  "timers_ok f (s\<lparr>st_authd_sel_broker := x60\<rparr>) = timers_ok f s"
  "timers_ok f (s\<lparr>st_authd_auth_modes := x61\<rparr>) = timers_ok f s"
  "timers_ok f (s\<lparr>st_authd_num_auth_modes := x62\<rparr>) = timers_ok f s"
  "timers_ok f (s\<lparr>st_authd_sel_auth_mode := x63\<rparr>) = timers_ok f s"
  "timers_ok f (s\<lparr>st_authd_layout := x64\<rparr>) = timers_ok f s"
  "timers_ok f (s\<lparr>st_authd_error := x65\<rparr>) = timers_ok f s"
  "timers_ok f (s\<lparr>st_clock := x66\<rparr>) = timers_ok f s"
  "timers_ok f (s\<lparr>st_timer_alloc := x67\<rparr>) = timers_ok f s"
  "timers_ok f (s\<lparr>st_rand := x68\<rparr>) = timers_ok f s"
  "timers_ok f (s\<lparr>st_shm := x69\<rparr>) = timers_ok f s"
  "timers_ok f (s\<lparr>st_wire := x70\<rparr>) = timers_ok f s"
  "timers_ok f (s\<lparr>st_exit := x71\<rparr>) = timers_ok f s"
  by (simp_all add: timers_ok_def)

lemma data_ok_frame [simp]:
  "data_ok (damage_state E s) = data_ok s"
  "data_ok (schedule_input_idle s) = data_ok s"
  "data_ok (schedule_auth_idle s) = data_ok s"
  "data_ok (schedule_password_clear s) = data_ok s"
  "data_ok (cancel_input_idle s) = data_ok s"
  "data_ok (cancel_password_clear s) = data_ok s"
  "data_ok (s\<lparr>io_in := x72\<rparr>) = data_ok s"
  "data_ok (s\<lparr>io_out := x73\<rparr>) = data_ok s"
  "data_ok (s\<lparr>io_rd := x74\<rparr>) = data_ok s"
  "data_ok (s\<lparr>io_wr := x75\<rparr>) = data_ok s"
  "data_ok (s\<lparr>io_mem := x76\<rparr>) = data_ok s"
  "data_ok (s\<lparr>io_mlock := x77\<rparr>) = data_ok s"
  "data_ok (s\<lparr>io_mlock_supported := x78\<rparr>) = data_ok s"
  "data_ok (s\<lparr>st_eventloop := x79\<rparr>) = data_ok s"
  "data_ok (s\<lparr>st_input_idle_timer := x80\<rparr>) = data_ok s"
  "data_ok (s\<lparr>st_auth_idle_timer := x81\<rparr>) = data_ok s"
  "data_ok (s\<lparr>st_clear_password_timer := x82\<rparr>) = data_ok s"
  "data_ok (s\<lparr>st_surfaces := x83\<rparr>) = data_ok s"
  "data_ok (s\<lparr>st_images := x84\<rparr>) = data_ok s"
  "data_ok (s\<lparr>st_args := x85\<rparr>) = data_ok s"
  "data_ok (s\<lparr>st_xkb := x86\<rparr>) = data_ok s"
  "data_ok (s\<lparr>st_auth_state := x87\<rparr>) = data_ok s"
  "data_ok (s\<lparr>st_input_state := x88\<rparr>) = data_ok s"
  "data_ok (s\<lparr>st_run_display := x89\<rparr>) = data_ok s"
  "data_ok (s\<lparr>st_locked := x90\<rparr>) = data_ok s"
  "data_ok (s\<lparr>st_lock_failed := x91\<rparr>) = data_ok s"
  "data_ok (s\<lparr>st_authd_active := x92\<rparr>) = data_ok s"
  "data_ok (s\<lparr>st_authd_stage := x93\<rparr>) = data_ok s"
  "data_ok (s\<lparr>st_authd_layout := x94\<rparr>) = data_ok s"
  "data_ok (s\<lparr>st_authd_error := x95\<rparr>) = data_ok s"
  "data_ok (s\<lparr>st_seats := x96\<rparr>) = data_ok s"
  "data_ok (s\<lparr>st_clock := x97\<rparr>) = data_ok s"
  "data_ok (s\<lparr>st_timer_alloc := x98\<rparr>) = data_ok s"
  "data_ok (s\<lparr>st_rand := x99\<rparr>) = data_ok s"
  "data_ok (s\<lparr>st_shm := x100\<rparr>) = data_ok s"
  "data_ok (s\<lparr>st_wire := x101\<rparr>) = data_ok s"
  "data_ok (s\<lparr>st_exit := x102\<rparr>) = data_ok s"
  by (simp_all add: data_ok_def lists_wf_def timer_eqs)

lemma main_inv_frame [simp]:
  "main_inv f (damage_state E s) = main_inv f s"
  "main_inv f (s\<lparr>io_in := x103\<rparr>) = main_inv f s"
  "main_inv f (s\<lparr>io_out := x104\<rparr>) = main_inv f s"
  "main_inv f (s\<lparr>io_rd := x105\<rparr>) = main_inv f s"
  "main_inv f (s\<lparr>io_wr := x106\<rparr>) = main_inv f s"
  "main_inv f (s\<lparr>io_mem := x107\<rparr>) = main_inv f s"
  "main_inv f (s\<lparr>io_mlock := x108\<rparr>) = main_inv f s"
  "main_inv f (s\<lparr>io_mlock_supported := x109\<rparr>) = main_inv f s"
  "main_inv f (s\<lparr>st_surfaces := x110\<rparr>) = main_inv f s"
  "main_inv f (s\<lparr>st_images := x111\<rparr>) = main_inv f s"
  "main_inv f (s\<lparr>st_args := x112\<rparr>) = main_inv f s"
  "main_inv f (s\<lparr>st_xkb := x113\<rparr>) = main_inv f s"
  "main_inv f (s\<lparr>st_auth_state := x114\<rparr>) = main_inv f s"
  "main_inv f (s\<lparr>st_input_state := x115\<rparr>) = main_inv f s"
  "main_inv f (s\<lparr>st_run_display := x116\<rparr>) = main_inv f s"
  "main_inv f (s\<lparr>st_locked := x117\<rparr>) = main_inv f s"
  "main_inv f (s\<lparr>st_lock_failed := x118\<rparr>) = main_inv f s"
  "main_inv f (s\<lparr>st_authd_active := x119\<rparr>) = main_inv f s"
  "main_inv f (s\<lparr>st_authd_stage := x120\<rparr>) = main_inv f s"
  "main_inv f (s\<lparr>st_authd_layout := x121\<rparr>) = main_inv f s"
  "main_inv f (s\<lparr>st_authd_error := x122\<rparr>) = main_inv f s"
  "main_inv f (s\<lparr>st_clock := x123\<rparr>) = main_inv f s"
  "main_inv f (s\<lparr>st_timer_alloc := x124\<rparr>) = main_inv f s"
  "main_inv f (s\<lparr>st_rand := x125\<rparr>) = main_inv f s"
  "main_inv f (s\<lparr>st_shm := x126\<rparr>) = main_inv f s"
  "main_inv f (s\<lparr>st_wire := x127\<rparr>) = main_inv f s"
  "main_inv f (s\<lparr>st_exit := x128\<rparr>) = main_inv f s"
  by (simp_all add: main_inv_def)

lemma main_inv_sent: "main_inv f (s\<lparr>io_out := out, io_wr := sch\<rparr>) = main_inv f s"
  by simp

lemma inv_password: "main_inv f s \<Longrightarrow> pw_repr p cps \<Longrightarrow> main_inv f (s\<lparr>st_password := p\<rparr>)"
  by (auto simp: main_inv_def data_ok_def lists_wf_def)

lemma inv_schedule:
  assumes "main_inv f s"
  shows "main_inv f (schedule_input_idle s)" "main_inv f (schedule_auth_idle s)"
    "main_inv f (schedule_password_clear s)" "main_inv f (cancel_input_idle s)"
    "main_inv f (cancel_password_clear s)"
  using assms by (simp_all add: main_inv_def timers_schedule)

lemma highlight_mod: "(w :: u32) mod 2048 < 2048"
  by (simp add: word_mod_less_divisor)

lemma inv_highlight: "main_inv f s \<Longrightarrow> main_inv f (update_highlight s)"
  by (auto simp: main_inv_def update_highlight_eq data_ok_def lists_wf_def highlight_mod)

lemma inv_clear:
  assumes "main_inv f s"
  shows "main_inv f (s\<lparr>st_password := clear_password_buffer (st_password s)\<rparr>)"
proof -
  obtain cps where "pw_repr (st_password s) cps"
    using assms by (auto simp: main_inv_def data_ok_def)
  then show ?thesis
    using assms clear_password_buffer_repr inv_password by blast
qed

lemma inv_clear_input: "main_inv f s \<Longrightarrow> main_inv f (clear_input E s)"
  using inv_clear [of f s] by (simp add: clear_input_def inv_schedule)

lemma inv_submit:
  assumes "main_inv f s"
  shows "main_inv f (submit_password E s)"
proof -
  let ?s1 = "cancel_input_idle (cancel_password_clear
    (s\<lparr>st_input_state := INPUT_STATE_IDLE, st_auth_state := AUTH_STATE_VALIDATING\<rparr>))"
  obtain ok pw s2 where w: "write_comm_password ?s1 (st_password ?s1) = (ok, pw, s2)"
    using prod_cases3 by blast
  have inv1: "main_inv f ?s1"
    using assms by (simp add: inv_schedule)
  obtain p sch mem sp ms where
    "s2 = ?s1\<lparr>io_out := p, io_wr := sch, io_mem := mem, io_mlock_supported := sp, io_mlock := ms\<rparr>"
    using write_comm_password_shape [of ?s1 "st_password ?s1"] w by auto
  then have "main_inv f s2"
    using inv1 by (simp add: main_inv_def)
  moreover have "pw = clear_password_buffer (st_password ?s1)"
    using write_comm_password_clears [of ?s1 "st_password ?s1"] w by simp
  moreover obtain cps where "pw_repr (st_password ?s1) cps"
    using inv1 by (auto simp: main_inv_def data_ok_def)
  ultimately have "main_inv f (s2\<lparr>st_password := pw\<rparr>)"
    using clear_password_buffer_repr inv_password by blast
  then show ?thesis
    using assms w by (simp add: submit_password_def inv_schedule Let_def)
qed

lemma inv_backspace:
  assumes "main_inv f s"
  shows "main_inv f (backspace_key E s)"
proof -
  obtain pw removed where b: "backspace (st_password s) = (pw, removed)"
    by (cases "backspace (st_password s)")
  obtain cps where "pw_repr (st_password s) cps"
    using assms by (auto simp: main_inv_def data_ok_def)
  then have "pw_repr pw (butlast cps)"
    using backspace_repr [of "st_password s" cps] b by simp
  then have "main_inv f (s\<lparr>st_password := pw\<rparr>)"
    using assms inv_password by blast
  then show ?thesis
    using assms b by (simp add: backspace_key_def inv_clear_input inv_schedule inv_highlight Let_def)
qed

lemma inv_letter:
  assumes "main_inv f s"
  shows "main_inv f (letter_key E ch s)"
proof (cases "ch = 0")
  case True
  then show ?thesis using assms by (simp add: letter_key_def)
next
  case False
  obtain cps where "pw_repr (st_password s) cps"
    using assms by (auto simp: main_inv_def data_ok_def)
  then have "main_inv f (s\<lparr>st_password := append_ch (st_password s) ch\<rparr>)"
    using assms inv_password append_ch_repr False by blast
  then show ?thesis
    using False by (simp add: letter_key_def inv_schedule inv_highlight)
qed

lemma inv_selection:
  assumes "main_inv f s"
  shows "main_inv f (selection_up s)" "main_inv f (selection_down s)" "main_inv f (selection_confirm s)"
    "main_inv f (send_main ty payload n s)"
proof -
  have sel: "data_ok (s\<lparr>st_authd_sel_broker := k\<rparr>) \<longleftrightarrow>
      data_ok s \<and> sel_ok k (st_authd_num_brokers s)"
    "data_ok (s\<lparr>st_authd_sel_auth_mode := m\<rparr>) \<longleftrightarrow> data_ok s \<and> sel_ok m (st_authd_num_auth_modes s)"
    if "data_ok s" for k m
    using that by (auto simp: data_ok_def lists_wf_def)
  have d: "data_ok s" "timers_ok f s"
    using assms by (simp_all add: main_inv_def)
  then have "sel_ok (st_authd_sel_broker s) (st_authd_num_brokers s)"
    "sel_ok (st_authd_sel_auth_mode s) (st_authd_num_auth_modes s)"
    by (simp_all add: data_ok_def)
  then show "main_inv f (selection_up s)" "main_inv f (selection_down s)"
    using d sel [OF d(1)]
    by (simp_all add: main_inv_def selection_up_def selection_down_def) (auto simp: sel_ok_def)
  show "main_inv f (selection_confirm s)"
    using selection_confirm_shape [of s] assms by (metis main_inv_sent)
  show "main_inv f (send_main ty payload n s)"
    using send_main_shape [of ty payload n s] assms by (metis main_inv_sent)
qed

lemma inv_if: "main_inv f a \<Longrightarrow> main_inv f b \<Longrightarrow> main_inv f (if c then a else b)"
  by simp

lemma inv_authd_key:
  assumes "main_inv f s" "handle_authd_key E keysym s = Some s'"
  shows "main_inv f s'"
proof -
  have "s' \<in> {damage_state E (selection_up s), damage_state E (selection_down s), selection_confirm s,
      send_main COMM_MSG_CANCEL None 0 s, damage_state E (send_main COMM_MSG_BUTTON None 0 s)}"
    using assms(2) by (simp add: handle_authd_key_def split: if_splits)
  then show ?thesis
    using inv_selection [OF assms(1)] by auto
qed

lemma inv_modifier: "main_inv f s \<Longrightarrow> main_inv f (modifier_key E s)"
  by (simp add: modifier_key_def inv_schedule)

lemma inv_plain_key: "main_inv f s \<Longrightarrow> main_inv f (handle_plain_key E keysym codepoint s)"
  unfolding handle_plain_key_def
  by (intro inv_if inv_submit inv_backspace inv_clear_input inv_modifier inv_letter)

lemma inv_handle_key: "main_inv f s \<Longrightarrow> main_inv f (swaylock_handle_key E keysym codepoint s)"
  by (cases "handle_authd_key E keysym s") (simp_all add: swaylock_handle_key_def inv_plain_key inv_authd_key)

section \<open>What keys do to the password\<close>

lemma timer_password [simp]:
  "st_password (schedule_input_idle s) = st_password s"
  "st_password (schedule_auth_idle s) = st_password s"
  "st_password (schedule_password_clear s) = st_password s"
  "st_password (cancel_input_idle s) = st_password s"
  "st_password (cancel_password_clear s) = st_password s"
  "st_password (update_highlight s) = st_password s"
  by (simp_all add: timer_eqs)

lemma pw_repr_len: "pw_repr pw cps \<Longrightarrow> pw_len pw = 0 \<longleftrightarrow> cps = []"
proof -
  assume r: "pw_repr pw cps"
  have "length (utf8_bytes c) > 0" for c
    by (simp add: utf8_bytes_def)
  then have "length (encode_all cps) = 0 \<longleftrightarrow> cps = []"
    by (cases cps) auto
  then show ?thesis
    using r by (simp add: pw_repr_def)
qed

lemma submit_password_buffer:
  "st_password (submit_password E s) =
     (if arg_ignore_empty (st_args s) \<and> pw_len (st_password s) = 0 \<or> st_auth_state s = AUTH_STATE_VALIDATING
      then st_password s else clear_password_buffer (st_password s))"
  using write_comm_password_clears
  by (auto simp: submit_password_def Let_def case_prod_unfold)

lemma send_main_password [simp]: "st_password (send_main ty payload n s) = st_password s"
  using send_main_shape [of ty payload n s] by auto

lemma selection_password [simp]:
  "st_password (selection_up s) = st_password s" "st_password (selection_down s) = st_password s"
  "st_password (selection_confirm s) = st_password s"
  using selection_confirm_shape [of s] by (auto simp: selection_up_def selection_down_def)

lemma authd_key_password:
  "handle_authd_key E keysym s = Some s' \<Longrightarrow> st_password s' = st_password s"
  by (auto simp: handle_authd_key_def split: if_splits)

lemma authd_key_taken: "handle_authd_key E keysym s \<noteq> None \<longleftrightarrow> authd_takes s keysym"
  by (auto simp: handle_authd_key_def authd_takes_def in_selection_def)

lemma clear_input_password [simp]:
  "st_password (clear_input E s) = clear_password_buffer (st_password s)"
  by (simp add: clear_input_def)

lemma backspace_key_password [simp]:
  "st_password (backspace_key E s) =
     (if xkb_control (st_xkb s) then clear_password_buffer (st_password s)
      else fst (backspace (st_password s)))"
  by (simp add: backspace_key_def Let_def case_prod_unfold)

lemma letter_key_password [simp]:
  "st_password (letter_key E ch s) = (if ch = 0 then st_password s else append_ch (st_password s) ch)"
  by (simp add: letter_key_def)

lemma modifier_key_password [simp]: "st_password (modifier_key E s) = st_password s"
  by (simp add: modifier_key_def)

lemma plain_key_text:
  assumes "pw_repr (st_password s) cps" "\<not> authd_takes s keysym"
  shows "pw_repr (st_password (handle_plain_key E keysym codepoint s)) (key_text s keysym codepoint cps)"
proof -
  have r: "pw_repr (clear_password_buffer (st_password s)) []"
    "pw_repr (fst (backspace (st_password s))) (butlast cps)"
    "codepoint \<noteq> 0 \<Longrightarrow> pw_repr (append_ch (st_password s) codepoint)
       (spec_append (pw_buffer_len (st_password s)) cps codepoint)"
    "pw_repr (st_password (submit_password E s)) (if submits s cps then [] else cps)"
    using assms(1) clear_password_buffer_repr [OF assms(1)] backspace_repr [OF assms(1)]
      append_ch_repr [OF assms(1)]
    by (auto simp: submit_password_buffer submits_def pw_repr_len [OF assms(1)])
  have distinct_keys: "XKB_KEY_Escape \<notin> set modifier_keys" "XKB_KEY_m \<notin> set modifier_keys"
    "XKB_KEY_d \<notin> set modifier_keys" "XKB_KEY_j \<notin> set modifier_keys" "XKB_KEY_c \<notin> set modifier_keys"
    "XKB_KEY_u \<notin> set modifier_keys" "distinct [XKB_KEY_Escape, XKB_KEY_m, XKB_KEY_d, XKB_KEY_j, XKB_KEY_c,
       XKB_KEY_u, XKB_KEY_Delete, XKB_KEY_BackSpace, XKB_KEY_Return, XKB_KEY_KP_Enter]"
    by (simp_all add: key_defs)
  consider "keysym = XKB_KEY_KP_Enter \<or> keysym = XKB_KEY_Return"
    | "keysym = XKB_KEY_Delete \<or> keysym = XKB_KEY_BackSpace" | "keysym = XKB_KEY_Escape"
    | "keysym \<in> set modifier_keys"
      "keysym \<notin> {XKB_KEY_KP_Enter, XKB_KEY_Return, XKB_KEY_Delete, XKB_KEY_BackSpace, XKB_KEY_Escape}"
    | "keysym \<notin> set modifier_keys"
      "keysym \<notin> {XKB_KEY_KP_Enter, XKB_KEY_Return, XKB_KEY_Delete, XKB_KEY_BackSpace, XKB_KEY_Escape}"
    by blast
  then show ?thesis
  proof cases
    case 1
    then show ?thesis using r assms(2) by (auto simp: handle_plain_key_def key_text_def)
  next
    case 2
    then show ?thesis
      using r assms(2) distinct_keys by (auto simp: handle_plain_key_def key_text_def)
  next
    case 3
    then show ?thesis
      using r assms(2) distinct_keys by (auto simp: handle_plain_key_def key_text_def)
  next
    case 4
    then have "keysym \<notin> {XKB_KEY_m, XKB_KEY_d, XKB_KEY_j, XKB_KEY_c, XKB_KEY_u}"
      using distinct_keys by auto
    then show ?thesis
      using 4 assms by (auto simp: handle_plain_key_def key_text_def)
  next
    case 5
    show ?thesis
    proof (cases "xkb_control (st_xkb s) \<and> keysym \<in> {XKB_KEY_m, XKB_KEY_d, XKB_KEY_j, XKB_KEY_c, XKB_KEY_u}")
      case True
      then show ?thesis
        using 5 r assms(2) distinct_keys by (auto simp: handle_plain_key_def key_text_def)
    next
      case False
      then have "handle_plain_key E keysym codepoint s = letter_key E codepoint s"
        "key_text s keysym codepoint cps =
           (if codepoint = 0 then cps else spec_append (pw_buffer_len (st_password s)) cps codepoint)"
        using 5 assms(2) by (auto simp: handle_plain_key_def key_text_def)
      then show ?thesis
        using r(3) assms(1) by simp
    qed
  qed
qed

lemma handle_key_text:
  assumes "pw_repr (st_password s) cps"
  shows "pw_repr (st_password (swaylock_handle_key E keysym codepoint s)) (key_text s keysym codepoint cps)"
proof (cases "handle_authd_key E keysym s")
  case None
  then show ?thesis
    using plain_key_text [OF assms] authd_key_taken [of E keysym s]
    by (simp add: swaylock_handle_key_def)
next
  case (Some s')
  then show ?thesis
    using assms authd_key_taken [of E keysym s] authd_key_password [OF Some]
    by (simp add: swaylock_handle_key_def key_text_def)
qed

section \<open>Submitting\<close>

lemma submit_effect:
  assumes "submits s cps" "pw_repr (st_password s) cps"
  defines "w \<equiv> write_comm_password (cancel_input_idle (cancel_password_clear
      (s\<lparr>st_input_state := INPUT_STATE_IDLE, st_auth_state := AUTH_STATE_VALIDATING\<rparr>))) (st_password s)"
  shows "submit_password E s = damage_state E
      (if fst w then (snd (snd w))\<lparr>st_password := fst (snd w)\<rparr>
       else schedule_auth_idle ((snd (snd w))\<lparr>st_password := fst (snd w), st_auth_state := AUTH_STATE_INVALID\<rparr>))"
  using assms(1) by (auto simp: submit_password_def submits_def pw_repr_len [OF assms(2)] w_def Let_def
      case_prod_unfold)

lemma benign_cong:
  "io_rd s' = io_rd s \<Longrightarrow> io_wr s' = io_wr s \<Longrightarrow> io_mem s' = io_mem s \<Longrightarrow> benign s' = benign s"
  by (simp add: benign_def)

lemma submit_sends:
  assumes "submits s cps" "pw_repr (st_password s) cps" "benign s"
    "fst (password_buffer_lock (io_mlock_supported s) (io_mlock s))"
  shows "pipe_data (io_out (submit_password E s)) =
      pipe_data (io_out s) @ frame_bytes (COMM_MSG_PASSWORD, encode_all cps @ [0])"
    "st_auth_state (submit_password E s) = AUTH_STATE_VALIDATING"
    "st_input_state (submit_password E s) = INPUT_STATE_IDLE"
    "st_auth_idle_timer (submit_password E s) = st_auth_idle_timer s"
    "st_eventloop (submit_password E s) =
       tms.cancel (tms.cancel (st_eventloop s) (st_clear_password_timer s)) (st_input_idle_timer s)"
proof -
  let ?s1 = "cancel_input_idle (cancel_password_clear
      (s\<lparr>st_input_state := INPUT_STATE_IDLE, st_auth_state := AUTH_STATE_VALIDATING\<rparr>))"
  let ?w = "write_comm_password ?s1 (st_password s)"
  have io: "io_out ?s1 = io_out s" "io_mlock_supported ?s1 = io_mlock_supported s"
    "io_mlock ?s1 = io_mlock s" "benign ?s1"
    using assms(3) by (simp_all add: timer_eqs benign_def)
  have ok: "fst ?w"
    and data: "pipe_data (io_out (snd (snd ?w))) =
      pipe_data (io_out s) @ frame_bytes (COMM_MSG_PASSWORD, encode_all cps @ [0])"
    using write_comm_password_sends [of ?s1 "st_password s" cps] io assms(2,4) by simp_all
  obtain p sch mem sp ms where sh: "snd (snd ?w) =
      ?s1\<lparr>io_out := p, io_wr := sch, io_mem := mem, io_mlock_supported := sp, io_mlock := ms\<rparr>"
    using write_comm_password_shape by blast
  have e: "submit_password E s = damage_state E ((snd (snd ?w))\<lparr>st_password := fst (snd ?w)\<rparr>)"
    using submit_effect [OF assms(1,2)] ok by simp
  show "pipe_data (io_out (submit_password E s)) =
      pipe_data (io_out s) @ frame_bytes (COMM_MSG_PASSWORD, encode_all cps @ [0])"
    unfolding e using data by simp
  show "st_auth_state (submit_password E s) = AUTH_STATE_VALIDATING"
    "st_input_state (submit_password E s) = INPUT_STATE_IDLE"
    "st_auth_idle_timer (submit_password E s) = st_auth_idle_timer s"
    "st_eventloop (submit_password E s) =
       tms.cancel (tms.cancel (st_eventloop s) (st_clear_password_timer s)) (st_input_idle_timer s)"
    unfolding e sh by (simp_all add: timer_eqs)
qed

lemma submit_refused: "\<not> submits s cps \<Longrightarrow> pw_repr (st_password s) cps \<Longrightarrow> submit_password E s = s"
  by (auto simp: submit_password_def submits_def pw_repr_len)

text \<open>A slot other than the two that are cancelled keeps its timer.\<close>

lemma live_cancel: "loop_wf l \<Longrightarrow> slot \<noteq> Some t \<Longrightarrow> live (tms.cancel l slot) t = live l t"
  by (simp add: tms.cancel_pending split: option.split)

lemma slot_inj:
  assumes "timers_ok None s" "slot_of s cb = Some t"
  shows "live (st_eventloop s) t = Some cb" "cb' \<noteq> cb \<Longrightarrow> slot_of s cb' \<noteq> Some t"
proof -
  have slots: "\<And>cb i. live (st_eventloop s) i = Some cb \<longleftrightarrow> slot_of s cb = Some i"
    using assms(1) by (simp add: timers_ok_def slot_ok_def tms.others_def)
  show "live (st_eventloop s) t = Some cb"
    using slots assms(2) by blast
  then show "cb' \<noteq> cb \<Longrightarrow> slot_of s cb' \<noteq> Some t"
    using slots [of t cb'] by auto
qed

lemma highlight_advance:
  assumes "st_highlight_start s < 2048"
  shows "\<exists>d. 512 \<le> d \<and> d < 1536 \<and>
    unat (st_highlight_start (update_highlight s)) = (unat (st_highlight_start s) + d) mod 2048"
proof -
  define r where "r = fst (next_result 0 (st_rand s)) mod 1024"
  have r: "r < 1024"
    by (simp add: r_def)
  have h: "unat (st_highlight_start s) < 2048"
    using assms by (simp add: word_less_nat_alt)
  have "unat (st_highlight_start s + word_of_nat r + 512) = unat (st_highlight_start s) + r + 512"
    using h r by (simp add: unat_word_ariths unat_of_nat)
  then have "unat (st_highlight_start (update_highlight s)) =
      (unat (st_highlight_start s) + (r + 512)) mod 2048"
    by (simp add: update_highlight_eq r_def [symmetric] unat_mod_distrib add.assoc)
  then show ?thesis
    using r by (intro exI [of _ "r + 512"]) simp
qed

section \<open>Properties\<close>

text \<open>
  C13: the key handler keeps the invariant: timer slots name exactly the live timers, the password
  buffer is a well-formed string within its bounds, the selections stay inside their lists and the
  highlight inside one turn. This holds also for a key that is repeated from the callback of a
  timer \<open>f\<close>.\<close>

theorem handle_key_invariant:
  assumes "main_inv f s"
  shows "main_inv f (swaylock_handle_key E keysym codepoint s)"
  by (rule inv_handle_key [OF assms])

theorem handle_key_invariant_witness:
  "\<forall>E. main_inv None (swaylock_handle_key E XKB_KEY_Down 0
     (sample_state\<lparr>st_authd_active := True, st_authd_stage := AUTHD_STAGE_BROKER,
        st_authd_brokers := [\<lparr>br_id = Some ''local'', br_name = None\<rparr>], st_authd_num_brokers := 1\<rparr>))"
proof
  fix E
  let ?s = "sample_state\<lparr>st_authd_active := True, st_authd_stage := AUTHD_STAGE_BROKER,
        st_authd_brokers := [\<lparr>br_id = Some ''local'', br_name = None\<rparr>], st_authd_num_brokers := 1\<rparr>"
  have "timers_ok None ?s"
    by (auto simp: timers_ok_def sample_state_def loop_wf_def loop_create_def slot_ok_def tms.others_def
        live_def slot_of_def split: timer_callback.split)
  moreover have "pw_repr (st_password ?s) []"
    by (simp add: sample_state_def pw_repr_def sample_pw_def)
  then have "data_ok ?s"
    unfolding data_ok_def by (auto simp: sample_state_def lists_wf_def sel_ok_def)
  ultimately show "main_inv None (swaylock_handle_key E XKB_KEY_Down 0 ?s)"
    by (intro handle_key_invariant) (simp add: main_inv_def)
qed

text \<open>
  C14: what a key does to the password. Whatever the state, the buffer afterwards is the encoding of
  the text that \<open>key_text\<close> prescribes: typed characters are appended while they fit, backspace
  removes one character, Escape and the Control shortcuts clear, a submission empties the buffer
  and is refused while a verdict is pending, and the keys of a selection stage change nothing.\<close>

theorem handle_key_refines_text:
  assumes "pw_repr (st_password s) cps"
  shows "pw_repr (st_password (swaylock_handle_key E keysym codepoint s)) (key_text s keysym codepoint cps)"
  by (rule handle_key_text [OF assms])

theorem handle_key_refines_text_witness:
  "\<forall>E. pw_repr (st_password (swaylock_handle_key E 0x61 0x61 sample_state)) [0x61]"
proof
  fix E
  have "pw_repr (st_password sample_state) []"
    by (simp add: sample_state_def pw_repr_def sample_pw_def)
  moreover have "key_text sample_state 0x61 0x61 [] = [0x61]"
    by (simp add: key_text_def authd_takes_def sample_state_def key_defs spec_append_def spec_fits_def
        sample_pw_def utf8_chsize_def)
  ultimately show "pw_repr (st_password (swaylock_handle_key E 0x61 0x61 sample_state)) [0x61]"
    using handle_key_refines_text [of sample_state "[]" E "0x61" "0x61"] by simp
qed





text \<open>
  The highlight of the typing indicator advances by at least a quarter and less than three
  quarters of a turn and stays within one turn, whatever the random numbers are.\<close>

theorem highlight_moves_visibly:
  assumes "st_highlight_start s < 2048"
  shows "st_highlight_start (update_highlight s) < 2048 \<and>
    (\<exists>d. 512 \<le> d \<and> d < 1536 \<and>
      unat (st_highlight_start (update_highlight s)) = (unat (st_highlight_start s) + d) mod 2048)"
  using highlight_advance [OF assms] by (simp add: update_highlight_eq highlight_mod)

theorem highlight_moves_visibly_witness:
  "st_highlight_start (update_highlight (sample_state\<lparr>st_highlight_start := 2000, st_rand := [1025]\<rparr>)) = 465 \<and>
   st_highlight_start (update_highlight (sample_state\<lparr>st_highlight_start := 2000, st_rand := [1025]\<rparr>)) < 2048"
  using highlight_moves_visibly [of "sample_state\<lparr>st_highlight_start := 2000, st_rand := [1025]\<rparr>"]
  by (simp add: update_highlight_eq)

end
