(* ===== verification/Seat.thy ===== *)
theory Seat
  imports Input
begin

text \<open>
  \<^verbatim>\<open>src/seat.c\<close>: keyboard events and key repeat. A seat is known by its position in
  \<^const>\<open>st_seats\<close>.
\<close>

section \<open>Keyboard events\<close>

datatype keymap_format = NO_KEYMAP | XKB_V1 | FORMAT_OTHER

text \<open>\<open>content\<close> is the mapped file, \<open>None\<close> when \<^verbatim>\<open>mmap\<close> fails.\<close>

definition keyboard_keymap ::
    "libs \<Rightarrow> keymap_format \<Rightarrow> byte list option \<Rightarrow> swaylock_state \<Rightarrow> swaylock_state" where
  "keyboard_keymap E format content s =
     (case format of
        XKB_V1 \<Rightarrow>
          (case content of
             None \<Rightarrow> exit_with 1 s
           | Some txt \<Rightarrow>
               if lib_keymap_new E txt
               then s\<lparr>st_xkb := (st_xkb s)\<lparr>xkb_keymap := Some txt,
                        xkb_st := Some \<lparr>xk_keymap = txt, xk_updates = []\<rparr>\<rparr>\<rparr>
               else abort s)
      | _ \<Rightarrow> s\<lparr>st_xkb := (st_xkb s)\<lparr>xkb_keymap := None, xkb_st := None\<rparr>\<rparr>)"

definition update_seat :: "nat \<Rightarrow> (swaylock_seat \<Rightarrow> swaylock_seat) \<Rightarrow> swaylock_state \<Rightarrow> swaylock_state" where
  "update_seat k f s = s\<lparr>st_seats := (st_seats s)[k := f (st_seats s ! k)]\<rparr>"

definition set_repeat_timer :: "nat \<Rightarrow> nat option \<Rightarrow> swaylock_state \<Rightarrow> swaylock_state" where
  "set_repeat_timer k t s = update_seat k (\<lambda>seat. seat\<lparr>seat_repeat_timer := t\<rparr>) s"

definition keyboard_repeat :: "libs \<Rightarrow> nat \<Rightarrow> swaylock_state \<Rightarrow> swaylock_state" where
  "keyboard_repeat E k s =
     (case add_timer (seat_repeat_period_ms (st_seats s ! k)) (Keyboard_repeat k) s of
        (t, s1) \<Rightarrow>
          (let s2 = set_repeat_timer k t s1; seat = st_seats s2 ! k in
           swaylock_handle_key E (seat_repeat_sym seat) (seat_repeat_codepoint seat) s2))"

definition keyboard_key :: "libs \<Rightarrow> nat \<Rightarrow> u32 \<Rightarrow> bool \<Rightarrow> swaylock_state \<Rightarrow> swaylock_state" where
  "keyboard_key E k key pressed s =
     (case xkb_st (st_xkb s) of
        None \<Rightarrow> s
      | Some xs \<Rightarrow>
          (let sym = lib_key_sym E xs (key + 8);
               keycode = (if pressed then key + 8 else 0);
               codepoint = lib_key_utf32 E xs keycode;
               s1 = (if pressed then swaylock_handle_key E sym codepoint s else s);
               s2 = set_repeat_timer k None (remove_timer (seat_repeat_timer (st_seats s1 ! k)) s1)
           in if pressed \<and> seat_repeat_period_ms (st_seats s2 ! k) > 0 then
                (let s3 = update_seat k (\<lambda>seat. seat\<lparr>seat_repeat_sym := sym,
                                                    seat_repeat_codepoint := codepoint\<rparr>) s2;
                     (t, s4) = add_timer (seat_repeat_delay_ms (st_seats s3 ! k)) (Keyboard_repeat k) s3
                 in set_repeat_timer k t s4)
              else s2))"

definition keyboard_modifiers ::
    "libs \<Rightarrow> u32 \<Rightarrow> u32 \<Rightarrow> u32 \<Rightarrow> u32 \<Rightarrow> swaylock_state \<Rightarrow> swaylock_state" where
  "keyboard_modifiers E mods_depressed mods_latched mods_locked grp s =
     (case xkb_st (st_xkb s) of
        None \<Rightarrow> s
      | Some xs \<Rightarrow>
          (let layout_same = lib_layout_active E xs (unat grp);
               xs' = xs\<lparr>xk_updates := (mods_depressed, mods_latched, mods_locked, grp) # xk_updates xs\<rparr>;
               s1 = s\<lparr>st_xkb := (st_xkb s)\<lparr>xkb_st := Some xs'\<rparr>\<rparr>;
               caps_lock = lib_mod_caps_locked E xs';
               s2 = (if caps_lock \<noteq> (if xkb_caps_lock (st_xkb s1) then 1 else 0) \<or> layout_same = 0
                     then damage_state E (s1\<lparr>st_xkb := (st_xkb s1)\<lparr>xkb_caps_lock := caps_lock \<noteq> 0\<rparr>\<rparr>)
                     else s1)
           in s2\<lparr>st_xkb := (st_xkb s2)\<lparr>xkb_control := lib_mod_ctrl_active E xs' \<noteq> 0\<rparr>\<rparr>))"

text \<open>C integer division truncates; for a positive rate it is the same as rounding down.\<close>

definition keyboard_repeat_info :: "nat \<Rightarrow> int \<Rightarrow> int \<Rightarrow> swaylock_state \<Rightarrow> swaylock_state" where
  "keyboard_repeat_info k rate delay s =
     update_seat k (\<lambda>seat. seat\<lparr>seat_repeat_period_ms := (if rate \<le> 0 then -1 else 1000 sdiv rate),
                              seat_repeat_delay_ms := delay\<rparr>) s"

text \<open>Focus and the name of the seat are of no interest.\<close>

definition keyboard_enter :: "u32 \<Rightarrow> swaylock_state \<Rightarrow> swaylock_state" where
  "keyboard_enter serial s = s"

definition keyboard_leave :: "u32 \<Rightarrow> swaylock_state \<Rightarrow> swaylock_state" where
  "keyboard_leave serial s = s"

definition seat_handle_name :: "string \<Rightarrow> swaylock_state \<Rightarrow> swaylock_state" where
  "seat_handle_name name s = s"

text \<open>
  The events of the pointer, with the arguments other than objects; of all of them only entering a surface
  has an effect: the cursor gets no picture.
\<close>

datatype pointer_event =
  Pointer_enter u32 int int
| Pointer_leave u32
| Pointer_motion u32 int int
| Pointer_button u32 u32 u32 u32
| Pointer_axis u32 u32 int
| Pointer_frame
| Pointer_axis_source u32
| Pointer_axis_stop u32 u32
| Pointer_axis_discrete u32 int

definition wl_pointer_enter :: "u32 \<Rightarrow> swaylock_state \<Rightarrow> swaylock_state" where
  "wl_pointer_enter serial s = send_request (SetCursor serial) s"

definition pointer_listener :: "pointer_event \<Rightarrow> swaylock_state \<Rightarrow> swaylock_state" where
  "pointer_listener e s =
     (case e of
        Pointer_enter serial surface_x surface_y \<Rightarrow> wl_pointer_enter serial s
      | Pointer_leave serial \<Rightarrow> s
      | Pointer_motion time surface_x surface_y \<Rightarrow> s
      | Pointer_button serial time button state \<Rightarrow> s
      | Pointer_axis time axis v \<Rightarrow> s
      | Pointer_frame \<Rightarrow> s
      | Pointer_axis_source axis_source \<Rightarrow> s
      | Pointer_axis_stop time axis \<Rightarrow> s
      | Pointer_axis_discrete axis discrete \<Rightarrow> s)"

definition WL_SEAT_CAPABILITY_POINTER :: u32 where "WL_SEAT_CAPABILITY_POINTER = 1"
definition WL_SEAT_CAPABILITY_KEYBOARD :: u32 where "WL_SEAT_CAPABILITY_KEYBOARD = 2"

definition seat_handle_capabilities :: "nat \<Rightarrow> u32 \<Rightarrow> swaylock_state \<Rightarrow> swaylock_state" where
  "seat_handle_capabilities k caps s =
     update_seat k (\<lambda>seat. seat\<lparr>seat_pointer := caps AND WL_SEAT_CAPABILITY_POINTER \<noteq> 0,
                              seat_keyboard := caps AND WL_SEAT_CAPABILITY_KEYBOARD \<noteq> 0\<rparr>) s"

section \<open>Timer callbacks\<close>

definition call_timer :: "libs \<Rightarrow> timer_callback \<Rightarrow> swaylock_state \<Rightarrow> swaylock_state" where
  "call_timer E cb s =
     (case cb of
        Set_input_idle \<Rightarrow> set_input_idle E s
      | Set_auth_idle \<Rightarrow> set_auth_idle E s
      | Clear_password \<Rightarrow> clear_password E s
      | Keyboard_repeat k \<Rightarrow> keyboard_repeat E k s)"

definition put_loop :: "(timer_callback, fd_callback) loop \<Rightarrow> swaylock_state \<Rightarrow> swaylock_state" where
  "put_loop l s = s\<lparr>st_eventloop := l\<rparr>"

section \<open>Specification\<close>

text \<open>The state in which the slot of the timer that fires is already empty.\<close>

definition clear_slot :: "timer_callback \<Rightarrow> swaylock_state \<Rightarrow> swaylock_state" where
  "clear_slot cb s =
     (case cb of
        Set_input_idle \<Rightarrow> s\<lparr>st_input_idle_timer := None\<rparr>
      | Set_auth_idle \<Rightarrow> s\<lparr>st_auth_idle_timer := None\<rparr>
      | Clear_password \<Rightarrow> s\<lparr>st_clear_password_timer := None\<rparr>
      | Keyboard_repeat k \<Rightarrow> set_repeat_timer k None s)"

section \<open>Slots of seats\<close>

lemma slot_of_repeat:
  "k < length (st_seats s) \<Longrightarrow> slot_of (set_repeat_timer k t s) = (slot_of s)(Keyboard_repeat k := t)"
  by (auto simp: fun_eq_iff slot_of_def set_repeat_timer_def update_seat_def split: timer_callback.split)

lemma slot_of_update_seat:
  "(\<And>seat. seat_repeat_timer (f seat) = seat_repeat_timer seat) \<Longrightarrow> slot_of (update_seat k f s) = slot_of s"
  by (auto simp: fun_eq_iff slot_of_def update_seat_def split: timer_callback.split)
    (metis nth_list_update_eq nth_list_update_neq)

lemma seat_out_of_range: "\<not> k < length (st_seats s) \<Longrightarrow> update_seat k f s = s"
  by (simp add: update_seat_def list_update_beyond)

lemma update_seat_fields [simp]:
  "st_eventloop (update_seat k f s) = st_eventloop s"
  "length (st_seats (update_seat k f s)) = length (st_seats s)"
  "st_exit (update_seat k f s) = st_exit s"
  "data_ok (update_seat k f s) = data_ok s"
  by (simp_all add: update_seat_def data_ok_def lists_wf_def)

lemma inv_update_seat:
  assumes "main_inv f s" "\<And>seat. seat_repeat_timer (g seat) = seat_repeat_timer seat"
  shows "main_inv f (update_seat k g s)"
  using assms by (simp add: main_inv_def timers_ok_def slot_of_update_seat)

lemma add_timer_eq:
  assumes "slot_of s cb = None"
  shows "add_timer ms cb s = (snd (resched ms cb s), s\<lparr>st_eventloop := fst (resched ms cb s),
    st_clock := used_clock s, st_timer_alloc := used_alloc s\<rparr>)"
  using assms
  by (simp add: add_timer_def resched_def tms.reschedule_def tms.cancel_def used_clock_def used_alloc_def
      Let_def case_prod_unfold)

text \<open>Setting the repeat timer of a seat whose slot is empty.\<close>

lemma inv_add_repeat:
  assumes "main_inv f s" "slot_of s (Keyboard_repeat k) = None" "k < length (st_seats s)"
    "add_timer ms (Keyboard_repeat k) s = (t, s')"
  shows "main_inv f (set_repeat_timer k t s')"
proof -
  let ?r = "resched ms (Keyboard_repeat k) s"
  have s': "t = snd ?r" "s' = s\<lparr>st_eventloop := fst ?r, st_clock := used_clock s, st_timer_alloc := used_alloc s\<rparr>"
    using add_timer_eq [OF assms(2), of ms] assms(4) by simp_all
  have "slot_of (set_repeat_timer k t s') = (slot_of s)(Keyboard_repeat k := snd ?r)"
    using slot_of_repeat [of k s' t] assms(3) by (simp add: s')
  moreover have "st_eventloop (set_repeat_timer k t s') = fst ?r"
    by (simp add: set_repeat_timer_def s')
  ultimately have "timers_ok f (set_repeat_timer k t s')"
    using timers_ok_reschedule assms(1) unfolding main_inv_def by blast
  moreover have "data_ok s'"
    using assms(1) by (simp add: s' main_inv_def)
  ultimately show ?thesis
    by (simp add: main_inv_def set_repeat_timer_def)
qed

lemma inv_cancel_repeat:
  assumes "main_inv f s" "k < length (st_seats s)"
  shows "main_inv f (set_repeat_timer k None (remove_timer (seat_repeat_timer (st_seats s ! k)) s))"
    (is "main_inv f ?s")
proof -
  have "slot_of ?s = (slot_of s)(Keyboard_repeat k := None)"
    using slot_of_repeat [of k "remove_timer (seat_repeat_timer (st_seats s ! k)) s" None] assms(2)
    by (simp add: remove_timer_eq)
  moreover have "st_eventloop ?s = tms.cancel (st_eventloop s) (slot_of s (Keyboard_repeat k))"
    using assms(2) by (simp add: set_repeat_timer_def remove_timer_eq slot_of_def)
  ultimately have "timers_ok f ?s"
    using timers_ok_cancel assms(1) unfolding main_inv_def by blast
  then show ?thesis
    using assms(1) by (simp add: main_inv_def set_repeat_timer_def remove_timer_eq)
qed

section \<open>What keys leave alone\<close>

lemma timer_frame [simp]:
  "st_seats (schedule_input_idle s) = st_seats s" "st_exit (schedule_input_idle s) = st_exit s"
  "st_seats (schedule_auth_idle s) = st_seats s" "st_exit (schedule_auth_idle s) = st_exit s"
  "st_seats (schedule_password_clear s) = st_seats s" "st_exit (schedule_password_clear s) = st_exit s"
  "st_seats (cancel_input_idle s) = st_seats s" "st_exit (cancel_input_idle s) = st_exit s"
  "st_seats (cancel_password_clear s) = st_seats s" "st_exit (cancel_password_clear s) = st_exit s"
  "st_seats (update_highlight s) = st_seats s" "st_exit (update_highlight s) = st_exit s"
  "st_run_display (schedule_input_idle s) = st_run_display s"
  "st_run_display (schedule_auth_idle s) = st_run_display s"
  "st_run_display (schedule_password_clear s) = st_run_display s"
  "st_run_display (cancel_input_idle s) = st_run_display s"
  "st_run_display (cancel_password_clear s) = st_run_display s"
  "st_run_display (update_highlight s) = st_run_display s"
  by (simp_all add: timer_eqs)

text \<open>Beside what every handler leaves alone, a key keeps the seats and the lock.\<close>

definition key_quiet :: "swaylock_state \<Rightarrow> swaylock_state \<Rightarrow> bool" where
  "key_quiet s s' \<longleftrightarrow> quiet s s' \<and> st_seats s' = st_seats s \<and> st_run_display s' = st_run_display s"

lemma key_quiet_damage: "key_quiet s s' \<Longrightarrow> key_quiet s (damage_state E s')"
  by (simp add: key_quiet_def quiet_damage)

lemma key_quiet_same:
  assumes "st_args s' = st_args s" "st_images s' = st_images s" "st_seats s' = st_seats s"
    "st_locked s' = st_locked s" "st_lock_failed s' = st_lock_failed s" "st_lock s' = st_lock s"
    "st_surfaces s' = st_surfaces s" "st_wire s' = st_wire s" "st_exit s' = st_exit s"
    "st_run_display s' = st_run_display s" "io_in s' = io_in s" "io_rd s' = io_rd s"
    "lp_fds (st_eventloop s') = lp_fds (st_eventloop s)"
    "lp_fd_events (st_eventloop s') = lp_fd_events (st_eventloop s)"
  shows "key_quiet s s'"
  using assms by (simp add: key_quiet_def quiet_same)

lemma key_quiet_parts:
  "key_quiet s (clear_input E s)"
  "key_quiet s (backspace_key E s)"
  "key_quiet s (modifier_key E s)"
  "key_quiet s (letter_key E ch s)"
  by (simp_all add: clear_input_def backspace_key_def modifier_key_def letter_key_def Let_def
      case_prod_unfold key_quiet_damage timer_eqs key_quiet_same)

lemma key_quiet_submit: "key_quiet s (submit_password E s)"
proof -
  let ?s1 = "cancel_input_idle (cancel_password_clear
    (s\<lparr>st_input_state := INPUT_STATE_IDLE, st_auth_state := AUTH_STATE_VALIDATING\<rparr>))"
  obtain ok pw s2 where w: "write_comm_password ?s1 (st_password s) = (ok, pw, s2)"
    using prod_cases3 by blast
  obtain p sch mem sp ms where
    "s2 = ?s1\<lparr>io_out := p, io_wr := sch, io_mem := mem, io_mlock_supported := sp, io_mlock := ms\<rparr>"
    using write_comm_password_shape [of ?s1 "st_password s"] w by auto
  then show ?thesis
    using w by (simp add: submit_password_def Let_def key_quiet_damage timer_eqs key_quiet_same)
qed

lemma key_quiet_handle_key: "key_quiet s (swaylock_handle_key E keysym ch s)"
proof -
  have refl: "key_quiet s s"
    by (simp add: key_quiet_def)
  have plain: "key_quiet s (handle_plain_key E keysym ch s)"
    unfolding handle_plain_key_def by (simp add: key_quiet_parts key_quiet_submit refl)
  have sel: "key_quiet s (selection_up s)" "key_quiet s (selection_down s)" "key_quiet s (selection_confirm s)"
    "key_quiet s (send_main ty payload n s)" for ty payload n
    using selection_confirm_shape [of s] send_main_shape [of ty payload n s]
    by (auto simp: selection_up_def selection_down_def key_quiet_same)
  have "key_quiet s s'" if "handle_authd_key E keysym s = Some s'" for s'
    using that by (auto simp: handle_authd_key_def sel key_quiet_damage split: if_splits)
  then show ?thesis
    using plain by (auto simp: swaylock_handle_key_def split: option.split)
qed

lemma handle_key_frame [simp]:
  "st_seats (swaylock_handle_key E keysym ch s) = st_seats s"
  "st_run_display (swaylock_handle_key E keysym ch s) = st_run_display s"
  using key_quiet_handle_key [of s E keysym ch] by (simp_all add: key_quiet_def)

section \<open>Keyboard events keep the invariant\<close>

lemma inv_keymap: "main_inv f s \<Longrightarrow> main_inv f (keyboard_keymap E fmt content s)"
  by (simp add: keyboard_keymap_def abort_def exit_with_def split: keymap_format.split option.split)

lemma inv_modifiers: "main_inv f s \<Longrightarrow> main_inv f (keyboard_modifiers E d la lo g s)"
  by (simp add: keyboard_modifiers_def Let_def split: option.split)

lemma inv_keyboard_key:
  assumes "main_inv f s" "k < length (st_seats s)"
  shows "main_inv f (keyboard_key E k key pressed s)"
proof (cases "xkb_st (st_xkb s)")
  case None
  then show ?thesis using assms by (simp add: keyboard_key_def)
next
  case (Some xs)
  define sym where "sym = lib_key_sym E xs (key + 8)"
  define codepoint where "codepoint = lib_key_utf32 E xs (if pressed then key + 8 else 0)"
  define s1 where "s1 = (if pressed then swaylock_handle_key E sym codepoint s else s)"
  define s2 where "s2 = set_repeat_timer k None (remove_timer (seat_repeat_timer (st_seats s1 ! k)) s1)"
  define s3 where "s3 = update_seat k (\<lambda>seat. seat\<lparr>seat_repeat_sym := sym,
      seat_repeat_codepoint := codepoint\<rparr>) s2"
  have len1: "k < length (st_seats s1)" and inv1: "main_inv f s1"
    using assms by (simp_all add: s1_def inv_handle_key)
  have inv2: "main_inv f s2"
    unfolding s2_def by (rule inv_cancel_repeat [OF inv1 len1])
  have len2: "k < length (st_seats s2)"
    using len1 by (simp add: s2_def set_repeat_timer_def remove_timer_eq)
  have inv3: "main_inv f s3" and len3: "k < length (st_seats s3)"
    unfolding s3_def using inv2 len2 by (simp_all add: inv_update_seat)
  have "slot_of s2 (Keyboard_repeat k) = None"
    using slot_of_repeat [of k "remove_timer (seat_repeat_timer (st_seats s1 ! k)) s1" None] len1
    by (simp add: s2_def remove_timer_eq)
  then have slot: "slot_of s3 (Keyboard_repeat k) = None"
    unfolding s3_def by (subst slot_of_update_seat) simp_all
  obtain t s4 where a: "add_timer (seat_repeat_delay_ms (st_seats s3 ! k)) (Keyboard_repeat k) s3 = (t, s4)"
    by (metis prod.exhaust)
  have "keyboard_key E k key pressed s =
      (if pressed \<and> seat_repeat_period_ms (st_seats s2 ! k) > 0 then set_repeat_timer k t s4 else s2)"
    unfolding keyboard_key_def Some option.case Let_def
    unfolding sym_def [symmetric] codepoint_def [symmetric]
    unfolding s1_def [symmetric]
    unfolding s2_def [symmetric]
    unfolding s3_def [symmetric] a prod.case ..
  then show ?thesis
    using inv_add_repeat [OF inv3 slot len3 a] inv2 by simp
qed

section \<open>Timer callbacks keep the invariant\<close>

lemma slot_of_clear_slot:
  assumes "timers_ok None s" "live (st_eventloop s) j = Some cb"
  shows "slot_of (clear_slot cb s) = (slot_of s)(cb := None)"
proof -
  have "slot_of s cb = Some j"
    using assms by (simp add: timers_ok_def slot_ok_def tms.others_def)
  then have "k < length (st_seats s)" if "cb = Keyboard_repeat k" for k
    using that by (simp add: slot_of_def split: if_splits)
  then show ?thesis
    by (cases cb) (auto simp: clear_slot_def slot_of_repeat fun_eq_iff slot_of_def
        split: timer_callback.split)
qed

lemma clear_slot_fields [simp]:
  "st_eventloop (clear_slot cb s) = st_eventloop s" "data_ok (clear_slot cb s) = data_ok s"
  "length (st_seats (clear_slot cb s)) = length (st_seats s)"
  by (simp_all add: clear_slot_def set_repeat_timer_def data_ok_def lists_wf_def update_seat_def
      split: timer_callback.split)

lemma inv_fire:
  assumes "main_inv None s" "live (st_eventloop s) j = Some cb"
  shows "main_inv (Some j) (clear_slot cb s)"
proof -
  have t: "timers_ok None s" and d: "data_ok s"
    using assms(1) by (simp_all add: main_inv_def)
  have slots: "live (st_eventloop s) i = Some c \<longleftrightarrow> slot_of s c = Some i" for c i
    using t by (simp add: timers_ok_def slot_ok_def tms.others_def)
  have "slot_ok (tms.others (Some j) (st_eventloop s)) c (((slot_of s)(cb := None)) c)" for c
    using slots assms(2) unfolding slot_ok_def tms.others_def
    by (metis fun_upd_apply option.case(2) option.distinct(1) option.inject)
  then show ?thesis
    using t d assms(2) slot_of_clear_slot [OF t assms(2)] by (simp add: main_inv_def timers_ok_def)
qed

lemma inv_unlink:
  assumes "main_inv (Some j) s"
  shows "main_inv None (put_loop (unlink_timer j (st_eventloop s)) s)"
  using assms
  by (simp add: main_inv_def timers_ok_def put_loop_def unlink_timer_wf tms.others_def)

lemma inv_unlink_removed:
  assumes "main_inv None s" "live (st_eventloop s) j = None"
  shows "main_inv None (put_loop (unlink_timer j (st_eventloop s)) s)"
proof -
  have "(live (st_eventloop s))(j := None) = live (st_eventloop s)"
    using assms(2) by auto
  then show ?thesis
    using assms(1)
    by (simp add: main_inv_def timers_ok_def put_loop_def unlink_timer_wf tms.others_def)
qed

lemma repeat_ignores_slot: "keyboard_repeat E k (set_repeat_timer k None s) = keyboard_repeat E k s"
proof (cases "k < length (st_seats s)")
  case True
  then show ?thesis
    by (simp add: keyboard_repeat_def add_timer_def set_repeat_timer_def update_seat_def Let_def
        case_prod_unfold)
next
  case False
  then show ?thesis
    by (simp add: set_repeat_timer_def seat_out_of_range)
qed

lemma inv_call_timer:
  assumes "main_inv None s" "live (st_eventloop s) j = Some cb"
  shows "main_inv (Some j) (call_timer E cb s)"
proof (cases cb)
  case Set_input_idle
  have "set_input_idle E s =
      damage_state E ((clear_slot cb s)\<lparr>st_input_state := INPUT_STATE_IDLE\<rparr>)"
    by (simp add: set_input_idle_def clear_slot_def Set_input_idle)
  then show ?thesis
    using inv_fire [OF assms] by (simp add: call_timer_def Set_input_idle)
next
  case Set_auth_idle
  have "set_auth_idle E s = damage_state E ((clear_slot cb s)\<lparr>st_auth_state := AUTH_STATE_IDLE\<rparr>)"
    by (simp add: set_auth_idle_def clear_slot_def Set_auth_idle)
  then show ?thesis
    using inv_fire [OF assms] by (simp add: call_timer_def Set_auth_idle)
next
  case Clear_password
  let ?s1 = "schedule_input_idle ((clear_slot cb s)\<lparr>st_input_state := INPUT_STATE_CLEAR\<rparr>)"
  have "clear_password E s =
      damage_state E (?s1\<lparr>st_password := clear_password_buffer (st_password ?s1)\<rparr>)"
    by (simp add: clear_password_def clear_slot_def Clear_password Let_def)
  moreover have "main_inv (Some j) ?s1"
    using inv_fire [OF assms] by (simp add: inv_schedule)
  ultimately show ?thesis
    using inv_clear [of "Some j" ?s1] by (simp add: call_timer_def Clear_password)
next
  case (Keyboard_repeat k)
  let ?s = "set_repeat_timer k None s"
  have slots: "slot_of s cb = Some j"
    using assms by (simp add: main_inv_def timers_ok_def slot_ok_def tms.others_def)
  then have k: "k < length (st_seats s)"
    by (simp add: Keyboard_repeat slot_of_def split: if_splits)
  obtain t s1 where a: "add_timer (seat_repeat_period_ms (st_seats ?s ! k)) (Keyboard_repeat k) ?s = (t, s1)"
    by (metis prod.exhaust)
  have "main_inv (Some j) ?s"
    using inv_fire [OF assms] by (simp add: clear_slot_def Keyboard_repeat)
  moreover have "slot_of ?s (Keyboard_repeat k) = None" "k < length (st_seats ?s)"
    using slot_of_repeat [OF k] k by (simp_all add: set_repeat_timer_def)
  ultimately have "main_inv (Some j) (set_repeat_timer k t s1)"
    using inv_add_repeat a by blast
  then have "main_inv (Some j) (keyboard_repeat E k ?s)"
    using a by (simp add: keyboard_repeat_def Let_def inv_handle_key)
  then show ?thesis
    by (simp add: call_timer_def Keyboard_repeat repeat_ignores_slot)
qed

lemma inv_dispatch_timers:
  "main_inv None s \<Longrightarrow>
     alive (dispatch_timers st_eventloop put_loop alive (call_timer E) now is s) \<Longrightarrow>
     main_inv None (dispatch_timers st_eventloop put_loop alive (call_timer E) now is s)"
proof (induction "st_eventloop :: swaylock_state \<Rightarrow> _" put_loop alive "call_timer E" now "is" s
    rule: dispatch_timers.induct)
  case (2 now i "is" s)
  show ?case
  proof (cases "find_timer i (lp_timers (st_eventloop s))")
    case None
    then show ?thesis using 2 by (cases "alive s") simp_all
  next
    case (Some t)
    have lv: "live (st_eventloop s) i = (if lt_removed t then None else Some (lt_callback t))"
      by (simp add: live_def Some)
    let ?s = "call_timer E (lt_callback t) s"
    have dead: "dispatch_timers st_eventloop put_loop alive (call_timer E) now is s' = s'"
      if "\<not> alive s'" for s' :: swaylock_state
      using that by (cases "is") simp_all
    consider "\<not> alive s" | "alive s" "lt_removed t" | "alive s" "\<not> lt_removed t" "timer_expired now t"
      | "alive s" "\<not> lt_removed t" "\<not> timer_expired now t"
      by blast
    then show ?thesis
    proof cases
      case 2
      then show ?thesis
        using "2.hyps"(2) [OF _ Some] "2.prems" inv_unlink_removed [of s i] lv Some by simp
    next
      case 3
      have "main_inv None (put_loop (unlink_timer i (st_eventloop ?s)) ?s)"
        using inv_unlink [OF inv_call_timer [OF "2.prems"(1), of i]] lv 3 by simp
      then show ?thesis
        using "2.hyps"(3) [OF _ Some] Some 3 "2.prems"(2) dead [of ?s] by (simp add: Let_def split: if_splits)
    qed (use 2 Some in simp_all)
  qed
qed simp

section \<open>Keyboard events and timers are quiet\<close>

lemma quiet_add_timer: "quiet s (snd (add_timer ms cb s))"
  by (rule quiet_same) (simp_all add: add_timer_def loop_add_timer_def Let_def case_prod_unfold)

lemma quiet_update_seat: "quiet s (update_seat k f s)"
  by (rule quiet_same) (simp_all add: update_seat_def)

lemma quiet_remove_timer: "quiet s (remove_timer t s)"
  by (rule quiet_same) (simp_all add: remove_timer_eq)

lemma quiet_handle_key: "quiet s (swaylock_handle_key E keysym ch s)"
  using key_quiet_handle_key by (simp add: key_quiet_def)

lemmas quiet_parts = quiet_trans [OF _ quiet_add_timer] quiet_trans [OF _ quiet_update_seat]
  quiet_trans [OF _ quiet_remove_timer] quiet_trans [OF _ quiet_handle_key] quiet_damage

lemma quiet_repeat: "quiet s (keyboard_repeat E k s)"
  by (simp add: keyboard_repeat_def set_repeat_timer_def Let_def case_prod_unfold quiet_parts)

lemma quiet_key: "quiet s (keyboard_key E k key pressed s)"
  by (simp add: keyboard_key_def set_repeat_timer_def case_prod_unfold Let_def quiet_parts
      split: option.split)

lemma quiet_modifiers: "quiet s (keyboard_modifiers E d la lo g s)"
proof -
  have x: "quiet s (s\<lparr>st_xkb := x\<rparr>)" for s x
    by (rule quiet_same) simp_all
  then have "quiet s s' \<Longrightarrow> quiet s (s'\<lparr>st_xkb := x\<rparr>)" for s' x
    using quiet_trans by blast
  then show ?thesis
    by (simp add: keyboard_modifiers_def Let_def x quiet_damage split: option.split)
qed

lemma quiet_call_timer: "quiet s (call_timer E cb s)"
  by (simp add: call_timer_def set_input_idle_def set_auth_idle_def clear_password_def quiet_damage quiet_same
      quiet_repeat schedule_input_idle_eq Let_def split: timer_callback.split)

lemma live_slot:
  assumes "main_inv None s"
  shows "live (st_eventloop s) i = Some cb \<longleftrightarrow> slot_of s cb = Some i"
  using assms by (simp add: main_inv_def timers_ok_def slot_ok_def tms.others_def)

lemma release_slot:
  assumes "k < length (st_seats s)" "xkb_st (st_xkb s) = Some xs"
  shows "slot_of (keyboard_key E k key False s) (Keyboard_repeat k) = None"
proof -
  have "keyboard_key E k key False s =
      set_repeat_timer k None (remove_timer (seat_repeat_timer (st_seats s ! k)) s)"
    by (simp add: keyboard_key_def assms(2) Let_def)
  then show ?thesis
    using slot_of_repeat [of k "remove_timer (seat_repeat_timer (st_seats s ! k)) s" None] assms(1)
    by (simp add: remove_timer_eq)
qed

section \<open>Properties\<close>



end
