(* ===== verification/CommIn.thy ===== *)
theory CommIn
  imports Seat
begin

text \<open>
  The handlers of the event loop in \<^verbatim>\<open>src/main.c\<close>: \<^verbatim>\<open>comm_in\<close> for messages of the child,
  \<^verbatim>\<open>display_in\<close> and \<^verbatim>\<open>term_in\<close>. A read that would block leaves the state alone: the handler is
  taken to run when the rest of the message has arrived. Allocation answers come from
  \<^const>\<open>io_mem\<close>; copying a string is assumed to succeed.
\<close>

section \<open>Messages\<close>

definition on_auth_result :: "libs \<Rightarrow> byte list option \<Rightarrow> nat \<Rightarrow> swaylock_state \<Rightarrow> swaylock_state" where
  "on_auth_result E payload len s =
     (if len \<ge> 1 \<and> the payload ! 0 = 0x01 then s\<lparr>st_run_display := False\<rparr>
      else
        (let s1 = schedule_auth_idle (s\<lparr>st_auth_state := AUTH_STATE_INVALID\<rparr>)
         in damage_state E (s1\<lparr>st_failed_attempts := st_failed_attempts s1 + 1\<rparr>)))"

definition json_text :: "byte list option \<Rightarrow> byte list option" where
  "json_text payload = map_option cstr payload"

text \<open>The string members \<open>a\<close> and \<open>b\<close> of the first \<open>n\<close> elements of an array.\<close>

definition json_pairs ::
    "('j, 'm) cjson_scheme \<Rightarrow> 'j \<Rightarrow> nat \<Rightarrow> string \<Rightarrow> string \<Rightarrow> (string option \<times> string option) list" where
  "json_pairs J arr n a b =
     map (\<lambda>i. let item = js_array_item J arr i
              in (cjson_string J (js_object_item J item a), cjson_string J (js_object_item J item b)))
       [0..<n]"

text \<open>
  The array of a message, cut to 256 elements: \<open>None\<close> when the text is not a JSON array, and
  \<open>Some None\<close> when the memory for the elements is not available.
\<close>

definition parse_list ::
    "('j, 'm) cjson_scheme \<Rightarrow> byte list option \<Rightarrow> string \<Rightarrow> string \<Rightarrow> swaylock_state \<Rightarrow>
       (string option \<times> string option) list option option \<times> swaylock_state" where
  "parse_list J payload a b s =
     (case js_parse J (json_text payload) of
        None \<Rightarrow> (None, s)
      | Some arr \<Rightarrow>
          if \<not> js_is_array J arr then (None, s)
          else
            (let n = min (js_array_size J arr) 256 in
             case next_result True (io_mem s) of (ok, mem) \<Rightarrow>
               (Some (if ok then Some (json_pairs J arr n a b) else None), s\<lparr>io_mem := mem\<rparr>)))"

definition authd_brokers_free :: "swaylock_state \<Rightarrow> swaylock_state" where
  "authd_brokers_free s = s\<lparr>st_authd_brokers := [], st_authd_num_brokers := 0, st_authd_sel_broker := 0\<rparr>"

definition authd_auth_modes_free :: "swaylock_state \<Rightarrow> swaylock_state" where
  "authd_auth_modes_free s =
     s\<lparr>st_authd_auth_modes := [], st_authd_num_auth_modes := 0, st_authd_sel_auth_mode := 0\<rparr>"

definition on_brokers ::
    "libs \<Rightarrow> ('j, 'm) cjson_scheme \<Rightarrow> byte list option \<Rightarrow> swaylock_state \<Rightarrow> swaylock_state" where
  "on_brokers E J payload s =
     (case parse_list J payload ''id'' ''name'' (authd_brokers_free s) of
        (Some None, s1) \<Rightarrow> s1
      | (r, s1) \<Rightarrow>
          (let s2 = (case r of
                       Some (Some ps) \<Rightarrow>
                         s1\<lparr>st_authd_brokers := map (\<lambda>(i, n). \<lparr>br_id = i, br_name = n\<rparr>) ps,
                            st_authd_num_brokers := int (length ps)\<rparr>
                     | _ \<Rightarrow> s1)
           in damage_state E (s2\<lparr>st_authd_active := True, st_authd_stage := AUTHD_STAGE_BROKER\<rparr>)))"

definition on_auth_modes ::
    "libs \<Rightarrow> ('j, 'm) cjson_scheme \<Rightarrow> byte list option \<Rightarrow> swaylock_state \<Rightarrow> swaylock_state" where
  "on_auth_modes E J payload s =
     (case parse_list J payload ''id'' ''label'' (authd_auth_modes_free s) of
        (Some None, s1) \<Rightarrow> s1
      | (r, s1) \<Rightarrow>
          (let s2 = (case r of
                       Some (Some ps) \<Rightarrow>
                         s1\<lparr>st_authd_auth_modes := map (\<lambda>(i, l). \<lparr>am_id = i, am_label = l\<rparr>) ps,
                            st_authd_num_auth_modes := int (length ps)\<rparr>
                     | _ \<Rightarrow> s1)
           in damage_state E (s2\<lparr>st_authd_active := True, st_authd_stage := AUTHD_STAGE_AUTH_MODE\<rparr>)))"

definition parse_layout :: "('j, 'm) cjson_scheme \<Rightarrow> byte list option \<Rightarrow> authd_ui_layout" where
  "parse_layout J payload =
     (case js_parse J (json_text payload) of
        None \<Rightarrow> empty_layout
      | Some obj \<Rightarrow>
          (let member = (\<lambda>key. cjson_string J (js_object_item J (Some obj) key)) in
           \<lparr>ul_type = member ''type'', ul_label = member ''label'', ul_button = member ''button'',
            ul_entry = member ''entry'', ul_wait = (member ''wait'' = Some ''true''),
            ul_qr_content = member ''content'', ul_qr_code = member ''code''\<rparr>))"

definition on_ui_layout ::
    "libs \<Rightarrow> ('j, 'm) cjson_scheme \<Rightarrow> byte list option \<Rightarrow> swaylock_state \<Rightarrow> swaylock_state" where
  "on_ui_layout E J payload s =
     damage_state E (s\<lparr>st_authd_layout := parse_layout J payload, st_authd_error := None,
       st_auth_state := AUTH_STATE_IDLE, st_authd_stage := AUTHD_STAGE_CHALLENGE\<rparr>)"

definition on_stage :: "libs \<Rightarrow> byte list option \<Rightarrow> nat \<Rightarrow> swaylock_state \<Rightarrow> swaylock_state" where
  "on_stage E payload len s =
     (if len \<ge> 1 then
        (let new_stage = stage_of_byte (the payload ! 0);
             s1 = (if st_auth_state s = AUTH_STATE_VALIDATING then
                     (let s0 = schedule_auth_idle (s\<lparr>st_auth_state := AUTH_STATE_INVALID\<rparr>)
                      in s0\<lparr>st_failed_attempts := st_failed_attempts s0 + 1\<rparr>)
                   else s)
         in damage_state E (s1\<lparr>st_authd_stage := new_stage\<rparr>))
      else s)"

definition on_auth_event ::
    "libs \<Rightarrow> ('j, 'm) cjson_scheme \<Rightarrow> byte list option \<Rightarrow> swaylock_state \<Rightarrow> swaylock_state" where
  "on_auth_event E J payload s =
     damage_state E (s\<lparr>
       st_authd_error :=
         (case js_parse J (json_text payload) of
            None \<Rightarrow> None
          | Some obj \<Rightarrow> cjson_string J (js_object_item J (Some obj) ''msg'')),
       st_auth_state := AUTH_STATE_IDLE\<rparr>)"

definition handle_message ::
    "libs \<Rightarrow> ('j, 'm) cjson_scheme \<Rightarrow> byte \<Rightarrow> byte list option \<Rightarrow> nat \<Rightarrow> swaylock_state \<Rightarrow> swaylock_state" where
  "handle_message E J ty payload len s =
     (if ty = COMM_MSG_AUTH_RESULT then on_auth_result E payload len s
      else if ty = COMM_MSG_BROKERS then on_brokers E J payload s
      else if ty = COMM_MSG_AUTH_MODES then on_auth_modes E J payload s
      else if ty = COMM_MSG_UI_LAYOUT then on_ui_layout E J payload s
      else if ty = COMM_MSG_STAGE then on_stage E payload len s
      else if ty = COMM_MSG_AUTH_EVENT then on_auth_event E J payload s
      else s)"

section \<open>Handlers\<close>

definition EXIT_FAILURE :: int where "EXIT_FAILURE = 1"

definition comm_in ::
    "libs \<Rightarrow> ('j, 'm) cjson_scheme \<Rightarrow> 16 word \<Rightarrow> swaylock_state \<Rightarrow> swaylock_state" where
  "comm_in E J msk s =
     (if msk AND POLLERR \<noteq> 0 then exit_with EXIT_FAILURE s
      else if msk AND POLLIN = 0 then
        (if msk AND POLLHUP \<noteq> 0 then exit_with EXIT_FAILURE s else s)
      else
        (case comm_main_read s of
           (CommBlocked, _) \<Rightarrow> s
         | (CommRet ty payload len, s1) \<Rightarrow>
             if ty \<le> 0 then exit_with EXIT_FAILURE s1
             else handle_message E J (word_of_int ty) payload len s1))"

text \<open>\<open>dispatch\<close> is what \<^verbatim>\<open>wl_display_dispatch\<close> does with the events that are queued: \<open>None\<close> is its failure.\<close>

definition display_in ::
    "(swaylock_state \<Rightarrow> swaylock_state option) \<Rightarrow> swaylock_state \<Rightarrow> swaylock_state" where
  "display_in dispatch s =
     (case dispatch s of None \<Rightarrow> s\<lparr>st_run_display := False\<rparr> | Some s' \<Rightarrow> s')"

definition term_in :: "swaylock_state \<Rightarrow> swaylock_state" where
  "term_in s = s\<lparr>st_run_display := False\<rparr>"

section \<open>Specification\<close>

text \<open>The next message of the pipe is the verdict that grants access.\<close>

definition grants :: "byte \<Rightarrow> byte list option \<Rightarrow> nat \<Rightarrow> bool" where
  "grants ty payload len \<longleftrightarrow> ty = COMM_MSG_AUTH_RESULT \<and> len \<ge> 1 \<and> the payload ! 0 = 0x01"

section \<open>Lemmas\<close>

lemma parse_list_shape: "\<exists>mem. snd (parse_list J payload a b s) = s\<lparr>io_mem := mem\<rparr>"
proof -
  have "snd (parse_list J payload a b s) = s\<lparr>io_mem := io_mem (snd (parse_list J payload a b s))\<rparr>"
    by (simp add: parse_list_def Let_def split: option.split prod.split)
  then show ?thesis by blast
qed

lemma parse_list_length:
  "parse_list J payload a b s = (Some (Some ps), s') \<Longrightarrow> length ps \<le> 256"
  by (auto simp: parse_list_def json_pairs_def Let_def split: option.splits if_splits prod.splits)

lemma inv_failed:
  "main_inv f s \<Longrightarrow> main_inv f (s\<lparr>st_failed_attempts := st_failed_attempts s + 1\<rparr>)"
  by (auto simp: main_inv_def data_ok_def lists_wf_def)

lemma inv_auth_result: "main_inv f s \<Longrightarrow> main_inv f (on_auth_result E payload len s)"
  by (simp add: on_auth_result_def Let_def inv_failed inv_schedule)

lemma inv_stage: "main_inv f s \<Longrightarrow> main_inv f (on_stage E payload len s)"
  by (simp add: on_stage_def Let_def inv_failed inv_schedule)

lemma inv_ui_layout: "main_inv f s \<Longrightarrow> main_inv f (on_ui_layout E J payload s)"
  by (simp add: on_ui_layout_def)

lemma inv_auth_event: "main_inv f s \<Longrightarrow> main_inv f (on_auth_event E J payload s)"
  by (simp add: on_auth_event_def)

lemma inv_no_brokers: "main_inv f s \<Longrightarrow> main_inv f (authd_brokers_free s)"
  by (auto simp: main_inv_def data_ok_def lists_wf_def sel_ok_def authd_brokers_free_def)

lemma inv_no_auth_modes: "main_inv f s \<Longrightarrow> main_inv f (authd_auth_modes_free s)"
  by (auto simp: main_inv_def data_ok_def lists_wf_def sel_ok_def authd_auth_modes_free_def)

lemma inv_set_brokers:
  "main_inv f s \<Longrightarrow> st_authd_sel_broker s = 0 \<Longrightarrow>
     main_inv f (s\<lparr>st_authd_brokers := bs, st_authd_num_brokers := int (length bs)\<rparr>)"
  by (auto simp: main_inv_def data_ok_def lists_wf_def sel_ok_def)

lemma inv_set_auth_modes:
  "main_inv f s \<Longrightarrow> st_authd_sel_auth_mode s = 0 \<Longrightarrow>
     main_inv f (s\<lparr>st_authd_auth_modes := ms, st_authd_num_auth_modes := int (length ms)\<rparr>)"
  by (auto simp: main_inv_def data_ok_def lists_wf_def sel_ok_def)

lemma inv_brokers:
  assumes "main_inv f s"
  shows "main_inv f (on_brokers E J payload s)"
proof -
  obtain r s1 where p: "parse_list J payload ''id'' ''name'' (authd_brokers_free s) = (r, s1)"
    by (cases "parse_list J payload ''id'' ''name'' (authd_brokers_free s)")
  obtain mem where s1: "s1 = (authd_brokers_free s)\<lparr>io_mem := mem\<rparr>"
    using parse_list_shape [of J payload "''id''" "''name''" "authd_brokers_free s"] p by auto
  have base: "main_inv f s1"
    using inv_no_brokers [OF assms] by (simp add: s1)
  have "main_inv f (s1\<lparr>st_authd_brokers := map g ps, st_authd_num_brokers := int (length ps)\<rparr>)" 
    for g and ps :: "(string option \<times> string option) list"
    using inv_set_brokers [OF base, of "map g ps"] by (simp add: s1 authd_brokers_free_def)
  then show ?thesis
    using base p by (auto simp: on_brokers_def Let_def split: option.split)
qed

lemma inv_auth_modes:
  assumes "main_inv f s"
  shows "main_inv f (on_auth_modes E J payload s)"
proof -
  obtain r s1 where p: "parse_list J payload ''id'' ''label'' (authd_auth_modes_free s) = (r, s1)"
    by (cases "parse_list J payload ''id'' ''label'' (authd_auth_modes_free s)")
  obtain mem where s1: "s1 = (authd_auth_modes_free s)\<lparr>io_mem := mem\<rparr>"
    using parse_list_shape [of J payload "''id''" "''label''" "authd_auth_modes_free s"] p by auto
  have base: "main_inv f s1"
    using inv_no_auth_modes [OF assms] by (simp add: s1)
  have "main_inv f (s1\<lparr>st_authd_auth_modes := map g ps, st_authd_num_auth_modes := int (length ps)\<rparr>)" 
    for g and ps :: "(string option \<times> string option) list"
    using inv_set_auth_modes [OF base, of "map g ps"] by (simp add: s1 authd_auth_modes_free_def)
  then show ?thesis
    using base p by (auto simp: on_auth_modes_def Let_def split: option.split)
qed

lemma inv_message: "main_inv f s \<Longrightarrow> main_inv f (handle_message E J ty payload len s)"
  unfolding handle_message_def
  by (intro inv_if inv_auth_result inv_brokers inv_auth_modes inv_ui_layout inv_stage inv_auth_event)

lemma comm_read_shape:
  "\<exists>p sch mem. snd (comm_read io) = io\<lparr>io_in := p, io_rd := sch, io_mem := mem\<rparr>"
proof -
  have "snd (comm_read io) = io\<lparr>io_in := io_in (snd (comm_read io)), io_rd := io_rd (snd (comm_read io)),
      io_mem := io_mem (snd (comm_read io))\<rparr>"
    by (simp add: comm_read_def Let_def split: prod.split read_result.split)
  then show ?thesis by blast
qed

lemma inv_comm_in: "main_inv f s \<Longrightarrow> main_inv f (comm_in E J msk s)"
proof -
  assume inv: "main_inv f s"
  obtain r s1 where c: "comm_main_read s = (r, s1)"
    by (cases "comm_main_read s")
  obtain p sch mem where "s1 = s\<lparr>io_in := p, io_rd := sch, io_mem := mem\<rparr>"
    using comm_read_shape [of s] c by (auto simp: comm_main_read_def)
  then have "main_inv f s1"
    using inv by simp
  then show ?thesis
    using inv c by (auto simp: comm_in_def exit_with_def inv_message split: comm_result.split)
qed

text \<open>The flags that decide about unlocking.\<close>

lemma message_run_display:
  "st_run_display (handle_message E J ty payload len s) =
     (st_run_display s \<and> \<not> grants ty payload len)"
proof -
  have brokers: "st_run_display (on_brokers E J payload s) = st_run_display s"
    using parse_list_shape [of J payload "''id''" "''name''" "authd_brokers_free s"]
    by (auto simp: on_brokers_def authd_brokers_free_def Let_def split: prod.split option.split)
  have modes: "st_run_display (on_auth_modes E J payload s) = st_run_display s"
    using parse_list_shape [of J payload "''id''" "''label''" "authd_auth_modes_free s"]
    by (auto simp: on_auth_modes_def authd_auth_modes_free_def Let_def split: prod.split option.split)
  show ?thesis
    by (auto simp: handle_message_def brokers modes on_auth_result_def on_stage_def on_ui_layout_def
        on_auth_event_def grants_def Let_def comm_msg_defs)
qed

lemma message_exit:
  assumes "arg_mode (st_args s) \<noteq> BACKGROUND_MODE_INVALID"
  shows "st_exit (handle_message E J ty payload len s) = st_exit s"
proof -
  have brokers: "st_exit (on_brokers E J payload s) = st_exit s"
    using parse_list_shape [of J payload "''id''" "''name''" "authd_brokers_free s"] assms
    by (auto simp: on_brokers_def authd_brokers_free_def Let_def split: prod.split option.split)
  have modes: "st_exit (on_auth_modes E J payload s) = st_exit s"
    using parse_list_shape [of J payload "''id''" "''label''" "authd_auth_modes_free s"] assms
    by (auto simp: on_auth_modes_def authd_auth_modes_free_def Let_def split: prod.split option.split)
  show ?thesis
    using assms by (auto simp: handle_message_def brokers modes on_auth_result_def on_stage_def
        on_ui_layout_def on_auth_event_def timer_eqs Let_def)
qed

lemma comm_in_run_display:
  assumes "st_run_display s" "\<not> st_run_display (comm_in E J msk s)"
  shows "\<exists>ty payload len s1. comm_main_read s = (CommRet ty payload len, s1) \<and> 0 < ty \<and>
    grants (word_of_int ty) payload len \<and> msk AND POLLERR = 0 \<and> msk AND POLLIN \<noteq> 0"
proof -
  obtain r s1 where c: "comm_main_read s = (r, s1)"
    by (cases "comm_main_read s")
  obtain p sch mem where "s1 = s\<lparr>io_in := p, io_rd := sch, io_mem := mem\<rparr>"
    using comm_read_shape [of s] c by (auto simp: comm_main_read_def)
  then have "st_run_display s1"
    using assms(1) by simp
  then show ?thesis
    using assms c
    by (auto simp: comm_in_def exit_with_def message_run_display split: if_splits comm_result.splits)
qed

lemma comm_in_message:
  assumes "benign s" "valid_message (ty, payload)" "ty \<noteq> 0"
    "pipe_data (io_in s) = frame_bytes (ty, payload) @ rest" "msk AND POLLERR = 0" "msk AND POLLIN \<noteq> 0"
  shows "\<exists>sch mem. comm_in E J msk s =
    handle_message E J ty (if payload = [] then None else Some (payload @ [0])) (length payload)
      (s\<lparr>io_in := (io_in s)\<lparr>pipe_data := rest\<rparr>, io_rd := sch, io_mem := mem\<rparr>)"
proof -
  obtain sch mem where "comm_read s = (message_result (ty, payload),
      s\<lparr>io_in := (io_in s)\<lparr>pipe_data := rest\<rparr>, io_rd := sch, io_mem := mem\<rparr>)"
    using comm_read_frame [OF assms(1), of payload ty rest] assms(2,4) by (auto simp: valid_message_def)
  moreover have "\<not> uint ty \<le> 0"
    using assms(3) by (metis uint_0_iff uint_ge_0 order_antisym)
  ultimately show ?thesis
    using assms(5,6) by (auto simp: comm_in_def comm_main_read_def message_result_def)
qed

lemma sample_inv: "main_inv None sample_state"
proof -
  have "timers_ok None sample_state"
    by (auto simp: timers_ok_def sample_state_def loop_wf_def loop_create_def slot_ok_def tms.others_def
        live_def slot_of_def split: timer_callback.split)
  moreover have "pw_repr (st_password sample_state) []"
    by (simp add: sample_state_def pw_repr_def sample_pw_def)
  then have "data_ok sample_state"
    unfolding data_ok_def by (auto simp: sample_state_def lists_wf_def sel_ok_def)
  ultimately show ?thesis
    by (simp add: main_inv_def)
qed

section \<open>Properties\<close>

text \<open>
  C16: a message of the child ends the lock only when it is the verdict that grants access: an
  AUTH\<^verbatim>\<open>_\<close>RESULT frame whose first byte is 1. No other message, no hang-up, no read error and no
  malformed frame clears the flag that keeps the screen locked.\<close>

theorem comm_in_unlocks_only_on_grant:
  assumes "st_run_display s" "\<not> st_run_display (comm_in E J msk s)"
  shows "\<exists>ty payload len s1. comm_main_read s = (CommRet ty payload len, s1) \<and>
    word_of_int ty = COMM_MSG_AUTH_RESULT \<and> len \<ge> 1 \<and> the payload ! 0 = 0x01"
  using comm_in_run_display [OF assms] by (auto simp: grants_def)

theorem comm_in_unlocks_only_on_grant_witness:
  "\<exists>s J. \<forall>E. \<not> st_run_display (comm_in E (J :: unit cjson) POLLIN s) \<and>
     (\<exists>ty payload len s1. comm_main_read s = (CommRet ty payload len, s1) \<and>
        word_of_int ty = COMM_MSG_AUTH_RESULT \<and> len \<ge> 1 \<and> the payload ! 0 = 0x01)"
proof -
  define s where "s = sample_state\<lparr>io_in := \<lparr>pipe_data = frame_bytes (COMM_MSG_AUTH_RESULT, [1]),
    pipe_wopen = True\<rparr>\<rparr>"
  have run: "st_run_display s" and b: "benign s"
    by (simp_all add: s_def sample_state_def sample_io_def benign_def)
  have v: "valid_message (COMM_MSG_AUTH_RESULT, [1])" and nz: "COMM_MSG_AUTH_RESULT \<noteq> 0"
    and data: "pipe_data (io_in s) = frame_bytes (COMM_MSG_AUTH_RESULT, [1]) @ []"
    and pe: "POLLIN AND POLLERR = 0" "POLLIN AND POLLIN \<noteq> 0"
    by (simp_all add: valid_message_def comm_msg_defs s_def POLLIN_def POLLERR_def)
  have ng: "\<not> st_run_display (comm_in E (undefined :: unit cjson) POLLIN s)" for E
  proof -
    obtain sch mem where "comm_in E (undefined :: unit cjson) POLLIN s =
        handle_message E (undefined :: unit cjson) COMM_MSG_AUTH_RESULT (Some [1, 0]) (Suc 0)
          (s\<lparr>io_in := (io_in s)\<lparr>pipe_data := []\<rparr>, io_rd := sch, io_mem := mem\<rparr>)"
      using comm_in_message [OF b v nz data pe, of E undefined] by auto
    then show ?thesis
      by (simp add: message_run_display grants_def)
  qed
  show ?thesis
    using ng comm_in_unlocks_only_on_grant [OF run ng] by blast
qed

text \<open>
  C15: every handler of a message keeps the invariant of the main process, whatever the child sends
  and whatever the JSON library makes of it: the counts of brokers and authentication modes agree with
  the arrays, the selections are inside them and the timer slots are sound.\<close>

theorem comm_in_invariant:
  assumes "main_inv f s"
  shows "main_inv f (comm_in E J msk s)"
  by (rule inv_comm_in [OF assms])

theorem comm_in_invariant_witness:
  "\<forall>E J. main_inv None (comm_in E (J :: unit cjson) POLLIN (sample_state\<lparr>
     io_in := \<lparr>pipe_data = frame_bytes (COMM_MSG_BROKERS, [0x5b]), pipe_wopen = True\<rparr>\<rparr>))"
proof (intro allI)
  fix E and J :: "unit cjson"
  let ?s = "sample_state\<lparr>io_in := \<lparr>pipe_data = frame_bytes (COMM_MSG_BROKERS, [0x5b]), pipe_wopen = True\<rparr>\<rparr>"
  have "main_inv None ?s"
    by (simp add: sample_inv)
  then show "main_inv None (comm_in E J POLLIN ?s)"
    by (rule comm_in_invariant)
qed

text \<open>
  A refusal. When the next message of the pipe is a verdict other than access granted, the screen
  stays locked, the indicator shows the failure, exactly one failed attempt is counted, and the
  timer that hides the message is pending unless memory ran out.\<close>

theorem comm_in_denied:
  assumes "main_inv None s" "benign s" "length payload \<le> 2 ^ 20" "take 1 payload \<noteq> [0x01]"
    "pipe_data (io_in s) = frame_bytes (COMM_MSG_AUTH_RESULT, payload) @ rest"
    "msk AND POLLERR = 0" "msk AND POLLIN \<noteq> 0" "arg_mode (st_args s) \<noteq> BACKGROUND_MODE_INVALID"
  shows "let s' = comm_in E J msk s in
    st_run_display s' = st_run_display s \<and> st_exit s' = st_exit s \<and>
    st_auth_state s' = AUTH_STATE_INVALID \<and> st_failed_attempts s' = st_failed_attempts s + 1 \<and>
    pipe_data (io_in s') = rest \<and>
    (fst (next_result True (st_timer_alloc s)) \<longrightarrow>
       (\<exists>t. st_auth_idle_timer s' = Some t \<and> live (st_eventloop s') t = Some Set_auth_idle))"
proof -
  have v: "valid_message (COMM_MSG_AUTH_RESULT, payload)" "COMM_MSG_AUTH_RESULT \<noteq> 0"
    using assms(3) by (simp_all add: valid_message_def comm_msg_defs)
  obtain sch mem where c: "comm_in E J msk s =
      handle_message E J COMM_MSG_AUTH_RESULT (if payload = [] then None else Some (payload @ [0]))
        (length payload) (s\<lparr>io_in := (io_in s)\<lparr>pipe_data := rest\<rparr>, io_rd := sch, io_mem := mem\<rparr>)"
    using comm_in_message [OF assms(2) v assms(5-7)] by blast
  let ?s0 = "s\<lparr>io_in := (io_in s)\<lparr>pipe_data := rest\<rparr>, io_rd := sch, io_mem := mem\<rparr>"
  let ?s1 = "schedule_auth_idle (?s0\<lparr>st_auth_state := AUTH_STATE_INVALID\<rparr>)"
  have "\<not> (length payload \<ge> 1 \<and> (payload @ [0]) ! 0 = 1)"
    using assms(4) by (cases payload) auto
  then have e: "comm_in E J msk s =
      damage_state E (?s1\<lparr>st_failed_attempts := st_failed_attempts ?s1 + 1\<rparr>)"
    using c by (auto simp: handle_message_def on_auth_result_def Let_def)
  have "main_inv None (comm_in E J msk s)"
    by (rule inv_comm_in [OF assms(1)])
  moreover have "\<exists>t. st_auth_idle_timer (comm_in E J msk s) = Some t"
    if "fst (next_result True (st_timer_alloc s))"
    using that unfolding e by (simp add: schedule_auth_idle_eq resched_def tms.reschedule_def loop_add_timer_def)
  ultimately have "\<exists>t. st_auth_idle_timer (comm_in E J msk s) = Some t \<and>
      live (st_eventloop (comm_in E J msk s)) t = Some Set_auth_idle"
    if "fst (next_result True (st_timer_alloc s))"
    using that by (auto simp: live_slot slot_of_def)
  then show ?thesis
    using e assms(8) by (simp add: Let_def schedule_auth_idle_eq)
qed

theorem comm_in_denied_witness:
  "\<forall>E J. st_failed_attempts (comm_in E (J :: unit cjson) POLLIN (sample_state\<lparr>
     io_in := \<lparr>pipe_data = frame_bytes (COMM_MSG_AUTH_RESULT, [0]), pipe_wopen = True\<rparr>\<rparr>)) = 1"
proof (intro allI)
  fix E and J :: "unit cjson"
  let ?s = "sample_state\<lparr>io_in := \<lparr>pipe_data = frame_bytes (COMM_MSG_AUTH_RESULT, [0]), pipe_wopen = True\<rparr>\<rparr>"
  have "main_inv None ?s"
    by (simp add: sample_inv)
  moreover have "benign ?s" "pipe_data (io_in ?s) = frame_bytes (COMM_MSG_AUTH_RESULT, [0]) @ []"
    by (simp_all add: benign_def sample_state_def sample_io_def)
  moreover have "POLLIN AND POLLERR = 0" "POLLIN AND POLLIN \<noteq> 0" "st_failed_attempts ?s = 0"
    "arg_mode (st_args ?s) \<noteq> BACKGROUND_MODE_INVALID"
    by (simp_all add: POLLIN_def POLLERR_def sample_state_def sample_args_def)
  ultimately show "st_failed_attempts (comm_in E J POLLIN ?s) = 1"
    using comm_in_denied [of ?s "[0]" "[]" POLLIN E J]
    by (simp add: Let_def)
qed

text \<open>
  The list of brokers. When the next message is a BROKERS frame whose text is a JSON array and
  memory is available, the list shown is the list of the first 256 elements with the members
  \<^verbatim>\<open>id\<close> and \<^verbatim>\<open>name\<close> that are strings, the first entry is selected, and the selection stage
  is active.\<close>

theorem comm_in_brokers:
  assumes "benign s" "payload \<noteq> []" "length payload \<le> 2 ^ 20"
    "pipe_data (io_in s) = frame_bytes (COMM_MSG_BROKERS, payload) @ rest"
    "msk AND POLLERR = 0" "msk AND POLLIN \<noteq> 0"
    "js_parse J (Some (cstr payload)) = Some arr" "js_is_array J arr"
  shows "let s' = comm_in E J msk s; n = min (js_array_size J arr) 256 in
    in_selection s' \<and> is_broker_stage s' \<and> st_authd_sel_broker s' = 0 \<and>
    st_authd_num_brokers s' = int n \<and> length (st_authd_brokers s') = n \<and>
    (\<forall>i < n. br_id (st_authd_brokers s' ! i) =
        cjson_string J (js_object_item J (js_array_item J arr i) ''id'') \<and>
      br_name (st_authd_brokers s' ! i) =
        cjson_string J (js_object_item J (js_array_item J arr i) ''name'')) \<and>
    st_run_display s' = st_run_display s"
proof -
  have v: "valid_message (COMM_MSG_BROKERS, payload)" "COMM_MSG_BROKERS \<noteq> 0"
    using assms(3) by (simp_all add: valid_message_def comm_msg_defs)
  obtain sch mem where c: "Fail \<notin> set sch" "False \<notin> set mem" "comm_read s =
      (message_result (COMM_MSG_BROKERS, payload),
       s\<lparr>io_in := (io_in s)\<lparr>pipe_data := rest\<rparr>, io_rd := sch, io_mem := mem\<rparr>)"
    using comm_read_frame [OF assms(1,3,4)] by blast
  let ?s = "s\<lparr>io_in := (io_in s)\<lparr>pipe_data := rest\<rparr>, io_rd := sch, io_mem := mem\<rparr>"
  obtain ok mem' where m: "next_result True mem = (ok, mem')" "ok"
    using c(2) by (cases mem) auto
  have jt: "json_text (Some (payload @ [0])) = Some (cstr payload)"
    by (simp add: json_text_def cstr_append_nul_general)
  have in_range: "\<not> uint COMM_MSG_BROKERS \<le> 0"
    by (simp add: comm_msg_defs)
  have "comm_in E J msk s = on_brokers E J (Some (payload @ [0])) ?s"
    using assms(2,5,6) c(3) in_range
    by (simp add: comm_in_def comm_main_read_def message_result_def handle_message_def comm_msg_defs)
  then show ?thesis
    using assms(7,8) m
    by (simp add: on_brokers_def parse_list_def jt authd_brokers_free_def Let_def in_selection_def
        is_broker_stage_def json_pairs_def)
qed

theorem comm_in_brokers_witness:
  "\<forall>E. br_id (st_authd_brokers (comm_in E
      \<lparr>js_parse = (\<lambda>_. Some 0), js_is_array = (\<lambda>_. True), js_array_size = (\<lambda>_. 1),
       js_array_item = (\<lambda>_ _. Some 1), js_object_item = (\<lambda>_ k. if k = ''id'' then Some 2 else None),
       js_string_value = (\<lambda>_ :: nat. Some ''local'')\<rparr> POLLIN
      (sample_state\<lparr>io_in := \<lparr>pipe_data = frame_bytes (COMM_MSG_BROKERS, [0x5b]), pipe_wopen = True\<rparr>\<rparr>)) ! 0) =
    Some ''local''"
proof
  fix E
  let ?J = "\<lparr>js_parse = (\<lambda>_. Some 0), js_is_array = (\<lambda>_. True), js_array_size = (\<lambda>_. 1),
       js_array_item = (\<lambda>_ _. Some 1), js_object_item = (\<lambda>_ k. if k = ''id'' then Some 2 else None),
       js_string_value = (\<lambda>_ :: nat. Some ''local'')\<rparr> :: nat cjson"
  let ?s = "sample_state\<lparr>io_in := \<lparr>pipe_data = frame_bytes (COMM_MSG_BROKERS, [0x5b]), pipe_wopen = True\<rparr>\<rparr>"
  have "benign ?s" "pipe_data (io_in ?s) = frame_bytes (COMM_MSG_BROKERS, [0x5b]) @ []"
    "POLLIN AND POLLERR = 0" "POLLIN AND POLLIN \<noteq> 0"
    by (simp_all add: benign_def sample_state_def sample_io_def POLLIN_def POLLERR_def)
  then show "br_id (st_authd_brokers (comm_in E ?J POLLIN ?s) ! 0) = Some ''local''"
    using comm_in_brokers [of ?s "[0x5b]" "[]" POLLIN ?J 0 E] by (simp add: Let_def cjson_string_def)
qed

end
