(* ===== verification/Image.thy ===== *)
theory Image
  imports Render
begin

text \<open>
  The images of \<^verbatim>\<open>src/main.c\<close>: comparing output names, choosing the image of an output, and the
  \<^verbatim>\<open>--image\<close> option with its shell expansion. \<^verbatim>\<open>wordexp\<close> and the reading of an image file are
  parameters; a list of words is never empty. The list of images is kept from head to tail.
\<close>

section \<open>Operations\<close>

text \<open>\<^verbatim>\<open>strcmp\<close> compares bytes as unsigned numbers; only the sign of the result is used.\<close>

fun strcmp :: "string \<Rightarrow> string \<Rightarrow> int" where
  "strcmp [] [] = 0"
| "strcmp [] (b # bs) = -1"
| "strcmp (a # as) [] = 1"
| "strcmp (a # as) (b # bs) =
     (if a = b then strcmp as bs else if (of_char a :: nat) < of_char b then -1 else 1)"

definition lenient_strcmp :: "string option \<Rightarrow> string option \<Rightarrow> int" where
  "lenient_strcmp a b =
     (case a of
        None \<Rightarrow> (case b of None \<Rightarrow> 0 | Some _ \<Rightarrow> -1)
      | Some x \<Rightarrow> (case b of None \<Rightarrow> 1 | Some y \<Rightarrow> strcmp x y))"

fun select_image_loop ::
    "string option \<Rightarrow> swaylock_image list \<Rightarrow> image_surface option \<Rightarrow> image_surface option" where
  "select_image_loop name [] default_image = default_image"
| "select_image_loop name (i # is) default_image =
     (if lenient_strcmp (im_output_name i) name = 0 then Some (im_surface i)
      else if im_output_name i = None then select_image_loop name is (Some (im_surface i))
      else select_image_loop name is default_image)"

definition select_image :: "swaylock_state \<Rightarrow> swaylock_surface \<Rightarrow> image_surface option" where
  "select_image s sf = select_image_loop (sf_output_name sf) (st_images s) None"

definition join_args :: "string list \<Rightarrow> string" where
  "join_args argv = butlast (concat (map (\<lambda>a. a @ '' '') argv))"

text \<open>
  The loop that puts a backslash between two adjacent spaces, once for the first such pair of every
  round: \<open>escape_once\<close> is \<open>None\<close> when there is no pair.
\<close>

fun escape_once :: "string \<Rightarrow> string option" where
  "escape_once (a # b # cs) =
     (if a = CHR '' '' \<and> b = CHR '' '' then Some (a # CHR 0x5C # b # cs)
      else map_option (Cons a) (escape_once (b # cs)))"
| "escape_once cs = None"

fun space_pairs :: "string \<Rightarrow> nat" where
  "space_pairs (a # b # cs) =
     (if a = CHR '' '' \<and> b = CHR '' '' then 1 else 0) + space_pairs (b # cs)"
| "space_pairs cs = 0"

lemma escape_once_hd: "escape_once (a # cs) = Some ds \<Longrightarrow> \<exists>es. ds = a # es"
  by (induction "a # cs" arbitrary: a cs ds rule: escape_once.induct) (auto split: if_splits)

lemma escape_once_pairs: "escape_once cs = Some ds \<Longrightarrow> space_pairs cs = Suc (space_pairs ds)"
proof (induction cs arbitrary: ds rule: escape_once.induct)
  case (1 a b cs)
  show ?case
  proof (cases "a = CHR '' '' \<and> b = CHR '' ''")
    case True
    then show ?thesis using "1.prems" by (cases cs) auto
  next
    case False
    then obtain es where e: "escape_once (b # cs) = Some es" "ds = a # es"
      using "1.prems" by auto
    obtain fs where "es = b # fs"
      using escape_once_hd [OF e(1)] by blast
    then show ?thesis
      using "1.IH" [OF False e(1)] e(2) False by auto
  qed
qed simp_all

function escape_spaces :: "string \<Rightarrow> string" where
  "escape_spaces path = (case escape_once path of None \<Rightarrow> path | Some p \<Rightarrow> escape_spaces p)"
  by pat_completeness auto
termination
  by (relation "measure space_pairs") (auto dest: escape_once_pairs)

declare escape_spaces.simps [simp del]

text \<open>\<^verbatim>\<open>[[<output>]:]<path>\<close>: output name and path of an argument.\<close>

definition split_image_arg :: "string \<Rightarrow> string option \<times> string" where
  "split_image_arg arg =
     (if CHR '':'' \<in> set arg then
        (let before = takeWhile (\<lambda>c. c \<noteq> CHR '':'') arg;
             after = tl (dropWhile (\<lambda>c. c \<noteq> CHR '':'') arg)
         in (if before = [] then None else Some before, after))
      else (None, arg))"

fun remove_image :: "string option \<Rightarrow> swaylock_image list \<Rightarrow> swaylock_image list" where
  "remove_image name [] = []"
| "remove_image name (i # is) =
     (if lenient_strcmp (im_output_name i) name = 0 then is else i # remove_image name is)"

definition load_image ::
    "(string \<Rightarrow> string list option) \<Rightarrow> (string \<Rightarrow> image_surface option) \<Rightarrow> string \<Rightarrow>
       swaylock_state \<Rightarrow> swaylock_state" where
  "load_image wordexp load arg s =
     (case split_image_arg arg of (name, path) \<Rightarrow>
        (let images = remove_image name (st_images s);
             escaped = escape_spaces path;
             path = (case wordexp escaped of None \<Rightarrow> escaped | Some ws \<Rightarrow> join_args ws)
         in case load path of
              None \<Rightarrow> s\<lparr>st_images := images\<rparr>
            | Some surface \<Rightarrow>
                s\<lparr>st_images := \<lparr>im_path = path, im_output_name = name, im_surface = surface\<rparr> # images\<rparr>))"

section \<open>Specification\<close>

text \<open>The images as a map from output names, \<open>None\<close> standing for the default image.\<close>

definition image_map :: "swaylock_image list \<Rightarrow> string option \<rightharpoonup> image_surface" where
  "image_map is = map_of (map (\<lambda>i. (im_output_name i, im_surface i)) is)"

definition images_ok :: "swaylock_image list \<Rightarrow> bool" where
  "images_ok is \<longleftrightarrow> distinct (map im_output_name is)"

text \<open>One pass that puts a backslash between adjacent spaces.\<close>

fun escape_ref :: "string \<Rightarrow> string" where
  "escape_ref (a # b # cs) =
     (if a = CHR '' '' \<and> b = CHR '' '' then a # CHR 0x5C # escape_ref (b # cs)
      else a # escape_ref (b # cs))"
| "escape_ref cs = cs"

section \<open>Lemmas\<close>

lemma strcmp_eq: "strcmp a b = 0 \<longleftrightarrow> a = b"
  by (induction a b rule: strcmp.induct) auto

lemma lenient_strcmp_eq [simp]: "lenient_strcmp a b = 0 \<longleftrightarrow> a = b"
  by (simp add: lenient_strcmp_def strcmp_eq split: option.split)

lemma select_image_loop_map:
  "select_image_loop name is d =
     (case image_map is name of
        Some i \<Rightarrow> Some i
      | None \<Rightarrow> if None \<in> im_output_name ` set is
                then select_image_loop name is d else d)"
  by (induction "is" arbitrary: d) (auto simp: image_map_def split: option.split if_splits)

lemma select_image_loop_spec:
  assumes "images_ok is" "None \<in> im_output_name ` set is \<Longrightarrow> d = None"
  shows "select_image_loop name is d =
    (case image_map is name of Some i \<Rightarrow> Some i
     | None \<Rightarrow> (case image_map is None of Some i \<Rightarrow> Some i | None \<Rightarrow> d))"
  using assms
proof (induction "is" arbitrary: d)
  case Nil
  then show ?case by (simp add: image_map_def)
next
  case (Cons i "is")
  have ok: "images_ok is"
    using Cons.prems(1) by (simp add: images_ok_def)
  show ?case
  proof (cases "im_output_name i = None")
    case True
    then have "None \<notin> im_output_name ` set is"
      using Cons.prems(1) by (simp add: images_ok_def)
    moreover from this have "image_map is None = None"
      by (force simp: image_map_def map_of_eq_None_iff)
    ultimately show ?thesis
      using Cons.IH [OF ok] True by (auto simp: image_map_def split: option.split)
  next
    case False
    then show ?thesis
      using Cons.IH [OF ok] Cons.prems(2) by (auto simp: image_map_def split: option.split)
  qed
qed

lemma remove_image_names:
  "set (map im_output_name (remove_image name is)) \<subseteq> set (map im_output_name is)"
  by (induction "is") auto

lemma remove_image_ok:
  assumes "images_ok is"
  shows "images_ok (remove_image name is)" "name \<notin> set (map im_output_name (remove_image name is))"
    "image_map (remove_image name is) = (image_map is)(name := None)"
proof -
  have "images_ok (remove_image name is) \<and> name \<notin> set (map im_output_name (remove_image name is)) \<and>
    image_map (remove_image name is) = (image_map is)(name := None)"
    using assms
  proof (induction "is")
    case Nil
    then show ?case by (simp add: images_ok_def image_map_def)
  next
    case (Cons i "is")
    have ok: "images_ok is" and new: "im_output_name i \<notin> set (map im_output_name is)"
      using Cons.prems by (simp_all add: images_ok_def)
    show ?case
    proof (cases "im_output_name i = name")
      case True
      then have "image_map is name = None"
        using new by (force simp: image_map_def map_of_eq_None_iff)
      then show ?thesis
        using True ok new by (auto simp: image_map_def)
    next
      case False
      then show ?thesis
        using Cons.IH [OF ok] new remove_image_names [of name "is"]
        by (auto simp: images_ok_def image_map_def fun_eq_iff)
    qed
  qed
  then show "images_ok (remove_image name is)" "name \<notin> set (map im_output_name (remove_image name is))"
    "image_map (remove_image name is) = (image_map is)(name := None)"
    by blast+
qed

lemma escape_once_None: "escape_once cs = None \<Longrightarrow> escape_ref cs = cs"
  by (induction cs rule: escape_once.induct) (auto split: if_splits)

lemma escape_once_ref: "escape_once cs = Some ds \<Longrightarrow> escape_ref ds = escape_ref cs"
proof (induction cs arbitrary: ds rule: escape_once.induct)
  case (1 a b cs)
  show ?case
  proof (cases "a = CHR '' '' \<and> b = CHR '' ''")
    case True
    then show ?thesis using "1.prems" by auto
  next
    case False
    then obtain es where e: "escape_once (b # cs) = Some es" "ds = a # es"
      using "1.prems" by auto
    obtain fs where "es = b # fs"
      using escape_once_hd [OF e(1)] by blast
    then show ?thesis
      using "1.IH" [OF False e(1)] e(2) False by auto
  qed
qed simp_all

lemma escape_spaces_ref: "escape_spaces path = escape_ref path"
proof (induction path rule: escape_spaces.induct)
  case (1 path)
  then show ?case
    using escape_once_None [of path] escape_once_ref [of path]
    by (subst escape_spaces.simps) (auto split: option.split)
qed

lemma escape_ref_hd: "escape_ref (a # cs) = a # tl (escape_ref (a # cs))"
  by (cases cs) auto

lemma escape_ref_pairs: "space_pairs (escape_ref cs) = 0"
proof (induction cs rule: escape_ref.induct)
  case (1 a b cs)
  then show ?case
    using escape_ref_hd [of b cs]
    by (cases "escape_ref (b # cs)") (auto split: if_splits)
qed simp_all

section \<open>Properties\<close>

text \<open>
  Images and outputs. The list of images behaves as a map from output names: loading an image
  replaces the one for the same output, a failed load only removes it, at most one image per output
  is kept, and an output shows the image for its name or else the default image.\<close>

theorem images_behave_as_map:
  assumes "images_ok (st_images s)" "split_image_arg arg = (name, path)"
    and s'_def: "s' = load_image wordexp load arg s"
  shows "images_ok (st_images s') \<and>
    image_map (st_images s') =
      (image_map (st_images s))(name :=
         load (case wordexp (escape_ref path) of None \<Rightarrow> escape_ref path | Some ws \<Rightarrow> join_args ws)) \<and>
    select_image s' sf =
      (case image_map (st_images s') (sf_output_name sf) of
         Some i \<Rightarrow> Some i | None \<Rightarrow> image_map (st_images s') None)"
proof -
  note r = remove_image_ok [OF assms(1), of name]
  let ?path = "case wordexp (escape_ref path) of None \<Rightarrow> escape_ref path | Some ws \<Rightarrow> join_args ws"
  have s': "st_images s' = (case load ?path of None \<Rightarrow> remove_image name (st_images s)
      | Some surface \<Rightarrow> \<lparr>im_path = ?path, im_output_name = name, im_surface = surface\<rparr> #
          remove_image name (st_images s))"
    using assms(2) by (simp add: s'_def load_image_def Let_def escape_spaces_ref split: option.split)
  have ok: "images_ok (st_images s')"
    using r by (auto simp: s' images_ok_def split: option.split)
  moreover have "image_map (st_images s') = (image_map (st_images s))(name := load ?path)"
    using r(3) by (auto simp: s' image_map_def fun_eq_iff split: option.split)
  moreover have "select_image s' sf =
      (case image_map (st_images s') (sf_output_name sf) of
         Some i \<Rightarrow> Some i | None \<Rightarrow> image_map (st_images s') None)"
    using select_image_loop_spec [OF ok, of None] by (simp add: select_image_def split: option.split)
  ultimately show ?thesis by blast
qed

theorem images_behave_as_map_witness:
  "\<exists>img. select_image (load_image (\<lambda>p. Some [p]) (\<lambda>p. Some (img p)) ''DP-1:/a  b'' sample_state) sample_surface =
     Some (img [CHR ''/'', CHR ''a'', CHR '' '', CHR 0x5C, CHR '' '', CHR ''b''])"
proof
  let ?img = "\<lambda>p. \<lparr>is_id = length p, is_width = 1, is_height = 1, is_opaque = True\<rparr>"
  have "images_ok (st_images sample_state)" "split_image_arg ''DP-1:/a  b'' = (Some ''DP-1'', ''/a  b'')"
    "image_map (st_images sample_state) = Map.empty" "sf_output_name sample_surface = Some ''DP-1''"
    by (simp_all add: sample_state_def images_ok_def split_image_arg_def image_map_def sample_surface_def)
  then show "select_image (load_image (\<lambda>p. Some [p]) (\<lambda>p. Some (?img p)) ''DP-1:/a  b'' sample_state)
      sample_surface = Some (?img [CHR ''/'', CHR ''a'', CHR '' '', CHR 0x5C, CHR '' '', CHR ''b''])"
    using images_behave_as_map [where s = sample_state and arg = "''DP-1:/a  b''"
        and name = "Some ''DP-1''" and path = "''/a  b''" and wordexp = "\<lambda>p. Some [p]"
        and load = "\<lambda>p. Some (?img p)" and sf = sample_surface]
    by (simp add: join_args_def)
qed

text \<open>
  The loop that escapes adjacent spaces of a path ends, computes what one pass over the path
  computes, and leaves no two adjacent spaces.\<close>

theorem escape_spaces_correct:
  "escape_spaces path = escape_ref path \<and> space_pairs (escape_spaces path) = 0"
  by (simp add: escape_spaces_ref escape_ref_pairs)

end
