(* ===== verification/Outputs.thy ===== *)
theory Outputs
  imports CommIn Image
begin

text \<open>
  The Wayland side of \<^verbatim>\<open>src/main.c\<close>: the life of a lock surface from the announcement of its output
  to its removal, the events of outputs, the events of the session lock and the registry. A surface is
  known by its position in \<^const>\<open>st_surfaces\<close>. Requests are recorded in \<^const>\<open>st_wire\<close>
  under the global name of the output. Memory for a new seat or surface is assumed to be available,
  and the library never returns a null object.
\<close>

section \<open>Surfaces\<close>

definition req_if :: "bool \<Rightarrow> 'a \<Rightarrow> 'a list" where
  "req_if b x = (if b then [x] else [])"

definition destroy_surface :: "nat \<Rightarrow> swaylock_state \<Rightarrow> swaylock_state" where
  "destroy_surface i s =
     (let sf = st_surfaces s ! i; name = sf_output_global_name sf in
      s\<lparr>st_surfaces := take i (st_surfaces s) @ drop (Suc i) (st_surfaces s),
        st_wire := st_wire s @
          req_if (sf_lock_surface sf) (DestroyLockSurface name) @
          req_if (sf_subsurface sf) (DestroySubsurface name) @
          req_if (sf_child sf) (DestroyChild name) @
          req_if (sf_surface sf) (DestroySurface name) @
          [ReleaseOutput name]\<rparr>)"

definition surface_is_opaque :: "swaylock_state \<Rightarrow> swaylock_surface \<Rightarrow> bool" where
  "surface_is_opaque s sf =
     (case sf_image sf of
        Some img \<Rightarrow> is_opaque img
      | None \<Rightarrow> col_background (arg_colors (st_args s)) AND 0xff = 0xff)"

definition create_surface :: "nat \<Rightarrow> swaylock_state \<Rightarrow> swaylock_state" where
  "create_surface i s =
     (let sf = st_surfaces s ! i; name = sf_output_global_name sf;
          sf' = sf\<lparr>sf_image := select_image s sf, sf_surface := True, sf_child := True,
                   sf_subsurface := True, sf_lock_surface := True, sf_created := True\<rparr>
      in s\<lparr>st_surfaces := (st_surfaces s)[i := sf'],
           st_wire := st_wire s @
             [CreateSurface name, CreateChild name, GetSubsurface name, GetLockSurface name] @
             req_if (surface_is_opaque s sf' \<and>
                   arg_mode (st_args s) \<noteq> BACKGROUND_MODE_CENTER \<and>
                   arg_mode (st_args s) \<noteq> BACKGROUND_MODE_FIT) (SetOpaqueRegion name)\<rparr>)"

definition ext_session_lock_surface_v1_handle_configure ::
    "libs \<Rightarrow> nat \<Rightarrow> u32 \<Rightarrow> u32 \<Rightarrow> u32 \<Rightarrow> swaylock_state \<Rightarrow> swaylock_state" where
  "ext_session_lock_surface_v1_handle_configure E i serial width height s =
     (let s1 = update_surface i (\<lambda>sf. sf\<lparr>sf_width := width, sf_height := height\<rparr>) s;
          s2 = send_request (AckConfigure (sf_output_global_name (st_surfaces s ! i)) serial) s1
      in render E i (update_surface i (\<lambda>sf. sf\<lparr>sf_dirty := True\<rparr>) s2))"

section \<open>Events of an output\<close>

definition redraw_if_running :: "libs \<Rightarrow> nat \<Rightarrow> swaylock_state \<Rightarrow> swaylock_state" where
  "redraw_if_running E i s =
     (if st_run_display s then render E i (update_surface i (\<lambda>sf. sf\<lparr>sf_dirty := True\<rparr>) s) else s)"

definition handle_wl_output_geometry ::
    "libs \<Rightarrow> nat \<Rightarrow> wl_output_subpixel \<Rightarrow> swaylock_state \<Rightarrow> swaylock_state" where
  "handle_wl_output_geometry E i subpixel s =
     redraw_if_running E i (update_surface i (\<lambda>sf. sf\<lparr>sf_subpixel := subpixel\<rparr>) s)"

definition handle_wl_output_done :: "nat \<Rightarrow> swaylock_state \<Rightarrow> swaylock_state" where
  "handle_wl_output_done i s =
     (if \<not> sf_created (st_surfaces s ! i) \<and> st_run_display s then create_surface i s else s)"

definition handle_wl_output_scale :: "libs \<Rightarrow> nat \<Rightarrow> int \<Rightarrow> swaylock_state \<Rightarrow> swaylock_state" where
  "handle_wl_output_scale E i factor s =
     redraw_if_running E i (update_surface i (\<lambda>sf. sf\<lparr>sf_scale := factor\<rparr>) s)"

definition handle_wl_output_name :: "nat \<Rightarrow> string \<Rightarrow> swaylock_state \<Rightarrow> swaylock_state" where
  "handle_wl_output_name i name s = update_surface i (\<lambda>sf. sf\<lparr>sf_output_name := Some name\<rparr>) s"

text \<open>Modes and descriptions are of no interest.\<close>

definition handle_wl_output_mode :: "nat \<Rightarrow> u32 \<Rightarrow> int \<Rightarrow> int \<Rightarrow> int \<Rightarrow> swaylock_state \<Rightarrow> swaylock_state" where
  "handle_wl_output_mode i flags width height refresh s = s"

definition handle_wl_output_description :: "nat \<Rightarrow> string \<Rightarrow> swaylock_state \<Rightarrow> swaylock_state" where
  "handle_wl_output_description i description s = s"

section \<open>Events of the session lock\<close>

definition ext_session_lock_v1_handle_locked :: "swaylock_state \<Rightarrow> swaylock_state" where
  "ext_session_lock_v1_handle_locked s = s\<lparr>st_locked := True\<rparr>"

definition ext_session_lock_v1_handle_finished :: "swaylock_state \<Rightarrow> swaylock_state" where
  "ext_session_lock_v1_handle_finished s =
     (if arg_steal_unlock (st_args s) then s\<lparr>st_lock_failed := True\<rparr> else exit_with 2 s)"

section \<open>The registry\<close>

text \<open>A structure from \<^verbatim>\<open>calloc\<close>: subpixel order 0 is the unknown one.\<close>

definition new_surface :: "u32 \<Rightarrow> swaylock_surface" where
  "new_surface name = \<lparr>sf_image = None, sf_output_global_name = name, sf_surface = False, sf_child = False,
     sf_subsurface = False, sf_lock_surface = False,
     sf_indicator_buffers = [empty_buffer, empty_buffer], sf_created = False, sf_dirty = False,
     sf_width = 0, sf_height = 0, sf_scale = 0, sf_subpixel = SUBPIXEL_OTHER, sf_output_name = None,
     sf_frame = False, sf_last_buffer_width = 0, sf_last_buffer_height = 0\<rparr>"

definition new_seat :: swaylock_seat where
  "new_seat = \<lparr>seat_pointer = False, seat_keyboard = False, seat_repeat_period_ms = 0,
     seat_repeat_delay_ms = 0, seat_repeat_sym = 0, seat_repeat_codepoint = 0, seat_repeat_timer = None\<rparr>"

definition handle_global :: "u32 \<Rightarrow> string \<Rightarrow> swaylock_state \<Rightarrow> swaylock_state" where
  "handle_global name interface s =
     (if interface = ''wl_compositor'' then
        send_request (BindGlobal name interface 4) (s\<lparr>st_compositor := True\<rparr>)
      else if interface = ''wl_subcompositor'' then
        send_request (BindGlobal name interface 1) (s\<lparr>st_subcompositor := True\<rparr>)
      else if interface = ''wl_shm'' then
        send_request (BindGlobal name interface 1) (s\<lparr>st_wl_shm := True\<rparr>)
      else if interface = ''wl_seat'' then
        send_request (BindGlobal name interface 4) (s\<lparr>st_seats := st_seats s @ [new_seat]\<rparr>)
      else if interface = ''wl_output'' then
        send_request (BindGlobal name interface 4) (s\<lparr>st_surfaces := new_surface name # st_surfaces s\<rparr>)
      else if interface = ''ext_session_lock_manager_v1'' then
        send_request (BindGlobal name interface 1) (s\<lparr>st_lock_manager := True\<rparr>)
      else s)"

fun surface_index :: "u32 \<Rightarrow> swaylock_surface list \<Rightarrow> nat option" where
  "surface_index name [] = None"
| "surface_index name (sf # sfs) =
     (if sf_output_global_name sf = name then Some 0 else map_option Suc (surface_index name sfs))"

definition handle_global_remove :: "u32 \<Rightarrow> swaylock_state \<Rightarrow> swaylock_state" where
  "handle_global_remove name s =
     (case surface_index name (st_surfaces s) of None \<Rightarrow> s | Some i \<Rightarrow> destroy_surface i s)"

section \<open>Specification: surfaces and requests\<close>

text \<open>A surface either exists with all its objects, or has none of them, no size and no pending frame.\<close>

definition surface_ok :: "swaylock_surface \<Rightarrow> bool" where
  "surface_ok sf \<longleftrightarrow>
     (if sf_created sf
      then sf_surface sf \<and> sf_child sf \<and> sf_subsurface sf \<and> sf_lock_surface sf
      else \<not> sf_surface sf \<and> \<not> sf_child sf \<and> \<not> sf_subsurface sf \<and> \<not> sf_lock_surface sf \<and>
        sf_width sf = 0 \<and> sf_height sf = 0 \<and> \<not> sf_frame sf)"

text \<open>
  A monitor of the requests: \<open>L\<close> is the set of outputs that have a surface. A surface is created once
  before it is used, used only while it exists, and destroyed with its parts in the order the protocol
  allows: the role object and the subsurface go before the surface.
\<close>

fun conforms :: "u32 set \<Rightarrow> wl_request list \<Rightarrow> bool" where
  "conforms L [] = True"
| "conforms L (r # rs) =
     (case r of
        CreateSurface n \<Rightarrow> n \<notin> L \<and> conforms (insert n L) rs
      | DestroySurface n \<Rightarrow> n \<in> L \<and> conforms (L - {n}) rs
      | AttachBackground n _ \<Rightarrow> n \<in> L \<and> conforms L rs
      | BufferScale n _ \<Rightarrow> n \<in> L \<and> conforms L rs
      | IndicatorPosition n _ _ \<Rightarrow> n \<in> L \<and> conforms L rs
      | IndicatorScale n _ \<Rightarrow> n \<in> L \<and> conforms L rs
      | AttachIndicator n _ _ _ \<Rightarrow> n \<in> L \<and> conforms L rs
      | CommitIndicator n \<Rightarrow> n \<in> L \<and> conforms L rs
      | RequestFrame n \<Rightarrow> n \<in> L \<and> conforms L rs
      | CommitSurface n \<Rightarrow> n \<in> L \<and> conforms L rs
      | AckConfigure n _ \<Rightarrow> n \<in> L \<and> conforms L rs
      | CreateChild n \<Rightarrow> n \<in> L \<and> conforms L rs
      | GetSubsurface n \<Rightarrow> n \<in> L \<and> conforms L rs
      | GetLockSurface n \<Rightarrow> n \<in> L \<and> conforms L rs
      | SetOpaqueRegion n \<Rightarrow> n \<in> L \<and> conforms L rs
      | DestroyLockSurface n \<Rightarrow> n \<in> L \<and> conforms L rs
      | DestroySubsurface n \<Rightarrow> n \<in> L \<and> conforms L rs
      | DestroyChild n \<Rightarrow> n \<in> L \<and> conforms L rs
      | ReleaseOutput n \<Rightarrow> n \<notin> L \<and> conforms L rs
      | _ \<Rightarrow> conforms L rs)"

fun live_surfaces :: "u32 set \<Rightarrow> wl_request list \<Rightarrow> u32 set" where
  "live_surfaces L [] = L"
| "live_surfaces L (r # rs) =
     live_surfaces (case r of CreateSurface n \<Rightarrow> insert n L | DestroySurface n \<Rightarrow> L - {n} | _ \<Rightarrow> L) rs"

definition created_names :: "swaylock_surface list \<Rightarrow> u32 set" where
  "created_names sfs = set (map sf_output_global_name (filter sf_created sfs))"

definition surfaces_ok :: "swaylock_state \<Rightarrow> bool" where
  "surfaces_ok s \<longleftrightarrow>
     distinct (map sf_output_global_name (st_surfaces s)) \<and> list_all surface_ok (st_surfaces s) \<and>
     conforms {} (st_wire s) \<and> live_surfaces {} (st_wire s) = created_names (st_surfaces s)"

section \<open>Lemmas\<close>

lemma conforms_append: "conforms L (a @ b) \<longleftrightarrow> conforms L a \<and> conforms (live_surfaces L a) b"
  by (induction a arbitrary: L) (auto split: wl_request.split)

lemma live_append: "live_surfaces L (a @ b) = live_surfaces (live_surfaces L a) b"
  by (induction a arbitrary: L) auto

lemma configured_created: "surface_ok sf \<Longrightarrow> configured sf \<Longrightarrow> sf_created sf"
  by (auto simp: surface_ok_def configured_def u32_int_def split: if_splits)

lemma drawing_one:
  assumes "drawing n r" "n \<in> L"
  shows "conforms L (r # rs) = conforms L rs" "live_surfaces L (r # rs) = live_surfaces L rs"
  using assms by (cases r; simp add: drawing_def)+

lemma drawing_conforms:
  "\<forall>r \<in> set w. \<exists>n \<in> L. drawing n r \<Longrightarrow> conforms L w \<and> live_surfaces L w = L"
proof (induction w)
  case (Cons r w)
  then obtain n where "drawing n r" "n \<in> L" by auto
  then show ?case
    using Cons drawing_one by simp
qed simp

lemma step_created_names:
  "list_all2 surface_step sfs sfs' \<Longrightarrow> created_names sfs' = created_names sfs"
proof (induction rule: list_all2_induct)
  case (Cons x xs y ys)
  then show ?case
    using surface_core_eq(2,3) [of y x] by (simp add: created_names_def surface_step_def)
qed simp

lemma step_names:
  "list_all2 surface_step sfs sfs' \<Longrightarrow> map sf_output_global_name sfs' = map sf_output_global_name sfs"
  by (induction rule: list_all2_induct) (auto simp: surface_step_def dest: surface_core_eq(2))

lemma step_surface_ok: "surface_step sf sf' \<Longrightarrow> surface_ok sf \<Longrightarrow> surface_ok sf'"
  using configured_created [of sf] surface_core_eq [of sf' sf]
  unfolding surface_step_def surface_ok_def by (metis (full_types))

lemma step_surfaces_ok: "list_all2 surface_step sfs sfs' \<Longrightarrow> list_all surface_ok sfs \<Longrightarrow> list_all surface_ok sfs'"
  by (induction rule: list_all2_induct) (auto dest: step_surface_ok)

lemma surfaces_ok_quiet:
  assumes "surfaces_ok s" "quiet s s'"
  shows "surfaces_ok s'"
proof -
  obtain w where w: "st_wire s' = st_wire s @ w" "\<forall>r \<in> set w. draws s r"
    and step: "list_all2 surface_step (st_surfaces s) (st_surfaces s')"
    using assms(2) unfolding quiet_def by blast
  have "\<forall>r \<in> set w. \<exists>n \<in> created_names (st_surfaces s). drawing n r"
    using w(2) assms(1) configured_created
    by (fastforce simp: draws_def created_names_def surfaces_ok_def list_all_iff)
  from drawing_conforms [OF this] show ?thesis
    using assms(1) step_created_names [OF step] step_names [OF step] step_surfaces_ok [OF step] w(1)
    by (simp add: surfaces_ok_def conforms_append live_append)
qed

lemma surfaces_ok_created:
  assumes "surfaces_ok s" "i < length (st_surfaces s)"
  shows "sf_output_global_name (st_surfaces s ! i) \<in> live_surfaces {} (st_wire s) \<longleftrightarrow>
    sf_created (st_surfaces s ! i)"
proof -
  have "sf_created (st_surfaces s ! i)"
    if "j < length (st_surfaces s)" "sf_created (st_surfaces s ! j)"
      "sf_output_global_name (st_surfaces s ! i) = sf_output_global_name (st_surfaces s ! j)" for j
    using that assms nth_eq_iff_index_eq [of "map sf_output_global_name (st_surfaces s)" i j]
    by (auto simp: surfaces_ok_def)
  then show ?thesis
    using assms by (auto simp: surfaces_ok_def created_names_def in_set_conv_nth)
qed

lemma created_names_map:
  "created_names sfs = snd ` {p \<in> set (map (\<lambda>sf. (sf_created sf, sf_output_global_name sf)) sfs). fst p}"
  by (force simp: created_names_def)

lemma surfaces_ok_nth: "surfaces_ok s \<Longrightarrow> i < length (st_surfaces s) \<Longrightarrow> surface_ok (st_surfaces s ! i)"
  by (simp add: surfaces_ok_def list_all_length)

lemma surfaces_ok_update:
  assumes "surfaces_ok s"
    and "\<And>sf. sf_output_global_name (f sf) = sf_output_global_name sf" "\<And>sf. sf_created (f sf) = sf_created sf"
    and "i < length (st_surfaces s) \<Longrightarrow> surface_ok (st_surfaces s ! i) \<Longrightarrow> surface_ok (f (st_surfaces s ! i))"
  shows "surfaces_ok (update_surface i f s)"
proof (cases "i < length (st_surfaces s)")
  case True
  let ?sfs = "(st_surfaces s)[i := f (st_surfaces s ! i)]"
  have "map sf_output_global_name ?sfs = map sf_output_global_name (st_surfaces s)"
    using assms(2) by (simp add: map_update list_update_same_conv True)
  moreover have "map (\<lambda>sf. (sf_created sf, sf_output_global_name sf)) ?sfs =
      map (\<lambda>sf. (sf_created sf, sf_output_global_name sf)) (st_surfaces s)"
    using assms(2,3) by (simp add: map_update list_update_same_conv True)
  then have "created_names ?sfs = created_names (st_surfaces s)"
    by (simp only: created_names_map)
  moreover have "list_all surface_ok ?sfs"
    using assms(1,4) True by (auto simp: surfaces_ok_def list_all_length nth_list_update)
  ultimately show ?thesis
    using assms(1) by (simp add: surfaces_ok_def update_surface_def)
qed (use assms in \<open>simp add: update_surface_def list_update_beyond\<close>)

lemma surfaces_ok_rendered: "surfaces_ok s \<Longrightarrow> rendered s s' \<Longrightarrow> surfaces_ok s'"
  using surfaces_ok_quiet quiet_rendered by blast

lemma surfaces_ok_redraw:
  assumes "surfaces_ok s" "i < length (st_surfaces s)"
  shows "surfaces_ok (render E i (update_surface i (\<lambda>sf. sf\<lparr>sf_dirty := True\<rparr>) s))"
  using assms
  by (intro surfaces_ok_rendered [OF surfaces_ok_update rendered_render]) (auto simp: surface_ok_def)

lemma created_names_insert:
  assumes "i < length sfs" "\<not> sf_created (sfs ! i)" "sf_created sf"
    "sf_output_global_name sf = sf_output_global_name (sfs ! i)"
  shows "created_names (sfs[i := sf]) = insert (sf_output_global_name sf) (created_names sfs)"
proof -
  have e: "sfs = take i sfs @ sfs ! i # drop (Suc i) sfs" "sfs[i := sf] = take i sfs @ sf # drop (Suc i) sfs"
    using assms(1) by (simp_all add: id_take_nth_drop upd_conv_take_nth_drop)
  show ?thesis
    by (subst (2) e(1), unfold e(2)) (simp add: created_names_def assms)
qed

lemma surfaces_ok_create:
  assumes "surfaces_ok s" "i < length (st_surfaces s)" "\<not> sf_created (st_surfaces s ! i)"
  shows "surfaces_ok (create_surface i s)"
proof -
  let ?sf = "(st_surfaces s ! i)\<lparr>sf_image := select_image s (st_surfaces s ! i), sf_surface := True,
    sf_child := True, sf_subsurface := True, sf_lock_surface := True, sf_created := True\<rparr>"
  have "map sf_output_global_name ((st_surfaces s)[i := ?sf]) = map sf_output_global_name (st_surfaces s)"
    using assms(2) by (simp add: map_update list_update_same_conv)
  moreover have "list_all surface_ok ((st_surfaces s)[i := ?sf])"
    using assms(1,2) by (auto simp: surfaces_ok_def list_all_length nth_list_update surface_ok_def)
  ultimately show ?thesis
    using assms surfaces_ok_created [OF assms(1,2)]
      created_names_insert [OF assms(2,3), of ?sf]
    by (simp add: surfaces_ok_def create_surface_def conforms_append live_append req_if_def Let_def)
qed

lemma surfaces_ok_configure:
  assumes "surfaces_ok s" "i < length (st_surfaces s)" "sf_lock_surface (st_surfaces s ! i)"
  shows "surfaces_ok (ext_session_lock_surface_v1_handle_configure E i serial width height s)"
proof -
  let ?s1 = "update_surface i (\<lambda>sf. sf\<lparr>sf_width := width, sf_height := height\<rparr>) s"
  have c: "sf_created (st_surfaces s ! i)"
    using surfaces_ok_nth [OF assms(1,2)] assms(3) by (simp add: surface_ok_def split: if_splits)
  then have 1: "surfaces_ok ?s1"
    using assms by (intro surfaces_ok_update) (auto simp: surface_ok_def)
  have "sf_output_global_name (st_surfaces s ! i) \<in> live_surfaces {} (st_wire ?s1)"
    using surfaces_ok_created [OF assms(1,2)] c by (simp add: update_surface_def)
  then have "surfaces_ok (send_request (AckConfigure (sf_output_global_name (st_surfaces s ! i)) serial) ?s1)"
    using 1 by (simp add: surfaces_ok_def send_request_def conforms_append live_append)
  then show ?thesis
    using assms(2) by (simp add: ext_session_lock_surface_v1_handle_configure_def surfaces_ok_redraw
        send_request_def Let_def)
qed

lemma surfaces_ok_destroy:
  assumes "surfaces_ok s" "i < length (st_surfaces s)"
  shows "surfaces_ok (destroy_surface i s)"
proof -
  let ?sf = "st_surfaces s ! i" and ?a = "take i (st_surfaces s)" and ?b = "drop (Suc i) (st_surfaces s)"
  have e: "st_surfaces s = ?a @ ?sf # ?b"
    using assms(2) by (rule id_take_nth_drop)
  have d: "distinct (map sf_output_global_name (?a @ ?sf # ?b))" "list_all surface_ok (?a @ ?sf # ?b)"
    using assms(1) e by (metis surfaces_ok_def)+
  then have n: "sf_output_global_name ?sf \<notin> set (map sf_output_global_name (?a @ ?b))"
    by simp
  then have "created_names (?a @ ?b) = created_names (?a @ ?sf # ?b) - {sf_output_global_name ?sf}"
    by (auto simp: created_names_def)
  then have "created_names (?a @ ?b) = live_surfaces {} (st_wire s) - {sf_output_global_name ?sf}"
    using assms(1) e by (metis surfaces_ok_def)
  then show ?thesis
    using d assms surfaces_ok_created [OF assms]
    by (auto simp: surfaces_ok_def destroy_surface_def conforms_append live_append req_if_def surface_ok_def
        Let_def split: if_splits)
qed

lemma surface_index_Some: "surface_index n sfs = Some i \<Longrightarrow> i < length sfs \<and> sf_output_global_name (sfs ! i) = n"
  by (induction sfs arbitrary: i) (auto split: if_splits)

lemma surface_index_None: "surface_index n sfs = None \<longleftrightarrow> n \<notin> sf_output_global_name ` set sfs"
  by (induction sfs) auto

lemma surfaces_ok_global:
  assumes "surfaces_ok s" "name \<notin> sf_output_global_name ` set (st_surfaces s)"
  shows "surfaces_ok (handle_global name interface s)"
  using assms
  by (auto simp: surfaces_ok_def handle_global_def send_request_def conforms_append live_append
      new_surface_def surface_ok_def created_names_def)

lemma surfaces_ok_global_remove: "surfaces_ok s \<Longrightarrow> surfaces_ok (handle_global_remove name s)"
  by (auto simp: handle_global_remove_def dest: surface_index_Some intro: surfaces_ok_destroy split: option.split)

end
