(* ===== verification/Events.thy ===== *)
theory Events
  imports Outputs
begin

text \<open>
  The events of the compositor and the event loop of \<^verbatim>\<open>src/main.c\<close> and \<^verbatim>\<open>src/loop.c\<close> put together.
  \<^verbatim>\<open>wl_display_dispatch\<close> delivers queued events to the listeners one after the other; an event names the
  output by its global name or the seat by its position.
\<close>

section \<open>Events and their listeners\<close>

datatype wl_event =
  Ev_global u32 string
| Ev_global_remove u32
| Ev_geometry u32 wl_output_subpixel
| Ev_done u32
| Ev_scale u32 int
| Ev_name u32 string
| Ev_configure u32 u32 u32 u32
| Ev_frame_done u32
| Ev_buffer_release u32 nat
| Ev_locked
| Ev_finished
| Ev_capabilities nat u32
| Ev_keymap keymap_format "byte list option"
| Ev_key nat u32 bool
| Ev_modifiers u32 u32 u32 u32
| Ev_repeat_info nat int int
| Ev_mode u32 u32 int int int
| Ev_description u32 string
| Ev_keyboard_enter u32
| Ev_keyboard_leave u32
| Ev_seat_name string
| Ev_pointer pointer_event

definition with_surface :: "u32 \<Rightarrow> (nat \<Rightarrow> swaylock_state \<Rightarrow> swaylock_state) \<Rightarrow> swaylock_state \<Rightarrow> swaylock_state" where
  "with_surface n f s = (case surface_index n (st_surfaces s) of None \<Rightarrow> s | Some i \<Rightarrow> f i s)"

definition release_indicator_buffer :: "nat \<Rightarrow> nat \<Rightarrow> swaylock_state \<Rightarrow> swaylock_state" where
  "release_indicator_buffer b i s =
     update_surface i (\<lambda>sf. sf\<lparr>sf_indicator_buffers :=
       (sf_indicator_buffers sf)[b := buffer_release (sf_indicator_buffers sf ! b)]\<rparr>) s"

definition handle_event :: "libs \<Rightarrow> wl_event \<Rightarrow> swaylock_state \<Rightarrow> swaylock_state" where
  "handle_event E e s =
     (case e of
        Ev_global name interface \<Rightarrow> handle_global name interface s
      | Ev_global_remove name \<Rightarrow> handle_global_remove name s
      | Ev_geometry n subpixel \<Rightarrow> with_surface n (\<lambda>i. handle_wl_output_geometry E i subpixel) s
      | Ev_done n \<Rightarrow> with_surface n handle_wl_output_done s
      | Ev_scale n factor \<Rightarrow> with_surface n (\<lambda>i. handle_wl_output_scale E i factor) s
      | Ev_name n name \<Rightarrow> with_surface n (\<lambda>i. handle_wl_output_name i name) s
      | Ev_configure n serial w h \<Rightarrow>
          with_surface n (\<lambda>i. ext_session_lock_surface_v1_handle_configure E i serial w h) s
      | Ev_frame_done n \<Rightarrow> with_surface n (surface_frame_handle_done E) s
      | Ev_buffer_release n b \<Rightarrow> with_surface n (release_indicator_buffer b) s
      | Ev_locked \<Rightarrow> ext_session_lock_v1_handle_locked s
      | Ev_finished \<Rightarrow> ext_session_lock_v1_handle_finished s
      | Ev_capabilities k caps \<Rightarrow> seat_handle_capabilities k caps s
      | Ev_keymap fmt content \<Rightarrow> keyboard_keymap E fmt content s
      | Ev_key k key pressed \<Rightarrow> keyboard_key E k key pressed s
      | Ev_modifiers d la lo g \<Rightarrow> keyboard_modifiers E d la lo g s
      | Ev_repeat_info k rate delay \<Rightarrow> keyboard_repeat_info k rate delay s
      | Ev_mode n flags w h refresh \<Rightarrow> with_surface n (\<lambda>i. handle_wl_output_mode i flags w h refresh) s
      | Ev_description n description \<Rightarrow> with_surface n (\<lambda>i. handle_wl_output_description i description) s
      | Ev_keyboard_enter serial \<Rightarrow> keyboard_enter serial s
      | Ev_keyboard_leave serial \<Rightarrow> keyboard_leave serial s
      | Ev_seat_name name \<Rightarrow> seat_handle_name name s
      | Ev_pointer pe \<Rightarrow> pointer_listener pe s)"

text \<open>
  What the protocol promises about an event: global names are unique, events of an object arrive only
  while it exists, and a lock surface is configured only after it was requested.
\<close>

definition event_ok :: "wl_event \<Rightarrow> swaylock_state \<Rightarrow> bool" where
  "event_ok e s =
     (case e of
        Ev_global name interface \<Rightarrow> surface_index name (st_surfaces s) = None
      | Ev_configure n _ _ _ \<Rightarrow>
          (case surface_index n (st_surfaces s) of
             None \<Rightarrow> True | Some i \<Rightarrow> sf_lock_surface (st_surfaces s ! i))
      | Ev_key k _ _ \<Rightarrow> k < length (st_seats s)
      | _ \<Rightarrow> True)"

fun dispatch_events :: "libs \<Rightarrow> wl_event list \<Rightarrow> swaylock_state \<Rightarrow> swaylock_state" where
  "dispatch_events E [] s = s"
| "dispatch_events E (e # es) s =
     (if alive s then dispatch_events E es (handle_event E e s) else s)"

fun events_ok :: "libs \<Rightarrow> wl_event list \<Rightarrow> swaylock_state \<Rightarrow> bool" where
  "events_ok E [] s = True"
| "events_ok E (e # es) s = (\<not> alive s \<or> event_ok e s \<and> events_ok E es (handle_event E e s))"

datatype dispatch_result = Dispatch_failed | Dispatched "wl_event list"

definition wl_display_dispatch :: "libs \<Rightarrow> dispatch_result \<Rightarrow> swaylock_state \<Rightarrow> swaylock_state option" where
  "wl_display_dispatch E d s =
     (case d of Dispatch_failed \<Rightarrow> None | Dispatched es \<Rightarrow> Some (dispatch_events E es s))"

section \<open>One turn of the event loop\<close>

definition call_fd ::
    "libs \<Rightarrow> ('j, 'm) cjson_scheme \<Rightarrow> dispatch_result \<Rightarrow> fd_callback \<Rightarrow> 16 word \<Rightarrow> swaylock_state \<Rightarrow> swaylock_state" where
  "call_fd E J d cb msk s =
     (case cb of
        Display_in \<Rightarrow> display_in (wl_display_dispatch E d) s
      | Comm_in \<Rightarrow> comm_in E J msk s
      | Term_in \<Rightarrow> term_in s)"

text \<open>
  What the world does in one turn: the bytes that have arrived from the child and whether it has closed
  its end, the answer of \<^verbatim>\<open>wl_display_flush\<close> (an error other than \<^verbatim>\<open>EAGAIN\<close> is \<open>False\<close>), the
  result of \<^verbatim>\<open>poll\<close>, the events of the compositor, and the time after \<^verbatim>\<open>poll\<close>.
\<close>

record turn =
  tn_arrive :: "byte list"
  tn_hangup :: bool
  tn_flush :: bool
  tn_poll :: poll_outcome
  tn_dispatch :: dispatch_result
  tn_now :: timespec

definition arrive :: "turn \<Rightarrow> swaylock_state \<Rightarrow> swaylock_state" where
  "arrive t s = s\<lparr>io_in := \<lparr>pipe_data = pipe_data (io_in s) @ tn_arrive t,
                           pipe_wopen = pipe_wopen (io_in s) \<and> \<not> tn_hangup t\<rparr>\<rparr>"

definition poll_turn :: "libs \<Rightarrow> ('j, 'm) cjson_scheme \<Rightarrow> turn \<Rightarrow> swaylock_state \<Rightarrow> swaylock_state" where
  "poll_turn E J t s =
     loop_poll st_eventloop put_loop alive (exit_with 1) (call_fd E J (tn_dispatch t)) (call_timer E)
       (tn_poll t) (tn_now t) (arrive t s)"

text \<open>
  The loop at the end of \<^verbatim>\<open>main\<close>. The flag of the result is set when the loop has been left, so that
  the session is unlocked next; it is not set while the program waits, and after \<^verbatim>\<open>exit\<close>.
\<close>

fun event_loop :: "libs \<Rightarrow> ('j, 'm) cjson_scheme \<Rightarrow> turn list \<Rightarrow> swaylock_state \<Rightarrow> bool \<times> swaylock_state" where
  "event_loop E J ts s =
     (if \<not> alive s then (False, s)
      else if \<not> st_run_display s then (True, s)
      else case ts of
        [] \<Rightarrow> (False, s)
      | t # ts \<Rightarrow>
          if \<not> tn_flush t then (True, s)
          else event_loop E J ts (poll_turn E J t s))"

declare event_loop.simps [simp del]

section \<open>The invariant of the running program\<close>

definition sys_inv :: "swaylock_state \<Rightarrow> bool" where
  "sys_inv s \<longleftrightarrow> main_inv None s \<and> surfaces_ok s"

lemma main_inv_globals [simp]:
  "main_inv f (s\<lparr>st_compositor := b\<rparr>) = main_inv f s"
  "main_inv f (s\<lparr>st_subcompositor := b\<rparr>) = main_inv f s"
  "main_inv f (s\<lparr>st_wl_shm := b\<rparr>) = main_inv f s"
  "main_inv f (s\<lparr>st_lock_manager := b\<rparr>) = main_inv f s"
  by (simp_all add: main_inv_def timers_ok_def data_ok_def lists_wf_def slot_of_def fun_eq_iff
      split: timer_callback.split)

lemma main_inv_new_seat: "main_inv f (s\<lparr>st_seats := st_seats s @ [new_seat]\<rparr>) = main_inv f s"
proof -
  have "slot_of (s\<lparr>st_seats := st_seats s @ [new_seat]\<rparr>) = slot_of s"
    by (auto simp: fun_eq_iff slot_of_def nth_append new_seat_def less_Suc_eq split: timer_callback.split)
  then show ?thesis
    by (simp add: main_inv_def timers_ok_def data_ok_def lists_wf_def)
qed

lemma main_inv_rendered: "rendered s s' \<Longrightarrow> main_inv f s' = main_inv f s"
  by (auto simp: rendered_def)

lemma main_inv_update_surface [simp]: "main_inv f (update_surface i g s) = main_inv f s"
  by (simp add: update_surface_def)

lemma main_inv_render: "i < length (st_surfaces s) \<Longrightarrow> main_inv f (render E i s) = main_inv f s"
  by (rule main_inv_rendered [OF rendered_render])

lemma main_inv_redraw:
  "i < length (st_surfaces s) \<Longrightarrow> main_inv f (redraw_if_running E i s) = main_inv f s"
  by (simp add: redraw_if_running_def main_inv_render)

lemma surfaces_ok_redraw_if:
  "surfaces_ok s \<Longrightarrow> i < length (st_surfaces s) \<Longrightarrow> surfaces_ok (redraw_if_running E i s)"
  by (simp add: redraw_if_running_def surfaces_ok_redraw)

lemma with_surface_inv:
  assumes "sys_inv s"
    and "\<And>i. surface_index n (st_surfaces s) = Some i \<Longrightarrow> i < length (st_surfaces s) \<Longrightarrow> sys_inv (f i s)"
  shows "sys_inv (with_surface n f s)"
  using assms by (auto simp: with_surface_def dest: surface_index_Some split: option.split)

lemma sys_inv_frame_done:
  assumes "sys_inv s" "i < length (st_surfaces s)"
  shows "sys_inv (surface_frame_handle_done E i s)"
proof -
  have "surfaces_ok (update_surface i (\<lambda>sf. sf\<lparr>sf_frame := False\<rparr>) s)"
    using assms by (intro surfaces_ok_update) (auto simp: sys_inv_def surface_ok_def)
  then show ?thesis
    using assms by (simp add: sys_inv_def surface_frame_handle_done_def main_inv_render
        surfaces_ok_rendered [OF _ rendered_render])
qed

lemma sys_inv_output:
  assumes "sys_inv s" "i < length (st_surfaces s)"
  shows "sys_inv (handle_wl_output_geometry E i subpixel s)" "sys_inv (handle_wl_output_scale E i factor s)"
    "sys_inv (handle_wl_output_name i name s)" "sys_inv (handle_wl_output_done i s)"
    "sys_inv (release_indicator_buffer b i s)"
proof -
  have u: "surfaces_ok (update_surface i g s)"
    if "\<And>sf. sf_output_global_name (g sf) = sf_output_global_name sf" "\<And>sf. sf_created (g sf) = sf_created sf"
      "\<And>sf. surface_ok (g sf) = surface_ok sf" for g
    using assms that by (intro surfaces_ok_update) (auto simp: sys_inv_def)
  show "sys_inv (handle_wl_output_geometry E i subpixel s)" "sys_inv (handle_wl_output_scale E i factor s)"
    "sys_inv (handle_wl_output_name i name s)" "sys_inv (release_indicator_buffer b i s)"
    using assms by (simp_all add: sys_inv_def handle_wl_output_geometry_def handle_wl_output_scale_def
        handle_wl_output_name_def release_indicator_buffer_def main_inv_redraw surfaces_ok_redraw_if u surface_ok_def)
  show "sys_inv (handle_wl_output_done i s)"
    using assms by (simp add: sys_inv_def handle_wl_output_done_def surfaces_ok_create)
      (simp add: create_surface_def Let_def)
qed

lemma sys_inv_configure:
  assumes "sys_inv s" "i < length (st_surfaces s)" "sf_lock_surface (st_surfaces s ! i)"
  shows "sys_inv (ext_session_lock_surface_v1_handle_configure E i serial w h s)"
  using assms surfaces_ok_configure [of s i E serial w h]
  by (simp add: sys_inv_def ext_session_lock_surface_v1_handle_configure_def main_inv_render send_request_def Let_def)

lemma sys_inv_registry:
  assumes "sys_inv s"
  shows "sys_inv (handle_global_remove name s)"
    "surface_index name (st_surfaces s) = None \<Longrightarrow> sys_inv (handle_global name interface s)"
proof -
  have "main_inv None (handle_global_remove name s)" "main_inv None (handle_global name interface s)"
    using assms by (auto simp: sys_inv_def handle_global_remove_def handle_global_def destroy_surface_def
        send_request_def main_inv_new_seat Let_def split: option.split)
  then show "sys_inv (handle_global_remove name s)"
    "surface_index name (st_surfaces s) = None \<Longrightarrow> sys_inv (handle_global name interface s)"
    using assms by (simp_all add: sys_inv_def surfaces_ok_global_remove surfaces_ok_global surface_index_None)
qed

lemma sys_inv_quiet: "surfaces_ok s \<Longrightarrow> quiet s s' \<Longrightarrow> main_inv None s' \<Longrightarrow> sys_inv s'"
  by (simp add: sys_inv_def surfaces_ok_quiet)

lemma quiet_keymap: "\<exists>s1. quiet s s1 \<and> (keyboard_keymap E fmt content s = s1 \<or> (\<exists>c. keyboard_keymap E fmt content s = exit_with c s1))"
proof -
  have "quiet s (s\<lparr>st_xkb := x\<rparr>)" for x
    by (rule quiet_same) simp_all
  then show ?thesis
    by (auto simp: keyboard_keymap_def abort_def intro: quiet_refl split: keymap_format.split option.split)
qed

lemma surfaces_ok_simple [simp]:
  "surfaces_ok (exit_with c s) = surfaces_ok s"
  "surfaces_ok (s\<lparr>st_locked := b\<rparr>) = surfaces_ok s"
  "surfaces_ok (s\<lparr>st_lock_failed := b\<rparr>) = surfaces_ok s"
  "surfaces_ok (s\<lparr>st_run_display := b\<rparr>) = surfaces_ok s"
  "surfaces_ok (s\<lparr>io_in := p\<rparr>) = surfaces_ok s"
  "surfaces_ok (s\<lparr>st_eventloop := l\<rparr>) = surfaces_ok s"
  by (simp_all add: surfaces_ok_def exit_with_def)

lemma surfaces_ok_keymap: "surfaces_ok s \<Longrightarrow> surfaces_ok (keyboard_keymap E fmt content s)"
  using quiet_keymap [of s E fmt content] surfaces_ok_quiet by auto

lemma sys_inv_other:
  assumes "sys_inv s"
  shows "sys_inv (keyboard_keymap E fmt content s)" "sys_inv (ext_session_lock_v1_handle_locked s)"
    "sys_inv (ext_session_lock_v1_handle_finished s)" "sys_inv (keyboard_modifiers E d la lo g s)"
    "sys_inv (seat_handle_capabilities k caps s)" "sys_inv (keyboard_repeat_info k rate delay s)"
proof -
  have s: "main_inv None s" "surfaces_ok s"
    using assms by (simp_all add: sys_inv_def)
  show "sys_inv (keyboard_keymap E fmt content s)"
    using s by (simp add: sys_inv_def inv_keymap surfaces_ok_keymap)
  show "sys_inv (ext_session_lock_v1_handle_locked s)" "sys_inv (ext_session_lock_v1_handle_finished s)"
    using s by (simp_all add: sys_inv_def ext_session_lock_v1_handle_locked_def
        ext_session_lock_v1_handle_finished_def) (simp add: exit_with_def)
  show "sys_inv (keyboard_modifiers E d la lo g s)"
    using s by (simp add: sys_inv_quiet [OF _ quiet_modifiers] inv_modifiers)
  show "sys_inv (seat_handle_capabilities k caps s)" "sys_inv (keyboard_repeat_info k rate delay s)"
    using s by (simp_all add: seat_handle_capabilities_def keyboard_repeat_info_def inv_update_seat
        sys_inv_quiet [OF _ quiet_update_seat])
qed

lemma sys_inv_pointer: "sys_inv s \<Longrightarrow> sys_inv (pointer_listener e s)"
  by (cases e) (simp_all add: pointer_listener_def wl_pointer_enter_def send_request_def sys_inv_def surfaces_ok_def
      conforms_append live_append)

lemma listeners_idle [simp]:
  "with_surface n (\<lambda>i. handle_wl_output_mode i flags w h refresh) s = s"
  "with_surface n (\<lambda>i. handle_wl_output_description i description) s = s"
  "keyboard_enter serial s = s" "keyboard_leave serial s = s" "seat_handle_name name s = s"
  by (simp_all add: with_surface_def handle_wl_output_mode_def handle_wl_output_description_def keyboard_enter_def
      keyboard_leave_def seat_handle_name_def split: option.split)

lemma sys_inv_event:
  assumes "sys_inv s" "event_ok e s"
  shows "sys_inv (handle_event E e s)"
proof (cases e)
  case (Ev_configure n serial w h)
  then show ?thesis
    using assms by (auto simp: handle_event_def event_ok_def intro!: with_surface_inv sys_inv_configure)
next
  case (Ev_key k key pressed)
  then show ?thesis
    using assms by (simp add: handle_event_def event_ok_def sys_inv_def [of s] sys_inv_quiet [OF _ quiet_key]
        inv_keyboard_key)
qed (use assms in \<open>auto simp: handle_event_def event_ok_def sys_inv_registry sys_inv_output sys_inv_frame_done
    sys_inv_other sys_inv_pointer intro!: with_surface_inv\<close>)

lemma sys_inv_dispatch: "sys_inv s \<Longrightarrow> events_ok E es s \<Longrightarrow> sys_inv (dispatch_events E es s)"
  by (induction es arbitrary: s) (auto simp: sys_inv_event)

section \<open>Messages of the child are quiet\<close>

lemma quiet_failed: "quiet s s' \<Longrightarrow> quiet s (s'\<lparr>st_failed_attempts := n\<rparr>)"
  by (rule quiet_trans [OF _ quiet_same]) simp_all

lemma quiet_parse_list: "quiet s (snd (parse_list J payload a b s))"
  using parse_list_shape [of J payload a b s] by (auto intro: quiet_same)

lemma quiet_brokers: "quiet s (on_brokers E J payload s)"
proof -
  obtain r s1 where p: "parse_list J payload ''id'' ''name'' (authd_brokers_free s) = (r, s1)"
    by (cases "parse_list J payload ''id'' ''name'' (authd_brokers_free s)")
  have 1: "quiet s s1"
    using quiet_trans [OF quiet_same quiet_parse_list [of "authd_brokers_free s" J payload "''id''" "''name''"]] p
    by (simp add: authd_brokers_free_def)
  moreover have "quiet s1 (s1\<lparr>st_authd_brokers := bs, st_authd_num_brokers := n, st_authd_active := True,
      st_authd_stage := AUTHD_STAGE_BROKER\<rparr>)"
    "quiet s1 (s1\<lparr>st_authd_active := True, st_authd_stage := AUTHD_STAGE_BROKER\<rparr>)" for bs n
    by (rule quiet_same; simp)+
  ultimately show ?thesis
    using p quiet_trans [OF 1] by (auto simp: on_brokers_def Let_def quiet_damage split: option.split)
qed

lemma quiet_auth_modes: "quiet s (on_auth_modes E J payload s)"
proof -
  obtain r s1 where p: "parse_list J payload ''id'' ''label'' (authd_auth_modes_free s) = (r, s1)"
    by (cases "parse_list J payload ''id'' ''label'' (authd_auth_modes_free s)")
  have 1: "quiet s s1"
    using quiet_trans [OF quiet_same quiet_parse_list [of "authd_auth_modes_free s" J payload "''id''" "''label''"]] p
    by (simp add: authd_auth_modes_free_def)
  moreover have "quiet s1 (s1\<lparr>st_authd_auth_modes := ms, st_authd_num_auth_modes := n, st_authd_active := True,
      st_authd_stage := AUTHD_STAGE_AUTH_MODE\<rparr>)"
    "quiet s1 (s1\<lparr>st_authd_active := True, st_authd_stage := AUTHD_STAGE_AUTH_MODE\<rparr>)" for ms n
    by (rule quiet_same; simp)+
  ultimately show ?thesis
    using p quiet_trans [OF 1] by (auto simp: on_auth_modes_def Let_def quiet_damage split: option.split)
qed

lemma quiet_message: "quiet s (handle_message E J ty payload len s)"
proof -
  have "quiet s (on_auth_result E payload len s)" "quiet s (on_stage E payload len s)"
    "quiet s (on_ui_layout E J payload s)" "quiet s (on_auth_event E J payload s)"
    by (simp_all add: on_auth_result_def on_stage_def on_ui_layout_def on_auth_event_def Let_def
        quiet_damage schedule_auth_idle_eq quiet_same)
  then show ?thesis
    by (simp add: handle_message_def quiet_brokers quiet_auth_modes)
qed

lemma surfaces_ok_comm_in: "surfaces_ok s \<Longrightarrow> surfaces_ok (comm_in E J msk s)"
proof -
  assume s: "surfaces_ok s"
  obtain r s1 where c: "comm_main_read s = (r, s1)"
    by (cases "comm_main_read s")
  obtain p sch mem where "s1 = s\<lparr>io_in := p, io_rd := sch, io_mem := mem\<rparr>"
    using comm_read_shape [of s] c by (auto simp: comm_main_read_def)
  then have "surfaces_ok s1"
    using s by (simp add: surfaces_ok_def)
  then show ?thesis
    using s c by (simp add: comm_in_def surfaces_ok_quiet [OF _ quiet_message] split: comm_result.split)
qed

section \<open>The three descriptors\<close>

definition fds_registered :: "swaylock_state \<Rightarrow> bool" where
  "fds_registered s \<longleftrightarrow> lp_fd_events (st_eventloop s) = [Display_in, Comm_in, Term_in] \<and>
     map pfd_events (lp_fds (st_eventloop s)) = [POLLIN, POLLIN, POLLIN]"

lemma fds_quiet: "quiet s s' \<Longrightarrow> fds_registered s' = fds_registered s"
  by (simp add: fds_registered_def quiet_def)

text \<open>
  What is left alone by the handlers of events: the lock, the options, the pipe and the descriptors;
  surfaces come into existence only while the program runs, and nothing is unlocked.
\<close>

definition fresh_surfaces :: "swaylock_state \<Rightarrow> bool" where
  "fresh_surfaces s \<longleftrightarrow> list_all (\<lambda>sf. \<not> sf_created sf) (st_surfaces s)"

definition event_frame :: "swaylock_state \<Rightarrow> swaylock_state \<Rightarrow> bool" where
  "event_frame s s' \<longleftrightarrow> st_run_display s' = st_run_display s \<and> io_in s' = io_in s \<and> st_lock s' = st_lock s \<and>
     lp_fds (st_eventloop s') = lp_fds (st_eventloop s) \<and>
     lp_fd_events (st_eventloop s') = lp_fd_events (st_eventloop s) \<and>
     st_args s' = st_args s \<and> (st_locked s \<longrightarrow> st_locked s') \<and>
     (\<not> st_run_display s \<and> fresh_surfaces s \<longrightarrow> fresh_surfaces s') \<and>
     (\<exists>w. st_wire s' = st_wire s @ w \<and> UnlockAndDestroy \<notin> set w)"

lemma event_frame_refl [simp]: "event_frame s s"
  by (simp add: event_frame_def)

lemma event_frame_trans: "event_frame s s' \<Longrightarrow> event_frame s' s'' \<Longrightarrow> event_frame s s''"
  by (auto simp: event_frame_def)

lemma event_frame_fds: "event_frame s s' \<Longrightarrow> fds_registered s' = fds_registered s"
  by (simp add: event_frame_def fds_registered_def)

lemma surface_step_created: "surface_step sf sf' \<Longrightarrow> sf_created sf' = sf_created sf"
  unfolding surface_step_def surface_core_def
  by (drule conjunct1, drule arg_cong [of _ _ sf_created]) simp

lemma fresh_step: "list_all2 surface_step xs ys \<Longrightarrow> list_all (\<lambda>sf. \<not> sf_created sf) xs \<Longrightarrow>
    list_all (\<lambda>sf. \<not> sf_created sf) ys"
  by (induction rule: list_all2_induct) (auto dest: surface_step_created)

lemma draws_not_unlock: "\<not> draws s UnlockAndDestroy"
  by (simp add: draws_def drawing_def)

lemma event_frame_quiet: "quiet s s' \<Longrightarrow> st_run_display s' = st_run_display s \<Longrightarrow> event_frame s s'"
proof -
  assume q: "quiet s s'" and r: "st_run_display s' = st_run_display s"
  obtain w where w: "st_wire s' = st_wire s @ w" "\<forall>r \<in> set w. draws s r"
    using q unfolding quiet_def by blast
  then have "UnlockAndDestroy \<notin> set w"
    using draws_not_unlock by blast
  moreover have "fresh_surfaces s \<longrightarrow> fresh_surfaces s'"
    using q fresh_step unfolding fresh_surfaces_def quiet_def by blast
  ultimately show ?thesis
    using w(1) r q unfolding event_frame_def quiet_def by simp
qed

lemma event_frame_render: "i < length (st_surfaces s) \<Longrightarrow> event_frame s (render E i s)"
  using rendered_render [of i s E] by (simp add: event_frame_quiet quiet_rendered rendered_fields)

lemma event_frame_same:
  "st_run_display s' = st_run_display s \<Longrightarrow> io_in s' = io_in s \<Longrightarrow> st_lock s' = st_lock s \<Longrightarrow>
     st_eventloop s' = st_eventloop s \<Longrightarrow> st_args s' = st_args s \<Longrightarrow>
     (st_locked s \<longrightarrow> st_locked s') \<Longrightarrow> (\<not> st_run_display s \<and> fresh_surfaces s \<longrightarrow> fresh_surfaces s') \<Longrightarrow>
     st_wire s' = st_wire s @ w \<Longrightarrow> UnlockAndDestroy \<notin> set w \<Longrightarrow> event_frame s s'"
  by (auto simp: event_frame_def)

lemma fresh_simps [simp]:
  "fresh_surfaces (s\<lparr>st_wire := w\<rparr>) = fresh_surfaces s"
  "fresh_surfaces (s\<lparr>st_locked := b\<rparr>) = fresh_surfaces s"
  "fresh_surfaces (s\<lparr>st_lock_failed := b\<rparr>) = fresh_surfaces s"
  "fresh_surfaces (s\<lparr>st_lock := b\<rparr>) = fresh_surfaces s"
  "fresh_surfaces (s\<lparr>st_exit := c\<rparr>) = fresh_surfaces s"
  "fresh_surfaces (s\<lparr>st_xkb := x\<rparr>) = fresh_surfaces s"
  "fresh_surfaces (s\<lparr>st_seats := ss\<rparr>) = fresh_surfaces s"
  "fresh_surfaces (s\<lparr>st_compositor := b\<rparr>) = fresh_surfaces s"
  "fresh_surfaces (s\<lparr>st_subcompositor := b\<rparr>) = fresh_surfaces s"
  "fresh_surfaces (s\<lparr>st_wl_shm := b\<rparr>) = fresh_surfaces s"
  "fresh_surfaces (s\<lparr>st_lock_manager := b\<rparr>) = fresh_surfaces s"
  "fresh_surfaces (s\<lparr>st_eventloop := l\<rparr>) = fresh_surfaces s"
  "fresh_surfaces (s\<lparr>st_surfaces := new_surface n # st_surfaces s\<rparr>) = fresh_surfaces s"
  by (simp_all add: fresh_surfaces_def new_surface_def)

lemma fresh_update:
  "(\<And>sf. sf_created (g sf) = sf_created sf) \<Longrightarrow> fresh_surfaces s \<longrightarrow> fresh_surfaces (update_surface i g s)"
  by (cases "i < length (st_surfaces s)")
    (auto simp: fresh_surfaces_def update_surface_def list_all_length nth_list_update)

lemma event_frame_send: "r \<noteq> UnlockAndDestroy \<Longrightarrow> event_frame s s' \<Longrightarrow> event_frame s (send_request r s')"
  using event_frame_trans [OF _ event_frame_same [of "send_request r s'" s' "[r]"]]
  by (simp add: send_request_def)

lemma event_frame_update:
  "(\<And>sf. sf_created (g sf) = sf_created sf) \<Longrightarrow> event_frame s (update_surface i g s)"
  using fresh_update [of g s i] by (intro event_frame_same [where w = "[]"]) (simp_all add: update_surface_def)

lemma event_frame_redraw:
  assumes "event_frame s s'" "i < length (st_surfaces s')" "\<And>sf. sf_created (g sf) = sf_created sf"
  shows "event_frame s (render E i (update_surface i g s'))"
  using assms
    event_frame_trans [OF event_frame_trans [OF assms(1) event_frame_update [OF assms(3)]] event_frame_render]
  by simp

lemma event_frame_with_surface:
  "(\<And>i. i < length (st_surfaces s) \<Longrightarrow> event_frame s (f i s)) \<Longrightarrow> event_frame s (with_surface n f s)"
  by (auto simp: with_surface_def dest: surface_index_Some split: option.split)

lemma event_frame_destroy: "event_frame s (destroy_surface i s)"
  unfolding destroy_surface_def Let_def
  by (rule event_frame_same, simp, simp, simp, simp, simp, simp)
    (auto simp: fresh_surfaces_def list_all_iff req_if_def dest: in_set_takeD in_set_dropD)

lemma event_frame_create: "st_run_display s \<Longrightarrow> event_frame s (create_surface i s)"
  unfolding create_surface_def Let_def
  by (rule event_frame_same, simp, simp, simp, simp, simp, simp, simp, simp, simp add: req_if_def)

lemma event_frame_output:
  assumes "i < length (st_surfaces s)"
  shows "event_frame s (handle_wl_output_geometry E i subpixel s)"
    "event_frame s (handle_wl_output_scale E i factor s)"
    "event_frame s (handle_wl_output_name i name s)" "event_frame s (handle_wl_output_done i s)"
    "event_frame s (release_indicator_buffer b i s)" "event_frame s (surface_frame_handle_done E i s)"
    "event_frame s (ext_session_lock_surface_v1_handle_configure E i serial w h s)"
proof -
  have r: "event_frame s (redraw_if_running E i (update_surface i g s))"
    if "\<And>sf. sf_created (g sf) = sf_created sf" for g
    using assms that by (simp add: redraw_if_running_def event_frame_update event_frame_redraw)
  show "event_frame s (handle_wl_output_geometry E i subpixel s)"
    "event_frame s (handle_wl_output_scale E i factor s)"
    "event_frame s (handle_wl_output_name i name s)"
    "event_frame s (release_indicator_buffer b i s)" "event_frame s (surface_frame_handle_done E i s)"
    using assms by (simp_all add: r handle_wl_output_geometry_def handle_wl_output_scale_def event_frame_update
        handle_wl_output_name_def release_indicator_buffer_def surface_frame_handle_done_def event_frame_redraw)
  show "event_frame s (handle_wl_output_done i s)"
    by (simp add: handle_wl_output_done_def event_frame_create)
  have "event_frame s (send_request (AckConfigure n serial) (update_surface i g s))"
    if "\<And>sf. sf_created (g sf) = sf_created sf" for n g
    using that by (intro event_frame_send [OF _ event_frame_update]) simp_all
  then show "event_frame s (ext_session_lock_surface_v1_handle_configure E i serial w h s)"
    using assms by (simp add: ext_session_lock_surface_v1_handle_configure_def Let_def event_frame_redraw
        send_request_def)
qed

lemma run_display_key [simp]: "st_run_display (keyboard_key E k key pressed s) = st_run_display s"
  by (simp add: keyboard_key_def set_repeat_timer_def update_seat_def add_timer_def remove_timer_eq
      Let_def case_prod_unfold split: option.split)

lemma run_display_modifiers [simp]: "st_run_display (keyboard_modifiers E d la lo g s) = st_run_display s"
  by (simp add: keyboard_modifiers_def Let_def split: option.split)

lemma event_frame_event: "event_frame s (handle_event E e s)"
proof (cases e)
  case (Ev_global name interface)
  then show ?thesis
    by (simp add: handle_event_def handle_global_def event_frame_send event_frame_same [where w = "[]"])
next
  case (Ev_global_remove name)
  then show ?thesis
    by (simp add: handle_event_def handle_global_remove_def event_frame_destroy split: option.split)
next
  case (Ev_pointer pe)
  then show ?thesis
    by (cases pe) (simp_all add: handle_event_def pointer_listener_def wl_pointer_enter_def event_frame_send)
next
  case (Ev_keymap fmt content)
  then show ?thesis
    by (auto simp: handle_event_def keyboard_keymap_def abort_def exit_with_def
        intro!: event_frame_same [where w = "[]"] split: keymap_format.split option.split)
qed (simp_all add: handle_event_def event_frame_output seat_handle_capabilities_def keyboard_repeat_info_def
    update_seat_def exit_with_def ext_session_lock_v1_handle_locked_def ext_session_lock_v1_handle_finished_def
    event_frame_quiet [OF quiet_key] event_frame_quiet [OF quiet_modifiers]
    event_frame_with_surface event_frame_same [where w = "[]"])

lemma event_frame_dispatch: "event_frame s (dispatch_events E es s)"
proof (induction es arbitrary: s)
  case (Cons e es)
  then show ?case
    using event_frame_trans [OF event_frame_event [of s E e]] by simp
qed simp

section \<open>One turn\<close>

definition fd_step ::
    "libs \<Rightarrow> ('j, 'm) cjson_scheme \<Rightarrow> dispatch_result \<Rightarrow> fd_callback \<Rightarrow> 16 word \<Rightarrow> swaylock_state \<Rightarrow> swaylock_state" where
  "fd_step E J d cb r s =
     (if alive s \<and> r AND (POLLIN OR POLLHUP OR POLLERR) \<noteq> 0 then call_fd E J d cb r s else s)"

definition revent :: "poll_outcome \<Rightarrow> nat \<Rightarrow> 16 word" where
  "revent p k = (case p of Poll_failed \<Rightarrow> 0 | Polled rs \<Rightarrow> if k < length rs then rs ! k else 0)"

lemma fds_comm_in: "fds_registered (comm_in E J msk s) = fds_registered s"
proof -
  obtain r s1 where c: "comm_main_read s = (r, s1)"
    by (cases "comm_main_read s")
  obtain p sch mem where "s1 = s\<lparr>io_in := p, io_rd := sch, io_mem := mem\<rparr>"
    using comm_read_shape [of s] c by (auto simp: comm_main_read_def)
  then have s1: "fds_registered s1 = fds_registered s"
    by (simp add: fds_registered_def)
  have e: "fds_registered (exit_with k s') = fds_registered s'" for k s'
    by (simp add: exit_with_def fds_registered_def)
  show ?thesis
    using c s1 by (simp add: comm_in_def e fds_quiet [OF quiet_message] split: comm_result.split)
qed

lemma fds_call: "fds_registered (call_fd E J d cb r s) = fds_registered s"
proof -
  have "fds_registered (dispatch_events E es s) = fds_registered s" for es
    by (rule event_frame_fds [OF event_frame_dispatch])
  then show ?thesis
    by (simp add: call_fd_def display_in_def wl_display_dispatch_def fds_comm_in term_in_def
        split: fd_callback.split dispatch_result.split)
      (simp add: fds_registered_def)
qed

lemma fds_step: "fds_registered (fd_step E J d cb r s) = fds_registered s"
  by (simp add: fd_step_def fds_call)

lemma fds_events:
  assumes "fds_registered s" "k < 3"
  shows "pfd_events (lp_fds (st_eventloop s) ! k) = POLLIN"
proof -
  have "map pfd_events (lp_fds (st_eventloop s)) ! k = [POLLIN, POLLIN, POLLIN] ! k"
    "k < length (lp_fds (st_eventloop s))"
    using assms by (auto simp: fds_registered_def dest: arg_cong [of _ _ length])
  then show ?thesis
    using assms(2) by (auto simp: numeral_3_eq_3 less_Suc_eq)
qed

lemma dispatch_dead: "\<not> alive s \<Longrightarrow> dispatch_fds st_eventloop alive f i es rs s = s"
  by (cases es; cases rs) simp_all

lemma fd_step_zero [simp]: "fd_step E J d cb 0 s = s"
  by (simp add: fd_step_def)

lemma fd_step_dead: "\<not> alive s \<Longrightarrow> fd_step E J d cb r s = s"
  by (simp add: fd_step_def)

lemma dispatch_one:
  assumes "fds_registered s" "i < 3"
  shows "dispatch_fds st_eventloop alive (call_fd E J d) i (cb # es) (r # rs) s =
    dispatch_fds st_eventloop alive (call_fd E J d) (Suc i) es rs (fd_step E J d cb r s)"
  using fds_events [OF assms] by (simp add: fd_step_def dispatch_dead)

lemma dispatch_fds_three:
  assumes "fds_registered s"
  shows "dispatch_fds st_eventloop alive (call_fd E J d) 0 (lp_fd_events (st_eventloop s)) rs s =
    fd_step E J d Term_in (revent (Polled rs) 2)
      (fd_step E J d Comm_in (revent (Polled rs) 1) (fd_step E J d Display_in (revent (Polled rs) 0) s))"
proof -
  have "lp_fd_events (st_eventloop s) = [Display_in, Comm_in, Term_in]"
    using assms by (simp add: fds_registered_def)
  then show ?thesis
    using assms
    by (cases rs; cases "tl rs"; cases "tl (tl rs)")
      (auto simp: dispatch_one fds_step revent_def simp del: dispatch_fds.simps(1))
qed

lemma run_display_timer: "st_run_display (call_timer E cb s) = st_run_display s"
  by (simp add: call_timer_def set_input_idle_def set_auth_idle_def clear_password_def keyboard_repeat_def
      set_repeat_timer_def add_timer_def update_seat_def schedule_input_idle_eq Let_def case_prod_unfold
      split: timer_callback.split)

lemma event_frame_put_loop: "event_frame s s' \<Longrightarrow> event_frame s (put_loop (unlink_timer i (st_eventloop s')) s')"
  by (simp add: event_frame_def put_loop_def unlink_timer_def)

lemma event_frame_timer: "event_frame s (call_timer E cb s)"
  by (rule event_frame_quiet [OF quiet_call_timer run_display_timer])

lemma timers_induct:
  assumes "P s"
    and put: "\<And>i s. P s \<Longrightarrow> P (put_loop (unlink_timer i (st_eventloop s)) s)"
    and call: "\<And>cb s. P s \<Longrightarrow> P (call_timer E cb s)"
  shows "P (dispatch_timers st_eventloop put_loop alive (call_timer E) now is s)"
  using assms(1)
proof (induction "is" arbitrary: s)
  case (Cons i "is")
  then show ?case
    by (auto simp: Let_def put call split: option.split)
qed simp

lemma event_frame_timers: "event_frame s (dispatch_timers st_eventloop put_loop alive (call_timer E) now is s)"
  by (rule timers_induct) (auto intro: event_frame_put_loop event_frame_trans [OF _ event_frame_timer])

lemma surfaces_ok_timers:
  "surfaces_ok s \<Longrightarrow> surfaces_ok (dispatch_timers st_eventloop put_loop alive (call_timer E) now is s)"
  by (rule timers_induct) (simp_all add: put_loop_def surfaces_ok_quiet [OF _ quiet_call_timer])

text \<open>The state in the middle of a turn: all ready descriptors have been served.\<close>

definition serve_fds :: "libs \<Rightarrow> ('j, 'm) cjson_scheme \<Rightarrow> turn \<Rightarrow> swaylock_state \<Rightarrow> swaylock_state" where
  "serve_fds E J t s =
     fd_step E J (tn_dispatch t) Term_in (revent (tn_poll t) 2)
       (fd_step E J (tn_dispatch t) Comm_in (revent (tn_poll t) 1)
         (fd_step E J (tn_dispatch t) Display_in (revent (tn_poll t) 0) (arrive t s)))"

lemma fds_arrive [simp]: "fds_registered (arrive t s) = fds_registered s"
  by (simp add: arrive_def fds_registered_def)

lemma poll_turn_eq:
  assumes "fds_registered s"
  shows "poll_turn E J t s =
    (if tn_poll t = Poll_failed then exit_with 1 (arrive t s)
     else if alive (serve_fds E J t s)
     then dispatch_timers st_eventloop put_loop alive (call_timer E) (tn_now t)
       (map lt_id (lp_timers (st_eventloop (serve_fds E J t s)))) (serve_fds E J t s)
     else serve_fds E J t s)"
  using assms
  by (cases "tn_poll t") (simp_all add: poll_turn_def loop_poll_def dispatch_fds_three serve_fds_def Let_def)

lemma fds_serve: "fds_registered (serve_fds E J t s) = fds_registered s"
  by (simp add: serve_fds_def fds_step)

lemma fds_poll_turn: "fds_registered s \<Longrightarrow> fds_registered (poll_turn E J t s)"
  using event_frame_fds [OF event_frame_timers] fds_serve [of E J t s]
  by (simp add: poll_turn_eq) (simp add: exit_with_def fds_registered_def arrive_def)

definition turn_ok :: "libs \<Rightarrow> turn \<Rightarrow> swaylock_state \<Rightarrow> bool" where
  "turn_ok E t s \<longleftrightarrow> (\<forall>es. tn_dispatch t = Dispatched es \<longrightarrow> events_ok E es (arrive t s))"

lemma sys_inv_arrive [simp]: "sys_inv (arrive t s) = sys_inv s"
  by (simp add: sys_inv_def arrive_def)

lemma sys_inv_run_display [simp]: "sys_inv (s\<lparr>st_run_display := b\<rparr>) = sys_inv s"
  by (simp add: sys_inv_def)

lemma sys_inv_serve:
  assumes "sys_inv s" "turn_ok E t s"
  shows "sys_inv (serve_fds E J t s)"
proof -
  have 1: "sys_inv (fd_step E J (tn_dispatch t) Display_in r (arrive t s))" for r
    using assms by (auto simp: fd_step_def call_fd_def display_in_def wl_display_dispatch_def turn_ok_def
        sys_inv_dispatch split: dispatch_result.split)
  have 2: "sys_inv s' \<Longrightarrow> sys_inv (fd_step E J (tn_dispatch t) Comm_in r s')" for r s'
    by (simp add: fd_step_def call_fd_def sys_inv_def inv_comm_in surfaces_ok_comm_in)
  have 3: "sys_inv s' \<Longrightarrow> sys_inv (fd_step E J (tn_dispatch t) Term_in r s')" for r s'
    by (simp add: fd_step_def call_fd_def term_in_def)
  show ?thesis
    by (simp add: serve_fds_def 1 2 3)
qed

lemma sys_inv_turn:
  assumes "sys_inv s" "fds_registered s" "turn_ok E t s" "alive (poll_turn E J t s)"
  shows "sys_inv (poll_turn E J t s)"
  using assms sys_inv_serve [OF assms(1,3), of J]
  by (auto simp: poll_turn_eq sys_inv_def surfaces_ok_timers inv_dispatch_timers exit_with_def alive_def
      split: if_splits)

section \<open>Why the loop ends\<close>

definition signalled :: "turn \<Rightarrow> bool" where
  "signalled t \<longleftrightarrow> revent (tn_poll t) 2 AND (POLLIN OR POLLHUP OR POLLERR) \<noteq> 0"

text \<open>The pipe starts with an AUTH\<^verbatim>\<open>_\<close>RESULT frame whose payload starts with 1.\<close>

definition grant_pending :: "byte list \<Rightarrow> bool" where
  "grant_pending bs \<longleftrightarrow> (\<exists>body rest. bs = frame_bytes (COMM_MSG_AUTH_RESULT, 1 # body) @ rest \<and>
     valid_message (COMM_MSG_AUTH_RESULT, 1 # body))"

definition unlock_cause :: "turn \<Rightarrow> swaylock_state \<Rightarrow> bool" where
  "unlock_cause t s \<longleftrightarrow> \<not> tn_flush t \<or> tn_dispatch t = Dispatch_failed \<or> signalled t \<or>
     grant_pending (pipe_data (io_in s) @ tn_arrive t)"

lemma grants_pending:
  assumes "comm_main_read s = (CommRet ty payload len, s1)" "0 < ty" "grants (word_of_int ty) payload len"
  shows "grant_pending (pipe_data (io_in s))"
proof -
  obtain b body where f: "pipe_data (io_in s) = frame_bytes (b, body) @ pipe_data (io_in s1)"
    "ty = uint b" "len = length body" "payload = (if body = [] then None else Some (body @ [0]))"
    "valid_message (b, body)"
    using comm_read_taken [of s ty payload len s1] assms by (auto simp: comm_main_read_def)
  have "b = COMM_MSG_AUTH_RESULT" "\<exists>body'. body = 1 # body'"
    using assms(3) f(2-4) by (auto simp: grants_def Suc_le_length_iff)
  then show ?thesis
    using f(1,5) by (auto simp: grant_pending_def)
qed

lemma display_step_frame:
  "tn_dispatch t \<noteq> Dispatch_failed \<Longrightarrow> event_frame s (fd_step E J (tn_dispatch t) Display_in r s)"
  using event_frame_dispatch
  by (auto simp: fd_step_def call_fd_def display_in_def wl_display_dispatch_def split: dispatch_result.split)

lemma turn_cause:
  assumes "st_run_display s" "fds_registered s" "alive (poll_turn E J t s)" "\<not> st_run_display (poll_turn E J t s)"
  shows "unlock_cause t s"
proof (rule ccontr)
  assume no: "\<not> unlock_cause t s"
  let ?s1 = "fd_step E J (tn_dispatch t) Display_in (revent (tn_poll t) 0) (arrive t s)"
  let ?s2 = "fd_step E J (tn_dispatch t) Comm_in (revent (tn_poll t) 1) ?s1"
  have p: "tn_poll t \<noteq> Poll_failed"
    using assms(3) by (auto simp: poll_turn_eq [OF assms(2)] exit_with_def alive_def)
  have "\<not> st_run_display (serve_fds E J t s)"
    using assms(4) event_frame_timers p by (auto simp: poll_turn_eq [OF assms(2)] event_frame_def split: if_splits)
  moreover have "serve_fds E J t s = ?s2"
    using no by (simp add: serve_fds_def unlock_cause_def signalled_def fd_step_def)
  moreover have f: "event_frame (arrive t s) ?s1"
    using no by (simp add: unlock_cause_def display_step_frame)
  then have r: "st_run_display ?s1"
    using assms(1) by (simp add: event_frame_def arrive_def)
  ultimately have "\<not> st_run_display (comm_in E J (revent (tn_poll t) 1) ?s1)"
    by (auto simp: fd_step_def call_fd_def split: if_splits)
  from comm_in_run_display [OF r this] have "grant_pending (pipe_data (io_in ?s1))"
    using grants_pending by blast
  then show False
    using f no by (simp add: event_frame_def arrive_def unlock_cause_def)
qed

lemma event_loop_cause:
  assumes "event_loop E J ts s = (True, s')" "st_run_display s" "fds_registered s"
  shows "\<exists>k < length ts. unlock_cause (ts ! k) (fold (poll_turn E J) (take k ts) s) \<and>
    (\<forall>j \<le> k. alive (fold (poll_turn E J) (take j ts) s))"
  using assms
proof (induction ts arbitrary: s)
  case Nil
  then show ?case
    by (simp add: event_loop.simps split: if_splits)
next
  case (Cons t ts)
  have a: "alive s"
    using Cons.prems(1) by (subst (asm) event_loop.simps) (simp split: if_splits)
  show ?case
  proof (cases "tn_flush t")
    case False
    then show ?thesis
      using a by (intro exI [of _ 0]) (simp add: unlock_cause_def)
  next
    case True
    let ?s = "poll_turn E J t s"
    have l: "event_loop E J ts ?s = (True, s')"
      using Cons.prems(1,2) True by (subst (asm) event_loop.simps) (simp split: if_splits)
    then have alive: "alive ?s"
      by (subst (asm) event_loop.simps) (simp split: if_splits)
    show ?thesis
    proof (cases "st_run_display ?s")
      case False
      then show ?thesis
        using turn_cause [OF Cons.prems(2,3) alive] a by (intro exI [of _ 0]) simp
    next
      case True
      from Cons.IH [OF l True fds_poll_turn [OF Cons.prems(3)]] obtain k where
        k: "k < length ts" "unlock_cause (ts ! k) (fold (poll_turn E J) (take k ts) ?s)"
        "\<forall>j \<le> k. alive (fold (poll_turn E J) (take j ts) ?s)"
        by blast
      have "alive (fold (poll_turn E J) (take j (t # ts)) s)" if "j \<le> Suc k" for j
        using k(3) a that by (cases j) simp_all
      then show ?thesis
        using k(1,2) by (intro exI [of _ "Suc k"]) simp
    qed
  qed
qed

text \<open>The promises of the compositor along a run of the loop.\<close>

fun turns_ok :: "libs \<Rightarrow> ('j, 'm) cjson_scheme \<Rightarrow> turn list \<Rightarrow> swaylock_state \<Rightarrow> bool" where
  "turns_ok E J [] s = True"
| "turns_ok E J (t # ts) s = (turn_ok E t s \<and> turns_ok E J ts (poll_turn E J t s))"

lemma sys_inv_event_loop:
  assumes "sys_inv s" "fds_registered s" "turns_ok E J ts s" "event_loop E J ts s = (b, s')" "alive s'"
  shows "sys_inv s'"
  using assms
proof (induction ts arbitrary: s)
  case Nil
  then show ?case
    by (simp add: event_loop.simps split: if_splits)
next
  case (Cons t ts)
  have d: "event_loop E J ts s'' = (False, s'')" if "\<not> alive s''" for s''
    using that by (simp add: event_loop.simps)
  show ?case
  proof (cases "alive s \<and> st_run_display s \<and> tn_flush t")
    case True
    then have l: "event_loop E J ts (poll_turn E J t s) = (b, s')"
      using Cons.prems(4) by (subst (asm) event_loop.simps) simp
    then have "alive (poll_turn E J t s)"
      using d [of "poll_turn E J t s"] Cons.prems(5) by auto
    then show ?thesis
      using Cons.IH [OF sys_inv_turn fds_poll_turn _ l] Cons.prems by simp
  next
    case False
    then show ?thesis
      using Cons.prems by (subst (asm) event_loop.simps) (auto split: if_splits)
  qed
qed

end
