(* ===== verification/Options.thy ===== *)
theory Options
  imports Image Log
begin

text \<open>
  Options and configuration: \<^verbatim>\<open>parse_color\<close>, \<^verbatim>\<open>set_default_colors\<close>, \<^verbatim>\<open>parse_options\<close>,
  \<^verbatim>\<open>get_config_path\<close>, \<^verbatim>\<open>load_config\<close> and \<^verbatim>\<open>log_init\<close> of \<^verbatim>\<open>src/main.c\<close>.

  The parts of the C library these use are written out: the number parsers, \<^verbatim>\<open>getline\<close>, and
  \<^verbatim>\<open>getopt_long\<close> as the GNU library has it. The scanner keeps the rest of a cluster of short options
  between calls (\<open>nextchar\<close>), also when the program sets \<^verbatim>\<open>optind\<close> back to 1. It fixes its treatment of
  arguments that are not options at the first call, which is the one in \<^verbatim>\<open>log_init\<close> with the
  leading dash: such an argument is returned to the program in its place, as \<open>Nonopt\<close>.

  Environment, file system and the word expansion of the shell are the parameter \<open>os\<close>.
\<close>

section \<open>Numbers in the C library\<close>

definition is_space :: "char \<Rightarrow> bool" where
  "is_space c \<longleftrightarrow> c \<in> {CHR 0x20, CHR 0x09, CHR 0x0A, CHR 0x0B, CHR 0x0C, CHR 0x0D}"

definition digit_val :: "char \<Rightarrow> nat" where
  "digit_val c =
     (let n = of_char c in
      if 48 \<le> n \<and> n \<le> 57 then n - 48
      else if 65 \<le> n \<and> n \<le> 90 then n - 55
      else if 97 \<le> n \<and> n \<le> 122 then n - 87
      else 36)"

definition digits_value :: "nat \<Rightarrow> string \<Rightarrow> nat" where
  "digits_value base cs =
     foldl (\<lambda>n c. base * n + digit_val c) 0 (takeWhile (\<lambda>c. digit_val c < base) cs)"

definition hex_prefix :: "string \<Rightarrow> bool" where
  "hex_prefix cs \<longleftrightarrow> 3 \<le> length cs \<and> cs ! 0 = CHR ''0'' \<and> cs ! 1 \<in> {CHR ''x'', CHR ''X''} \<and>
     digit_val (cs ! 2) < 16"

text \<open>The magnitude after the sign, for a base of 0, 10 or 16.\<close>

definition magnitude :: "nat \<Rightarrow> string \<Rightarrow> nat" where
  "magnitude base cs =
     (if base \<in> {0, 16} \<and> hex_prefix cs then digits_value 16 (drop 2 cs)
      else if base = 0 then (if cs \<noteq> [] \<and> hd cs = CHR ''0'' then digits_value 8 cs else digits_value 10 cs)
      else digits_value base cs)"

definition signed_magnitude :: "nat \<Rightarrow> string \<Rightarrow> bool \<times> nat" where
  "signed_magnitude base nptr =
     (case dropWhile is_space nptr of
        [] \<Rightarrow> (False, 0)
      | c # cs \<Rightarrow>
          (if c = CHR ''-'' then (True, magnitude base cs)
           else if c = CHR ''+'' then (False, magnitude base cs)
           else (False, magnitude base (c # cs))))"

definition strtol :: "string \<Rightarrow> nat \<Rightarrow> int" where
  "strtol nptr base =
     (let (neg, n) = signed_magnitude base nptr
      in max (- (2 ^ 63)) (min (2 ^ 63 - 1) (if neg then - int n else int n)))"

definition strtoul :: "string \<Rightarrow> nat \<Rightarrow> 64 word" where
  "strtoul nptr base =
     (let (neg, n) = signed_magnitude base nptr
      in if 2 ^ 64 \<le> n then - 1 else if neg then - word_of_nat n else word_of_nat n)"

definition atoi :: "string \<Rightarrow> int" where
  "atoi nptr = c_int (strtol nptr 10)"

section \<open>Colours\<close>

definition parse_color :: "string \<Rightarrow> u32" where
  "parse_color arg =
     (let color = (if arg \<noteq> [] \<and> hd arg = CHR ''#'' then tl arg else arg);
          len = length color
      in if len \<noteq> 6 \<and> len \<noteq> 8 then 0xFFFFFFFF
         else (let res = ucast (strtoul color 16) :: u32
               in if len = 6 then push_bit 8 res OR 0xFF else res))"

definition set_default_colors :: swaylock_colors where
  "set_default_colors =
     \<lparr>col_background = 0xA3A3A3FF,
      col_bs_highlight = 0xDB3300FF,
      col_key_highlight = 0x33DB00FF,
      col_caps_lock_bs_highlight = 0xDB3300FF,
      col_caps_lock_key_highlight = 0x33DB00FF,
      col_separator = 0x000000FF,
      col_layout_background = 0x000000C0,
      col_layout_border = 0x00000000,
      col_layout_text = 0xFFFFFFFF,
      col_inside = \<lparr>cs_input = 0x000000C0, cs_cleared = 0xE5A445C0, cs_caps_lock = 0x000000C0,
        cs_verifying = 0x0072FFC0, cs_wrong = 0xFA0000C0\<rparr>,
      col_line = \<lparr>cs_input = 0x000000FF, cs_cleared = 0x000000FF, cs_caps_lock = 0x000000FF,
        cs_verifying = 0x000000FF, cs_wrong = 0x000000FF\<rparr>,
      col_ring = \<lparr>cs_input = 0x337D00FF, cs_cleared = 0xE5A445FF, cs_caps_lock = 0xE5A445FF,
        cs_verifying = 0x3300FFFF, cs_wrong = 0x7D3300FF\<rparr>,
      col_text = \<lparr>cs_input = 0xE5A445FF, cs_cleared = 0x000000FF, cs_caps_lock = 0xE5A445FF,
        cs_verifying = 0x000000FF, cs_wrong = 0x000000FF\<rparr>\<rparr>"

datatype line_mode = LM_LINE | LM_INSIDE | LM_RING

section \<open>The option scanner\<close>

text \<open>A long option: its name, whether it requires an argument, and its code.\<close>

type_synonym 'c long_option = "string \<times> bool \<times> 'c"

text \<open>
  What one call of the scanner returns: an option with its argument, an argument that is no option,
  a question mark (or colon), or -1 at the end.
\<close>

datatype 'c scan = Opt 'c "string option" | Nonopt string | Bad | Done

text \<open>The state of the scanner: \<open>nextchar\<close>, and the arguments from \<^verbatim>\<open>optind\<close> on.\<close>

type_synonym scanner = "string \<times> string list"

definition is_prefix :: "string \<Rightarrow> string \<Rightarrow> bool" where
  "is_prefix p s \<longleftrightarrow> take (length p) s = p"

text \<open>
  An exact name wins; otherwise a prefix stands for the only option it can be completed to. Names
  for the same option, with the same use of an argument, are not ambiguous.
\<close>

definition find_long :: "'c long_option list \<Rightarrow> string \<Rightarrow> 'c long_option option" where
  "find_long table name =
     (case filter (\<lambda>(n, _). n = name) table of
        o1 # _ \<Rightarrow> Some o1
      | [] \<Rightarrow>
          (case filter (\<lambda>(n, _). is_prefix name n) table of
             [] \<Rightarrow> None
           | o1 # os \<Rightarrow> (if list_all (\<lambda>o2. snd o2 = snd o1) os then Some o1 else None)))"

definition scan_long :: "'c long_option list \<Rightarrow> string \<Rightarrow> string list \<Rightarrow> 'c scan \<times> scanner" where
  "scan_long table word rest =
     (let name = takeWhile (\<lambda>c. c \<noteq> CHR ''='') word;
          value = drop (length name) word
      in case find_long table name of
           None \<Rightarrow> (Bad, [], rest)
         | Some (_, has_arg, code) \<Rightarrow>
             (if value \<noteq> [] then (if has_arg then Opt code (Some (tl value)) else Bad, [], rest)
              else if has_arg then
                (case rest of [] \<Rightarrow> (Bad, [], rest) | a # rest' \<Rightarrow> (Opt code (Some a), [], rest'))
              else (Opt code None, [], rest)))"

text \<open>
  One character of a cluster. When it is the last one, the scanner moves to the next argument, also
  when the cluster is left over from an earlier scan.
\<close>

definition scan_short ::
    "(char \<Rightarrow> (bool \<times> 'c) option) \<Rightarrow> char \<Rightarrow> string \<Rightarrow> string list \<Rightarrow> 'c scan \<times> scanner" where
  "scan_short shorts c cluster args =
     (let args' = (if cluster = [] then drop 1 args else args)
      in case shorts c of
           None \<Rightarrow> (Bad, cluster, args')
         | Some (has_arg, code) \<Rightarrow>
             (if \<not> has_arg then (Opt code None, cluster, args')
              else if cluster \<noteq> [] then (Opt code (Some cluster), [], drop 1 args')
              else (case args' of
                      [] \<Rightarrow> (Bad, [], args')
                    | a # rest \<Rightarrow> (Opt code (Some a), [], rest))))"

fun getopt_long ::
    "(char \<Rightarrow> (bool \<times> 'c) option) \<Rightarrow> 'c long_option list \<Rightarrow> scanner \<Rightarrow> 'c scan \<times> scanner" where
  "getopt_long shorts table (c # cluster, args) = scan_short shorts c cluster args"
| "getopt_long shorts table ([], []) = (Done, [], [])"
| "getopt_long shorts table ([], a # rest) =
     (if a = ''--'' then (Done, [], [])
      else if a = [] \<or> hd a \<noteq> CHR ''-'' \<or> tl a = [] then (Nonopt a, [], rest)
      else if a ! 1 = CHR ''-'' then scan_long table (drop 2 a) rest
      else scan_short shorts (a ! 1) (drop 2 a) (a # rest))"

section \<open>The options of the program\<close>

datatype opt =
  Short char
| LO_BS_HL_COLOR | LO_CAPS_LOCK_BS_HL_COLOR | LO_CAPS_LOCK_KEY_HL_COLOR
| LO_FONT | LO_FONT_SIZE | LO_IND_IDLE_VISIBLE
| LO_IND_RADIUS | LO_IND_X_POSITION | LO_IND_Y_POSITION
| LO_IND_THICKNESS | LO_INSIDE_COLOR | LO_INSIDE_CLEAR_COLOR
| LO_INSIDE_CAPS_LOCK_COLOR | LO_INSIDE_VER_COLOR | LO_INSIDE_WRONG_COLOR
| LO_KEY_HL_COLOR | LO_LAYOUT_TXT_COLOR | LO_LAYOUT_BG_COLOR
| LO_LAYOUT_BORDER_COLOR | LO_LINE_COLOR | LO_LINE_CLEAR_COLOR
| LO_LINE_CAPS_LOCK_COLOR | LO_LINE_VER_COLOR | LO_LINE_WRONG_COLOR
| LO_RING_COLOR | LO_RING_CLEAR_COLOR | LO_RING_CAPS_LOCK_COLOR
| LO_RING_VER_COLOR | LO_RING_WRONG_COLOR | LO_SEP_COLOR
| LO_TEXT_COLOR | LO_TEXT_CLEAR_COLOR | LO_TEXT_CAPS_LOCK_COLOR
| LO_TEXT_VER_COLOR | LO_TEXT_WRONG_COLOR | LO_STEAL_UNLOCK

definition long_options :: "opt long_option list" where
  "long_options =
    [(''config'', True, Short CHR ''C''),
     (''color'', True, Short CHR ''c''),
     (''debug'', False, Short CHR ''d''),
     (''ignore-empty-password'', False, Short CHR ''e''),
     (''daemonize'', False, Short CHR ''f''),
     (''ready-fd'', True, Short CHR ''R''),
     (''help'', False, Short CHR ''h''),
     (''image'', True, Short CHR ''i''),
     (''disable-caps-lock-text'', False, Short CHR ''L''),
     (''indicator-caps-lock'', False, Short CHR ''l''),
     (''line-uses-inside'', False, Short CHR ''n''),
     (''line-uses-ring'', False, Short CHR ''r''),
     (''scaling'', True, Short CHR ''s''),
     (''tiling'', False, Short CHR ''t''),
     (''no-unlock-indicator'', False, Short CHR ''u''),
     (''show-keyboard-layout'', False, Short CHR ''k''),
     (''hide-keyboard-layout'', False, Short CHR ''K''),
     (''show-failed-attempts'', False, Short CHR ''F''),
     (''version'', False, Short CHR ''v''),
     (''bs-hl-color'', True, LO_BS_HL_COLOR),
     (''caps-lock-bs-hl-color'', True, LO_CAPS_LOCK_BS_HL_COLOR),
     (''caps-lock-key-hl-color'', True, LO_CAPS_LOCK_KEY_HL_COLOR),
     (''font'', True, LO_FONT),
     (''font-size'', True, LO_FONT_SIZE),
     (''indicator-idle-visible'', False, LO_IND_IDLE_VISIBLE),
     (''indicator-radius'', True, LO_IND_RADIUS),
     (''indicator-thickness'', True, LO_IND_THICKNESS),
     (''indicator-x-position'', True, LO_IND_X_POSITION),
     (''indicator-y-position'', True, LO_IND_Y_POSITION),
     (''inside-color'', True, LO_INSIDE_COLOR),
     (''inside-clear-color'', True, LO_INSIDE_CLEAR_COLOR),
     (''inside-caps-lock-color'', True, LO_INSIDE_CAPS_LOCK_COLOR),
     (''inside-ver-color'', True, LO_INSIDE_VER_COLOR),
     (''inside-wrong-color'', True, LO_INSIDE_WRONG_COLOR),
     (''key-hl-color'', True, LO_KEY_HL_COLOR),
     (''layout-bg-color'', True, LO_LAYOUT_BG_COLOR),
     (''layout-border-color'', True, LO_LAYOUT_BORDER_COLOR),
     (''layout-text-color'', True, LO_LAYOUT_TXT_COLOR),
     (''line-color'', True, LO_LINE_COLOR),
     (''line-clear-color'', True, LO_LINE_CLEAR_COLOR),
     (''line-caps-lock-color'', True, LO_LINE_CAPS_LOCK_COLOR),
     (''line-ver-color'', True, LO_LINE_VER_COLOR),
     (''line-wrong-color'', True, LO_LINE_WRONG_COLOR),
     (''ring-color'', True, LO_RING_COLOR),
     (''ring-clear-color'', True, LO_RING_CLEAR_COLOR),
     (''ring-caps-lock-color'', True, LO_RING_CAPS_LOCK_COLOR),
     (''ring-ver-color'', True, LO_RING_VER_COLOR),
     (''ring-wrong-color'', True, LO_RING_WRONG_COLOR),
     (''separator-color'', True, LO_SEP_COLOR),
     (''text-color'', True, LO_TEXT_COLOR),
     (''text-clear-color'', True, LO_TEXT_CLEAR_COLOR),
     (''text-caps-lock-color'', True, LO_TEXT_CAPS_LOCK_COLOR),
     (''text-ver-color'', True, LO_TEXT_VER_COLOR),
     (''text-wrong-color'', True, LO_TEXT_WRONG_COLOR),
     (''steal-unlock'', False, LO_STEAL_UNLOCK)]"

text \<open>The string \<^verbatim>\<open>"c:deFfhi:kKLlnrs:tuvC:R:"\<close>.\<close>

definition short_options :: "char \<Rightarrow> (bool \<times> opt) option" where
  "short_options c =
     (if c \<in> set ''cisCR'' then Some (True, Short c)
      else if c \<in> set ''deFfhkKLlnrtuv'' then Some (False, Short c)
      else None)"

definition color_option :: "opt \<Rightarrow> (u32 \<Rightarrow> swaylock_colors \<Rightarrow> swaylock_colors) option" where
  "color_option code =
     (case code of
        LO_BS_HL_COLOR \<Rightarrow> Some (\<lambda>c. col_bs_highlight_update (\<lambda>_. c))
      | LO_CAPS_LOCK_BS_HL_COLOR \<Rightarrow> Some (\<lambda>c. col_caps_lock_bs_highlight_update (\<lambda>_. c))
      | LO_CAPS_LOCK_KEY_HL_COLOR \<Rightarrow> Some (\<lambda>c. col_caps_lock_key_highlight_update (\<lambda>_. c))
      | LO_INSIDE_COLOR \<Rightarrow> Some (\<lambda>c. col_inside_update (cs_input_update (\<lambda>_. c)))
      | LO_INSIDE_CLEAR_COLOR \<Rightarrow> Some (\<lambda>c. col_inside_update (cs_cleared_update (\<lambda>_. c)))
      | LO_INSIDE_CAPS_LOCK_COLOR \<Rightarrow> Some (\<lambda>c. col_inside_update (cs_caps_lock_update (\<lambda>_. c)))
      | LO_INSIDE_VER_COLOR \<Rightarrow> Some (\<lambda>c. col_inside_update (cs_verifying_update (\<lambda>_. c)))
      | LO_INSIDE_WRONG_COLOR \<Rightarrow> Some (\<lambda>c. col_inside_update (cs_wrong_update (\<lambda>_. c)))
      | LO_KEY_HL_COLOR \<Rightarrow> Some (\<lambda>c. col_key_highlight_update (\<lambda>_. c))
      | LO_LAYOUT_BG_COLOR \<Rightarrow> Some (\<lambda>c. col_layout_background_update (\<lambda>_. c))
      | LO_LAYOUT_BORDER_COLOR \<Rightarrow> Some (\<lambda>c. col_layout_border_update (\<lambda>_. c))
      | LO_LAYOUT_TXT_COLOR \<Rightarrow> Some (\<lambda>c. col_layout_text_update (\<lambda>_. c))
      | LO_LINE_COLOR \<Rightarrow> Some (\<lambda>c. col_line_update (cs_input_update (\<lambda>_. c)))
      | LO_LINE_CLEAR_COLOR \<Rightarrow> Some (\<lambda>c. col_line_update (cs_cleared_update (\<lambda>_. c)))
      | LO_LINE_CAPS_LOCK_COLOR \<Rightarrow> Some (\<lambda>c. col_line_update (cs_caps_lock_update (\<lambda>_. c)))
      | LO_LINE_VER_COLOR \<Rightarrow> Some (\<lambda>c. col_line_update (cs_verifying_update (\<lambda>_. c)))
      | LO_LINE_WRONG_COLOR \<Rightarrow> Some (\<lambda>c. col_line_update (cs_wrong_update (\<lambda>_. c)))
      | LO_RING_COLOR \<Rightarrow> Some (\<lambda>c. col_ring_update (cs_input_update (\<lambda>_. c)))
      | LO_RING_CLEAR_COLOR \<Rightarrow> Some (\<lambda>c. col_ring_update (cs_cleared_update (\<lambda>_. c)))
      | LO_RING_CAPS_LOCK_COLOR \<Rightarrow> Some (\<lambda>c. col_ring_update (cs_caps_lock_update (\<lambda>_. c)))
      | LO_RING_VER_COLOR \<Rightarrow> Some (\<lambda>c. col_ring_update (cs_verifying_update (\<lambda>_. c)))
      | LO_RING_WRONG_COLOR \<Rightarrow> Some (\<lambda>c. col_ring_update (cs_wrong_update (\<lambda>_. c)))
      | LO_SEP_COLOR \<Rightarrow> Some (\<lambda>c. col_separator_update (\<lambda>_. c))
      | LO_TEXT_COLOR \<Rightarrow> Some (\<lambda>c. col_text_update (cs_input_update (\<lambda>_. c)))
      | LO_TEXT_CLEAR_COLOR \<Rightarrow> Some (\<lambda>c. col_text_update (cs_cleared_update (\<lambda>_. c)))
      | LO_TEXT_CAPS_LOCK_COLOR \<Rightarrow> Some (\<lambda>c. col_text_update (cs_caps_lock_update (\<lambda>_. c)))
      | LO_TEXT_VER_COLOR \<Rightarrow> Some (\<lambda>c. col_text_update (cs_verifying_update (\<lambda>_. c)))
      | LO_TEXT_WRONG_COLOR \<Rightarrow> Some (\<lambda>c. col_text_update (cs_wrong_update (\<lambda>_. c)))
      | _ \<Rightarrow> None)"

text \<open>What the program asks of its surroundings.\<close>

record os =
  os_wordexp :: "string \<Rightarrow> string list option"
  os_load_image :: "string \<Rightarrow> image_surface option"
  os_getenv :: "string \<Rightarrow> string option"
  os_readable :: "string \<Rightarrow> bool"
  os_file :: "string \<Rightarrow> string option"
  os_alloc :: "nat \<Rightarrow> bool"
  os_sysconfdir :: string

text \<open>
  The objects \<^verbatim>\<open>parse_options\<close> writes to: the three pointers of its interface, any of which may be
  null (\<open>None\<close>), and the verbosity of the log.
\<close>

record parse_env =
  pe_state :: "swaylock_state option"
  pe_line_mode :: "line_mode option"
  pe_config_path :: "string option option"
  pe_log :: log_state

datatype outcome = Ret int | Exit int

definition set_arg :: "(swaylock_args \<Rightarrow> swaylock_args) \<Rightarrow> parse_env \<Rightarrow> parse_env" where
  "set_arg f e =
     e\<lparr>pe_state := map_option (\<lambda>s. s\<lparr>st_args := f (st_args s)\<rparr>) (pe_state e)\<rparr>"

definition set_mode :: "background_mode \<Rightarrow> parse_env \<Rightarrow> outcome option \<times> parse_env" where
  "set_mode m e =
     (if pe_state e \<noteq> None \<and> m = BACKGROUND_MODE_INVALID
      then (Some (Ret 1), set_arg (arg_mode_update (\<lambda>_. m)) e)
      else (None, set_arg (arg_mode_update (\<lambda>_. m)) e))"

text \<open>The flags without an argument.\<close>

definition flag_option :: "opt \<Rightarrow> (swaylock_args \<Rightarrow> swaylock_args) option" where
  "flag_option code =
     (if code = Short CHR ''e'' then Some (arg_ignore_empty_update (\<lambda>_. True))
      else if code = Short CHR ''F'' then Some (arg_show_failed_attempts_update (\<lambda>_. True))
      else if code = Short CHR ''f'' then Some (arg_daemonize_update (\<lambda>_. True))
      else if code = Short CHR ''k'' then Some (arg_show_keyboard_layout_update (\<lambda>_. True))
      else if code = Short CHR ''K'' then Some (arg_hide_keyboard_layout_update (\<lambda>_. True))
      else if code = Short CHR ''L'' then Some (arg_show_caps_lock_text_update (\<lambda>_. False))
      else if code = Short CHR ''l'' then Some (arg_show_caps_lock_indicator_update (\<lambda>_. True))
      else if code = Short CHR ''t'' then Some (arg_mode_update (\<lambda>_. BACKGROUND_MODE_TILE))
      else if code = Short CHR ''u'' then Some (arg_show_indicator_update (\<lambda>_. False))
      else if code = LO_IND_IDLE_VISIBLE then Some (arg_indicator_idle_visible_update (\<lambda>_. True))
      else if code = LO_STEAL_UNLOCK then Some (arg_steal_unlock_update (\<lambda>_. True))
      else None)"

text \<open>The options whose argument is stored in a field, colours apart.\<close>

definition value_option :: "opt \<Rightarrow> string \<Rightarrow> (swaylock_args \<Rightarrow> swaylock_args) option" where
  "value_option code optarg =
     (if code = Short CHR ''c''
      then Some (arg_colors_update (col_background_update (\<lambda>_. parse_color optarg)))
      else if code = Short CHR ''R'' then Some (arg_ready_fd_update (\<lambda>_. c_int (strtol optarg 10)))
      else if code = LO_FONT then Some (arg_font_update (\<lambda>_. optarg))
      else if code = LO_FONT_SIZE then Some (arg_font_size_update (\<lambda>_. word_of_int (atoi optarg)))
      else if code = LO_IND_RADIUS then Some (arg_radius_update (\<lambda>_. word_of_int (strtol optarg 0)))
      else if code = LO_IND_THICKNESS
      then Some (arg_thickness_update (\<lambda>_. word_of_int (strtol optarg 0)))
      else if code = LO_IND_X_POSITION
      then Some (\<lambda>a. a\<lparr>arg_override_indicator_x_position := True,
                        arg_indicator_x_position := word_of_int (atoi optarg)\<rparr>)
      else if code = LO_IND_Y_POSITION
      then Some (\<lambda>a. a\<lparr>arg_override_indicator_y_position := True,
                        arg_indicator_y_position := word_of_int (atoi optarg)\<rparr>)
      else map_option (\<lambda>set. arg_colors_update (set (parse_color optarg))) (color_option code))"

text \<open>
  One round of the switch: \<open>Some\<close> outcome when the function or the process ends there. The code
  \<open>Short\<close> \<^verbatim>\<open>'h'\<close> has no case of its own and goes to the default.
\<close>

definition apply_option ::
    "os \<Rightarrow> opt \<Rightarrow> string option \<Rightarrow> parse_env \<Rightarrow> outcome option \<times> parse_env" where
  "apply_option os code arg e =
     (let optarg = (case arg of None \<Rightarrow> [] | Some a \<Rightarrow> a) in
      if code = Short CHR ''C''
      then (None, e\<lparr>pe_config_path := map_option (\<lambda>_. Some optarg) (pe_config_path e)\<rparr>)
      else if code = Short CHR ''d''
      then (None, e\<lparr>pe_log := swaylock_log_init LOG_DEBUG (pe_log e)\<rparr>)
      else if code = Short CHR ''i''
      then (None, e\<lparr>pe_state :=
              map_option (load_image (os_wordexp os) (os_load_image os) optarg) (pe_state e)\<rparr>)
      else if code = Short CHR ''n''
      then (None, e\<lparr>pe_line_mode := map_option (\<lambda>_. LM_INSIDE) (pe_line_mode e)\<rparr>)
      else if code = Short CHR ''r''
      then (None, e\<lparr>pe_line_mode := map_option (\<lambda>_. LM_RING) (pe_line_mode e)\<rparr>)
      else if code = Short CHR ''s'' then set_mode (parse_background_mode optarg) e
      else if code = Short CHR ''v'' then (Some (Exit 0), e)
      else case flag_option code of
             Some f \<Rightarrow> (None, set_arg f e)
           | None \<Rightarrow>
               (case value_option code optarg of
                  Some f \<Rightarrow> (None, set_arg f e)
                | None \<Rightarrow> (Some (Ret 1), e)))"

text \<open>The scanner comes closer to the end with every call, by arguments and then by characters.\<close>

definition cluster_left :: "scanner \<Rightarrow> nat" where
  "cluster_left sc =
     (case sc of (cluster, args) \<Rightarrow>
        (if cluster \<noteq> [] then length cluster else if args = [] then 0 else Suc (length (hd args))))"

definition scan_less :: "scanner \<Rightarrow> scanner \<Rightarrow> bool" where
  "scan_less sc' sc \<longleftrightarrow> (sc', sc) \<in> measures [\<lambda>sc. length (snd sc), cluster_left]"

lemma scan_less_iff:
  "scan_less (c', as') (c, as) \<longleftrightarrow>
     length as' < length as \<or> length as' = length as \<and> cluster_left (c', as') < cluster_left (c, as)"
  by (auto simp: scan_less_def)

lemma scan_long_less: "scan_less (snd (scan_long table w rest)) ([], a # rest)"
  by (auto simp: scan_long_def scan_less_iff Let_def split: option.splits list.splits)

lemma scan_short_less: "scan_less (snd (scan_short shorts c cluster args)) (c # cluster, args)"
  by (cases args)
    (auto simp: scan_short_def scan_less_iff cluster_left_def Let_def split: option.splits list.splits)

lemma scan_short_enter:
  assumes "cluster_left ([], args) > Suc (length cluster)"
  shows "scan_less (snd (scan_short shorts c cluster args)) ([], args)"
proof -
  obtain c' as' where r: "snd (scan_short shorts c cluster args) = (c', as')"
    by force
  have "scan_less (c', as') (c # cluster, args)"
    using scan_short_less [of shorts c cluster args] r by simp
  then show ?thesis
    using assms unfolding r scan_less_iff by (auto simp: cluster_left_def split: if_splits)
qed

lemma getopt_long_less:
  assumes "fst (getopt_long shorts table sc) \<noteq> Done"
  shows "scan_less (snd (getopt_long shorts table sc)) sc"
  using assms
proof (cases "(shorts, table, sc)" rule: getopt_long.cases)
  case (3 sh tb a rest)
  then have sc: "sc = ([], a # rest)"
    by simp
  show ?thesis
  proof (cases "a = [] \<or> hd a \<noteq> CHR ''-'' \<or> tl a = []")
    case True
    then show ?thesis
      using assms by (auto simp: sc scan_less_iff split: if_splits)
  next
    case False
    then have "Suc (length (drop 2 a)) < cluster_left ([], a # rest)"
      by (auto simp: cluster_left_def)
    then show ?thesis
      using assms False scan_long_less scan_short_enter [of "drop 2 a" "a # rest" shorts "a ! 1"]
      by (auto simp: sc split: if_splits)
  qed
qed (auto simp: scan_short_less)

lemma getopt_long_step:
  "(Opt code arg, sc') = getopt_long shorts table sc \<Longrightarrow> scan_less sc' sc"
  "(Nonopt a, sc') = getopt_long shorts table sc \<Longrightarrow> scan_less sc' sc"
  "(Bad, sc') = getopt_long shorts table sc \<Longrightarrow> scan_less sc' sc"
  using getopt_long_less [of shorts table sc] by (metis fst_conv scan.distinct snd_conv)+

function parse_loop :: "os \<Rightarrow> scanner \<Rightarrow> parse_env \<Rightarrow> outcome \<times> string \<times> parse_env" where
  "parse_loop os sc e =
     (case getopt_long short_options long_options sc of
        (Done, sc') \<Rightarrow> (Ret 0, fst sc', e)
      | (Bad, sc') \<Rightarrow> (Ret 1, fst sc', e)
      | (Nonopt a, sc') \<Rightarrow> (Ret 1, fst sc', e)
      | (Opt code arg, sc') \<Rightarrow>
          (case apply_option os code arg e of
             (Some r, e') \<Rightarrow> (r, fst sc', e')
           | (None, e') \<Rightarrow> parse_loop os sc' e'))"
  by auto
termination
  by (relation "measures [\<lambda>(os, sc, e). length (snd sc), \<lambda>(os, sc, e). cluster_left sc]")
    (auto dest!: getopt_long_step simp: scan_less_def)

definition parse_options ::
    "os \<Rightarrow> string \<Rightarrow> string list \<Rightarrow> parse_env \<Rightarrow> outcome \<times> string \<times> parse_env" where
  "parse_options os nextchar args e = parse_loop os (nextchar, args) e"

section \<open>The configuration file\<close>

definition file_exists :: "os \<Rightarrow> string \<Rightarrow> bool" where
  "file_exists os path = os_readable os path"

definition config_paths :: "os \<Rightarrow> string list" where
  "config_paths os =
     [''$HOME/.swaylock/config'',
      (case os_getenv os ''XDG_CONFIG_HOME'' of
         None \<Rightarrow> ''$HOME/.config/swaylock/config''
       | Some [] \<Rightarrow> ''$HOME/.config/swaylock/config''
       | Some (_ # _) \<Rightarrow> ''$XDG_CONFIG_HOME/swaylock/config''),
      os_sysconfdir os @ ''/swaylock/config'']"

fun first_config :: "os \<Rightarrow> string list \<Rightarrow> string option" where
  "first_config os [] = None"
| "first_config os (p # ps) =
     (case os_wordexp os p of
        Some (path # _) \<Rightarrow> (if file_exists os path then Some path else first_config os ps)
      | _ \<Rightarrow> first_config os ps)"

definition get_config_path :: "os \<Rightarrow> string option" where
  "get_config_path os = first_config os (config_paths os)"

text \<open>
  The lines \<^verbatim>\<open>getline\<close> returns, without their newline. The program reads each of them as a C string,
  that is up to the first NUL.
\<close>

fun get_lines :: "string \<Rightarrow> string list" where
  "get_lines [] = []"
| "get_lines (c # cs) =
     (if c = CHR 0x0A then [] # get_lines cs
      else (case get_lines cs of [] \<Rightarrow> [[c]] | l # ls \<Rightarrow> (c # l) # ls))"

definition c_string :: "string \<Rightarrow> string" where
  "c_string line = takeWhile (\<lambda>c. c \<noteq> CHR 0x00) line"

fun load_lines ::
    "os \<Rightarrow> nat \<Rightarrow> string \<Rightarrow> string list \<Rightarrow> parse_env \<Rightarrow> outcome \<times> string \<times> parse_env" where
  "load_lines os line_number nextchar [] e = (Ret 0, nextchar, e)"
| "load_lines os line_number nextchar (l # ls) e =
     (let line = c_string l in
      if line = [] \<or> hd line = CHR ''#'' then load_lines os (Suc line_number) nextchar ls e
      else if \<not> os_alloc os (Suc line_number) then (Ret 0, nextchar, e)
      else case parse_options os nextchar [''--'' @ line] (e\<lparr>pe_config_path := None\<rparr>) of
             (Exit c, nextchar', e') \<Rightarrow> (Exit c, nextchar', e')
           | (Ret r, nextchar', e') \<Rightarrow>
               (if r \<noteq> 0 then (Ret 0, nextchar', e')
                else load_lines os (Suc line_number) nextchar' ls e'))"

definition load_config :: "os \<Rightarrow> string \<Rightarrow> string \<Rightarrow> parse_env \<Rightarrow> outcome \<times> string \<times> parse_env" where
  "load_config os nextchar path e =
     (case os_file os path of
        None \<Rightarrow> (Ret 0, nextchar, e)
      | Some content \<Rightarrow> load_lines os 0 nextchar (get_lines content) e)"

section \<open>The early look for the debug flag\<close>

definition debug_shorts :: "char \<Rightarrow> (bool \<times> char) option" where
  "debug_shorts c = (if c = CHR ''d'' then Some (False, c) else None)"

function log_init_loop :: "scanner \<Rightarrow> log_state \<Rightarrow> string \<times> log_state" where
  "log_init_loop sc lg =
     (case getopt_long debug_shorts [(''debug'', False, CHR ''d'')] sc of
        (Done, sc') \<Rightarrow> (fst sc', swaylock_log_init LOG_ERROR lg)
      | (Opt _ _, sc') \<Rightarrow> (fst sc', swaylock_log_init LOG_DEBUG lg)
      | (_, sc') \<Rightarrow> log_init_loop sc' lg)"
  by auto
termination
  by (relation "measures [\<lambda>(sc, lg). length (snd sc), \<lambda>(sc, lg). cluster_left sc]")
    (auto dest!: getopt_long_step simp: scan_less_def)

definition log_init :: "string list \<Rightarrow> log_state \<Rightarrow> string \<times> log_state" where
  "log_init args lg = log_init_loop ([], args) lg"

declare parse_loop.simps [simp del] log_init_loop.simps [simp del]

section \<open>Specification\<close>

text \<open>Hexadecimal numerals of a fixed number of digits, in lower or upper case.\<close>

definition hex_digit :: "bool \<Rightarrow> nat \<Rightarrow> char" where
  "hex_digit upper n = char_of (if n < 10 then 48 + n else if upper then 55 + n else 87 + n)"

fun to_hex :: "bool \<Rightarrow> nat \<Rightarrow> nat \<Rightarrow> string" where
  "to_hex upper 0 n = []"
| "to_hex upper (Suc k) n = to_hex upper k (n div 16) @ [hex_digit upper (n mod 16)]"

text \<open>
  A line of the configuration file that stands for an option on its own: not blank, not a comment,
  one line, and complete without a further argument.
\<close>

definition option_line :: "string \<Rightarrow> bool" where
  "option_line l \<longleftrightarrow> l \<noteq> [] \<and> hd l \<noteq> CHR ''#'' \<and> CHR 0x0A \<notin> set l \<and> CHR 0x00 \<notin> set l \<and>
     fst (scan_long long_options l []) \<noteq> Bad"

definition config_text :: "string list \<Rightarrow> string" where
  "config_text lines = concat (map (\<lambda>l. l @ [CHR 0x0A]) lines)"

section \<open>Numbers\<close>

lemma digit_val_hex_digit [simp]: "n < 16 \<Longrightarrow> digit_val (hex_digit upper n) = n"
  by (auto simp: digit_val_def hex_digit_def Let_def)

lemma digit_plain:
  "digit_val c < 16 \<Longrightarrow> \<not> is_space c \<and> c \<notin> {CHR ''-'', CHR ''+'', CHR ''#'', CHR ''x'', CHR ''X''}"
  by (auto simp: is_space_def digit_val_def)

lemma length_to_hex [simp]: "length (to_hex upper k n) = k"
  by (induction k arbitrary: n) auto

lemma set_to_hex: "c \<in> set (to_hex upper k n) \<Longrightarrow> digit_val c < 16"
  by (induction k arbitrary: n) auto

lemma digits_value_to_hex: "digits_value 16 (to_hex upper k n) = n mod 16 ^ k"
proof -
  have "takeWhile (\<lambda>c. digit_val c < 16) (to_hex upper k n) = to_hex upper k n"
    using set_to_hex by (simp add: takeWhile_eq_all_conv)
  moreover have "foldl (\<lambda>n c. 16 * n + digit_val c) 0 (to_hex upper k n) = n mod 16 ^ k"
    by (induction k arbitrary: n) (auto simp: mod_mult2_eq ac_simps)
  ultimately show ?thesis
    unfolding digits_value_def by (simp only:)
qed

lemma strtoul_to_hex:
  assumes "0 < k" "k < 16"
  shows "strtoul (to_hex upper k n) 16 = word_of_nat (n mod 16 ^ k)"
proof -
  obtain c cs where w: "to_hex upper k n = c # cs"
    using assms(1) length_to_hex by (metis Suc_pred length_Suc_conv)
  have plain: "\<not> is_space d \<and> d \<notin> {CHR ''-'', CHR ''+'', CHR ''#'', CHR ''x'', CHR ''X''}"
    if "d \<in> set (c # cs)" for d
    using set_to_hex [of d upper k n] that digit_plain [of d] unfolding w by blast
  have "\<not> hex_prefix (c # cs)"
    using plain by (cases cs) (auto simp: hex_prefix_def)
  then have "signed_magnitude 16 (to_hex upper k n) = (False, n mod 16 ^ k)"
    using plain [of c] digits_value_to_hex [of upper k n]
    by (auto simp: signed_magnitude_def magnitude_def w)
  moreover have "n mod 16 ^ k < 2 ^ 64"
  proof -
    have "(16 :: nat) ^ k \<le> 16 ^ 15"
      using assms(2) by (intro power_increasing) auto
    moreover have "n mod 16 ^ k < 16 ^ k"
      by simp
    ultimately show ?thesis
      by (elim less_le_trans le_less_trans) simp
  qed
  ultimately show ?thesis
    by (simp add: strtoul_def not_le)
qed

lemma hd_to_hex: "0 < k \<Longrightarrow> hd (to_hex upper k n) \<noteq> CHR ''#''"
  using set_to_hex [of "hd (to_hex upper k n)" upper k n] digit_plain length_to_hex [of upper k n]
  by (metis hd_in_set insertI1 insertI2 less_numeral_extra(3) list.size(3))

lemma word_of_nat_ucast: "n < 2 ^ 64 \<Longrightarrow> ucast (word_of_nat n :: 64 word) = (word_of_nat n :: u32)"
  by (simp add: unsigned_of_nat take_bit_nat_eq_self)

lemma parse_color_to_hex:
  assumes "k = 6 \<or> k = 8"
  shows "parse_color (to_hex upper k n) =
      (let res = word_of_nat (n mod 16 ^ k) in if k = 6 then push_bit 8 res OR 0xFF else res)"
    "parse_color (CHR ''#'' # to_hex upper k n) = parse_color (to_hex upper k n)"
  using assms hd_to_hex [of k upper n] strtoul_to_hex [of k upper n]
  by (auto simp: parse_color_def Let_def unsigned_of_nat take_bit_nat_eq_self word_of_nat_ucast)

section \<open>Lines and arguments\<close>

lemma get_lines_line:
  "CHR 0x0A \<notin> set l \<Longrightarrow> get_lines (l @ CHR 0x0A # cs) = l # get_lines cs"
  by (induction l) auto

lemma get_lines_config: "list_all option_line lines \<Longrightarrow> get_lines (config_text lines) = lines"
  by (induction lines) (auto simp: config_text_def option_line_def get_lines_line)

lemma c_string_line: "option_line l \<Longrightarrow> c_string l = l"
  by (auto simp: option_line_def c_string_def takeWhile_eq_all_conv)

lemma getopt_long_line:
  assumes "option_line l"
  shows "\<exists>code arg. getopt_long short_options long_options ([], (''--'' @ l) # rest) =
    (Opt code arg, [], rest)"
    "getopt_long short_options long_options ([], (''--'' @ l) # rest) =
       (fst (getopt_long short_options long_options ([], [''--'' @ l])), [], rest)"
  using assms
  by (cases "find_long long_options (takeWhile (\<lambda>c. c \<noteq> CHR ''='') l)";
      auto simp: option_line_def scan_long_def Let_def split: if_splits)+

lemma parse_options_line:
  assumes "option_line l"
  obtains code arg where
    "\<And>rest e. parse_options os [] ((''--'' @ l) # rest) e =
       (case apply_option os code arg e of
          (Some r, e') \<Rightarrow> (r, [], e')
        | (None, e') \<Rightarrow> parse_options os [] rest e')"
proof -
  obtain code arg where "fst (getopt_long short_options long_options ([], [''--'' @ l])) = Opt code arg"
    using getopt_long_line(1) [OF assms, of "[]"] by auto
  then have g: "getopt_long short_options long_options ([], (''--'' @ l) # rest) =
      (Opt code arg, [], rest)" for rest
    using getopt_long_line(2) [OF assms, of rest] by (simp only:)
  show thesis
    by (rule that [of code arg])
      (simp only: parse_options_def parse_loop.simps [of os "([], (''--'' @ l) # _)"] g prod.case
        scan.case fst_conv)
qed

lemma parse_options_Nil [simp]: "parse_options os [] [] e = (Ret 0, [], e)"
  by (simp add: parse_options_def parse_loop.simps)

lemma apply_option_keeps_null:
  "apply_option os code arg e = (r, e') \<Longrightarrow> pe_config_path e = None \<Longrightarrow> pe_config_path e' = None"
  by (auto simp: apply_option_def Let_def set_mode_def set_arg_def split: if_splits option.splits)

lemma apply_option_ret:
  "apply_option os code arg e = (Some (Ret r), e') \<Longrightarrow> r = 1"
  by (auto simp: apply_option_def Let_def set_mode_def split: if_splits option.splits)

definition config_outcome :: "outcome \<Rightarrow> outcome" where
  "config_outcome r = (case r of Ret _ \<Rightarrow> Ret 0 | Exit c \<Rightarrow> Exit c)"

lemma load_lines_options:
  assumes "list_all option_line lines" "\<And>n. os_alloc os n" "pe_config_path e = None"
  shows "load_lines os n [] lines e =
    map_prod config_outcome id (parse_options os [] (map ((@) ''--'') lines) e)"
  using assms(1,3)
proof (induction lines arbitrary: n e)
  case Nil
  then show ?case
    by (simp add: config_outcome_def)
next
  case (Cons l ls)
  then obtain code arg where step: "\<And>rest e. parse_options os [] ((''--'' @ l) # rest) e =
       (case apply_option os code arg e of
          (Some r, e') \<Rightarrow> (r, [], e')
        | (None, e') \<Rightarrow> parse_options os [] rest e')"
    using parse_options_line [of l os thesis] by (simp only: list.pred_inject)
  obtain r e' where a: "apply_option os code arg e = (r, e')"
    by force
  have e: "e\<lparr>pe_config_path := None\<rparr> = e"
    using Cons.prems(2) by simp
  have "l \<noteq> []" "hd l \<noteq> CHR ''#''" "c_string l = l"
    using Cons.prems(1) c_string_line by (auto simp: option_line_def)
  then show ?case
    using Cons.IH [of e'] Cons.prems apply_option_keeps_null [OF a] apply_option_ret [of os code arg e] assms(2)
    by (auto simp: step [simplified] a e config_outcome_def split: option.splits outcome.splits)
qed

section \<open>A rejected scaling mode\<close>

lemma scan_scaling:
  "scan_long long_options (''scaling='' @ v) [] = (Opt (Short CHR ''s'') (Some v), [], [])"
  by (simp add: scan_long_def find_long_def long_options_def is_prefix_def)

lemma load_config_scaling:
  assumes "os_file os path = Some (config_text [''scaling='' @ v])" "os_alloc os 1"
    "CHR 0x0A \<notin> set v" "CHR 0x00 \<notin> set v"
    "parse_background_mode v = BACKGROUND_MODE_INVALID"
    "pe_state e = Some s" "pe_config_path e = None"
  shows "load_config os [] path e =
    (Ret 0, [], e\<lparr>pe_state := Some (s\<lparr>st_args := (st_args s)\<lparr>arg_mode := BACKGROUND_MODE_INVALID\<rparr>\<rparr>)\<rparr>)"
proof -
  have ok: "option_line (''scaling='' @ v)"
    using assms(3,4) scan_scaling [of v] unfolding option_line_def by simp
  have e: "e\<lparr>pe_config_path := None\<rparr> = e"
    using assms(7) by simp
  have "getopt_long short_options long_options ([], [''--'' @ ''scaling='' @ v]) =
      (Opt (Short CHR ''s'') (Some v), [], [])"
    using scan_scaling [of v] by simp
  then have "parse_options os [] [''--'' @ ''scaling='' @ v] e =
      (Ret 1, [], set_arg (arg_mode_update (\<lambda>_. BACKGROUND_MODE_INVALID)) e)"
    using assms(5,6)
    by (simp only: parse_options_def parse_loop.simps [of os "([], [''--'' @ ''scaling='' @ v])"])
      (simp add: apply_option_def set_mode_def)
  moreover have "set_arg (arg_mode_update (\<lambda>_. BACKGROUND_MODE_INVALID)) e =
      e\<lparr>pe_state := Some (s\<lparr>st_args := (st_args s)\<lparr>arg_mode := BACKGROUND_MODE_INVALID\<rparr>\<rparr>)\<rparr>"
    using assms(6) by (simp add: set_arg_def)
  ultimately show ?thesis
    using assms(1,2) get_lines_config [of "[''scaling='' @ v]"] c_string_line [OF ok] ok
    by (simp add: load_config_def e)
qed

lemma render_invalid_aborts:
  assumes "arg_mode (st_args s) = BACKGROUND_MODE_INVALID" "memory_ok (st_shm s)"
    "sf = st_surfaces s ! i" "sf_image sf = Some img" "configured sf" "sf_dirty sf" "\<not> sf_frame sf"
    "sf_last_buffer_width sf = 0"
  shows "st_exit (render E i s) = Some 134"
proof -
  have "background_ops s sf bw bh = None" for bw bh
    using assms by (simp add: background_ops_def render_background_image_def Let_def)
  moreover obtain buf where "create_buffer (st_shm s) empty_buffer
      (word_of_int (u32_int (sf_width sf * word_of_int (sf_scale sf))))
      (word_of_int (u32_int (sf_height sf * word_of_int (sf_scale sf)))) = (Some buf, st_shm s)"
    using create_buffer_mem [OF assms(2)] by blast
  ultimately show ?thesis
    using assms(3-)
    by (auto simp: render_def render_background_def Let_def configured_def abort_def exit_with_def
        split: prod.splits option.splits)
qed

section \<open>Properties\<close>

lemma opaque_colour: "push_bit 8 (drop_bit 8 c) OR 0xFF = (c :: u32) OR 0xFF"
proof (rule bit_word_eqI)
  have m: "(0xFF :: u32) = mask 8"
    by (simp add: mask_eq_exp_minus_1)
  fix n
  assume "n < LENGTH(32)"
  then show "bit (push_bit 8 (drop_bit 8 c) OR 0xFF) n = bit (c OR 0xFF) n"
    unfolding m by (cases "n < 8") (auto simp: bit_simps)
qed

lemma unat_drop8: "unat (drop_bit 8 (c :: u32)) < 16 ^ 6"
proof -
  have "unat c < 2 ^ 32"
    using unsigned_less [of c, where ?'a = nat] by simp
  then show ?thesis
    by (subst unat_drop_bit_eq) (simp add: drop_bit_eq_div)
qed

lemma to_hex_numeral:
  "to_hex upper (numeral k) n = to_hex upper (pred_numeral k) (n div 16) @ [hex_digit upper (n mod 16)]"
  by (simp only: numeral_eq_Suc [of k] to_hex.simps)

text \<open>
  Every colour has its notation: the eight digits of a value, with or without a leading hash and
  in either case, are read as that value; six digits are read with full opacity; a word of any other
  length is read as opaque white.
\<close>

theorem parse_color_roundtrip:
  "parse_color (to_hex upper 8 (unat c)) = c \<and>
   parse_color (CHR ''#'' # to_hex upper 8 (unat c)) = c \<and>
   parse_color (to_hex upper 6 (unat (drop_bit 8 c))) = c OR 0xFF \<and>
   parse_color (CHR ''#'' # to_hex upper 6 (unat (drop_bit 8 c))) = c OR 0xFF \<and>
   (CHR ''#'' \<notin> set w \<and> length w \<notin> {6, 8} \<longrightarrow>
      parse_color w = 0xFFFFFFFF \<and> parse_color (CHR ''#'' # w) = 0xFFFFFFFF)"
proof -
  have "unat c < 16 ^ 8"
    using unsigned_less [of c, where ?'a = nat] by simp
  then have "parse_color (to_hex upper 8 (unat c)) = c"
    by (simp add: parse_color_to_hex(1))
  moreover have "parse_color (to_hex upper 6 (unat (drop_bit 8 c))) = c OR 0xFF"
    using unat_drop8 [of c] opaque_colour [of c] by (simp add: parse_color_to_hex(1) Let_def)
  moreover have "parse_color w = 0xFFFFFFFF \<and> parse_color (CHR ''#'' # w) = 0xFFFFFFFF"
    if "CHR ''#'' \<notin> set w" "length w \<notin> {6, 8}"
    using that by (cases w) (auto simp: parse_color_def)
  ultimately show ?thesis
    by (simp add: parse_color_to_hex(2))
qed

theorem parse_color_roundtrip_witness:
  "parse_color ''#0072ffc0'' = 0x0072FFC0 \<and> parse_color ''FA0000'' = 0xFA0000FF \<and>
   parse_color ''white'' = 0xFFFFFFFF"
proof -
  have "to_hex False 8 (unat (0x0072FFC0 :: u32)) = ''0072ffc0''"
    "to_hex True 6 (unat (drop_bit 8 (0xFA0000C0 :: u32))) = ''FA0000''"
    by (simp_all add: to_hex_numeral hex_digit_def char_of_def bit_0)
  then show ?thesis
    using parse_color_roundtrip [of False "0x0072FFC0" "''white''"]
      parse_color_roundtrip [of True "0xFA0000C0" "''white''"] by simp
qed

text \<open>
  C27: a configuration file whose lines are complete options has the effect of the same options on
  the command line: the same state, the same line mode and the same verbosity. Only the reported
  result differs: the file is never reported as faulty.
\<close>

theorem config_like_command_line:
  assumes "list_all option_line lines" "os_file os path = Some (config_text lines)"
    "\<And>n. os_alloc os n" "pe_config_path e = None"
  shows "load_config os [] path e =
    map_prod config_outcome id (parse_options os [] (map ((@) ''--'') lines) e)"
  using assms get_lines_config load_lines_options by (simp add: load_config_def)

definition sample_os :: "string \<Rightarrow> os" where
  "sample_os config = \<lparr>os_wordexp = (\<lambda>w. Some [w]), os_load_image = (\<lambda>_. None), os_getenv = (\<lambda>_. None),
     os_readable = (\<lambda>_. True), os_file = (\<lambda>_. Some config), os_alloc = (\<lambda>_. True),
     os_sysconfdir = ''/etc''\<rparr>"

definition sample_env :: parse_env where
  "sample_env = \<lparr>pe_state = Some sample_state, pe_line_mode = Some LM_LINE, pe_config_path = None,
     pe_log = log_start\<rparr>"

theorem config_like_command_line_witness:
  "load_config (sample_os (config_text [''color=123456'', ''indicator-radius=0x20'', ''line-uses-ring'']))
     [] ''/c'' sample_env =
   map_prod config_outcome id
     (parse_options (sample_os (config_text [''color=123456'', ''indicator-radius=0x20'', ''line-uses-ring'']))
       [] [''--color=123456'', ''--indicator-radius=0x20'', ''--line-uses-ring''] sample_env)"
proof -
  have "list_all option_line [''color=123456'', ''indicator-radius=0x20'', ''line-uses-ring'']"
    by (simp add: option_line_def scan_long_def find_long_def long_options_def is_prefix_def)
  then show ?thesis
    using config_like_command_line
      [of "[''color=123456'', ''indicator-radius=0x20'', ''line-uses-ring'']"
        "sample_os (config_text [''color=123456'', ''indicator-radius=0x20'', ''line-uses-ring''])"
        "''/c''" sample_env]
    by (simp add: sample_os_def sample_env_def)
qed

text \<open>
  The scan for the debug flag stops inside a cluster of short options, and the next scan begins with
  the rest of that cluster in place of the first argument: in \<^verbatim>\<open>swaylock -C/c -de\<close> the choice of the
  configuration file is not seen.
\<close>

lemma debug_cluster_hides_config:
  "fst (log_init [''-C/c'', ''-de''] log_start) = ''e''"
  "parse_options (sample_os []) ''e'' [''-C/c'', ''-de''] (sample_env\<lparr>pe_state := None, pe_config_path := Some None\<rparr>) =
     (Ret 0, [], sample_env\<lparr>pe_state := None, pe_config_path := Some None,
        pe_log := swaylock_log_init LOG_DEBUG log_start\<rparr>)"
  "parse_options (sample_os []) [] [''-C/c'', ''-de''] (sample_env\<lparr>pe_state := None, pe_config_path := Some None\<rparr>) =
     (Ret 0, [], sample_env\<lparr>pe_state := None, pe_config_path := Some (Some ''/c''),
        pe_log := swaylock_log_init LOG_DEBUG log_start\<rparr>)"
  by (simp_all add: log_init_def log_init_loop.simps scan_short_def debug_shorts_def parse_options_def
      parse_loop.simps short_options_def apply_option_def flag_option_def set_arg_def sample_env_def)



end
