(* ===== verification/Lifecycle.thy ===== *)
theory Lifecycle
  imports Events Options
begin

text \<open>
  The course of the main process: \<^verbatim>\<open>main\<close>, \<^verbatim>\<open>daemonize\<close> and \<^verbatim>\<open>do_sigusr\<close> of \<^verbatim>\<open>src/main.c\<close> and
  \<^verbatim>\<open>spawn_comm_child\<close> of \<^verbatim>\<open>src/comm.c\<close>, in the build without the debug unlock. The record \<open>world\<close>
  has the command line and every answer of the system along the way: allocation, pipes, the events each
  round trip delivers, the turns of the event loop. \<^verbatim>\<open>return\<close> from \<^verbatim>\<open>main\<close> ends the process like
  \<^verbatim>\<open>exit\<close>; a process that waits for an event that the world does not have has no exit status.
\<close>

section \<open>Starting the child\<close>

text \<open>
  An end of a pipe is named by its indices in the array \<^verbatim>\<open>comm\<close>: 0 for the direction to the child, and
  the second index 0 for the read end.
\<close>

type_synonym comm_end = "nat \<times> nat"

datatype fork_result = Fork_failed | Fork_child | Fork_parent

record spawned =
  sp_ok :: bool
  sp_child :: bool
  sp_open :: "comm_end set"
  sp_ignore_usr1 :: bool
  sp_null_stdio :: bool

definition spawn_comm_child :: "bool \<Rightarrow> bool \<Rightarrow> fork_result \<Rightarrow> bool \<Rightarrow> spawned" where
  "spawn_comm_child pipe0 pipe1 fork devnull =
     (let fds = \<lparr>sp_ok = False, sp_child = False, sp_open = {}, sp_ignore_usr1 = False, sp_null_stdio = False\<rparr>;
          fds0 = fds\<lparr>sp_open := {(0, 0), (0, 1)}\<rparr>;
          fds1 = fds\<lparr>sp_open := {(0, 0), (0, 1), (1, 0), (1, 1)}\<rparr>
      in if \<not> pipe0 then fds
         else if \<not> pipe1 then fds0
         else case fork of
           Fork_failed \<Rightarrow> fds1
         | Fork_child \<Rightarrow> fds1\<lparr>sp_ok := True, sp_child := True, sp_ignore_usr1 := True,
             sp_open := sp_open fds1 - {(0, 1), (1, 0)}, sp_null_stdio := devnull\<rparr>
         | Fork_parent \<Rightarrow> fds1\<lparr>sp_ok := True, sp_open := sp_open fds1 - {(0, 0), (1, 1)}\<rparr>)"

section \<open>Going into the background\<close>

text \<open>What the parent reads from the pipe: nothing (\<open>None\<close>), or one byte.\<close>

record daemon_env =
  dm_pipe :: bool
  dm_fork :: fork_result
  dm_chdir :: bool
  dm_write :: bool
  dm_read :: "byte option"

definition daemonize :: "daemon_env \<Rightarrow> swaylock_state \<Rightarrow> swaylock_state" where
  "daemonize d s =
     (if \<not> dm_pipe d then exit_with 1 s
      else if dm_fork d = Fork_child then
        (if \<not> dm_chdir d then exit_with 1 s
         else if \<not> dm_write d then exit_with 1 s
         else s)
      else if dm_read d = None \<or> dm_read d = Some 0 then exit_with 1 s
      else exit_with 0 s)"

text \<open>The byte that the child of the fork leaves in the pipe for its parent.\<close>

definition daemon_byte :: "daemon_env \<Rightarrow> byte option" where
  "daemon_byte d = (if \<not> dm_write d then None else if \<not> dm_chdir d then Some 0 else Some 1)"

section \<open>Signals\<close>

text \<open>The handler of \<^verbatim>\<open>SIGUSR1\<close> writes a byte to a pipe that does not block; a full pipe drops it.\<close>

definition do_sigusr :: "nat \<Rightarrow> byte list \<Rightarrow> byte list" where
  "do_sigusr room pipe = (if length pipe < room then pipe @ [0x31] else pipe)"

section \<open>The world\<close>

record world =
  w_args :: "string list"
  w_backend :: bool
  w_os :: os
  w_io :: proc_io
  w_clock :: "timespec list"
  w_timer_alloc :: "bool list"
  w_rand :: "nat list"
  w_shm :: shm_env
  w_pw_mem :: "byte list option"
  w_pipe :: bool
  w_nonblock :: bool
  w_connect :: bool
  w_registry :: dispatch_result
  w_sync :: dispatch_result
  w_waits :: "dispatch_result list"
  w_ready :: bool
  w_daemon :: daemon_env
  w_display_fd :: int
  w_comm_fd :: int
  w_signal_fd :: int
  w_turns :: "turn list"

definition default_args :: swaylock_args where
  "default_args = \<lparr>
     arg_colors = set_default_colors,
     arg_mode = BACKGROUND_MODE_FILL, arg_font = ''sans-serif'', arg_font_size = 0, arg_radius = 50,
     arg_thickness = 10, arg_indicator_x_position = 0, arg_indicator_y_position = 0,
     arg_override_indicator_x_position = False, arg_override_indicator_y_position = False,
     arg_ignore_empty = False, arg_steal_unlock = False, arg_show_indicator = True,
     arg_show_caps_lock_text = True, arg_show_caps_lock_indicator = False,
     arg_show_keyboard_layout = False, arg_hide_keyboard_layout = False,
     arg_show_failed_attempts = False, arg_daemonize = False, arg_ready_fd = -1,
     arg_indicator_idle_visible = False\<rparr>"

text \<open>The static state, after the assignments at the start of \<^verbatim>\<open>main\<close>.\<close>

definition start_state :: "world \<Rightarrow> swaylock_state" where
  "start_state w = \<lparr>
     io_in = io_in (w_io w), io_out = io_out (w_io w), io_rd = io_rd (w_io w),
     io_wr = io_wr (w_io w), io_mem = io_mem (w_io w), io_mlock = io_mlock (w_io w),
     io_mlock_supported = io_mlock_supported (w_io w),
     st_eventloop = loop_create, st_input_idle_timer = None, st_auth_idle_timer = None,
     st_clear_password_timer = None, st_surfaces = [], st_images = [], st_args = default_args,
     st_password = \<lparr>pw_len = 0, pw_buffer_len = 0, pw_buffer = []\<rparr>,
     st_xkb = \<lparr>xkb_caps_lock = False, xkb_control = False, xkb_st = None, xkb_keymap = None\<rparr>,
     st_auth_state = AUTH_STATE_IDLE, st_input_state = INPUT_STATE_IDLE, st_highlight_start = 0,
     st_failed_attempts = 0, st_run_display = False, st_locked = False, st_lock_failed = False,
     st_compositor = False, st_subcompositor = False, st_wl_shm = False, st_lock_manager = False,
     st_lock = False,
     st_authd_active = False, st_authd_stage = AUTHD_STAGE_NONE, st_authd_brokers = [],
     st_authd_num_brokers = 0, st_authd_sel_broker = -1, st_authd_auth_modes = [],
     st_authd_num_auth_modes = 0, st_authd_sel_auth_mode = -1, st_authd_layout = empty_layout,
     st_authd_error = None, st_seats = [], st_clock = w_clock w, st_timer_alloc = w_timer_alloc w,
     st_rand = w_rand w, st_shm = w_shm w, st_wire = [], st_exit = None\<rparr>"

section \<open>Phases\<close>

text \<open>A phase goes on to the next one, or it is the last: the process has ended, or it waits.\<close>

datatype flow = Go swaylock_state | Stop swaylock_state

fun flow_state :: "flow \<Rightarrow> swaylock_state" where
  "flow_state (Go s) = s"
| "flow_state (Stop s) = s"

fun after :: "flow \<Rightarrow> (swaylock_state \<Rightarrow> flow) \<Rightarrow> flow" where
  "after (Stop s) f = Stop s"
| "after (Go s) f = (if alive s then f s else Stop s)"

definition return_main :: "int \<Rightarrow> swaylock_state \<Rightarrow> flow" where
  "return_main code s = Stop (exit_with code s)"

subsection \<open>Options\<close>

definition env_state :: "parse_env \<Rightarrow> swaylock_state \<Rightarrow> swaylock_state" where
  "env_state e s = (case pe_state e of None \<Rightarrow> s | Some s' \<Rightarrow> s')"

definition apply_line_mode :: "parse_env \<Rightarrow> swaylock_state \<Rightarrow> swaylock_state" where
  "apply_line_mode e s =
     (let colors = arg_colors (st_args s);
          line = (if pe_line_mode e = Some LM_INSIDE then col_inside colors
                  else if pe_line_mode e = Some LM_RING then col_ring colors
                  else col_line colors)
      in s\<lparr>st_args := (st_args s)\<lparr>arg_colors := colors\<lparr>col_line := line\<rparr>\<rparr>\<rparr>)"

definition parse_arguments :: "world \<Rightarrow> string \<Rightarrow> parse_env \<Rightarrow> swaylock_state \<Rightarrow> flow" where
  "parse_arguments w nextchar e s =
     (case (if w_args w = [] then (Ret 0, nextchar, e) else parse_options (w_os w) nextchar (w_args w) e) of
        (Exit c, _, e') \<Rightarrow> return_main c (env_state e' s)
      | (Ret r, _, e') \<Rightarrow>
          (if r \<noteq> 0 then return_main r (env_state e' s)
           else Go (apply_line_mode e' (env_state e' s))))"

definition read_config :: "world \<Rightarrow> string \<Rightarrow> string option \<Rightarrow> parse_env \<Rightarrow> swaylock_state \<Rightarrow> flow" where
  "read_config w nextchar path e s =
     (case (case path of None \<Rightarrow> (Ret 0, nextchar, e) | Some p \<Rightarrow> load_config (w_os w) nextchar p e) of
        (Exit c, _, e') \<Rightarrow> return_main c (env_state e' s)
      | (Ret r, nextchar', e') \<Rightarrow>
          (if r \<noteq> 0 then return_main r (env_state e' s) else parse_arguments w nextchar' e' s))"

definition read_options :: "world \<Rightarrow> swaylock_state \<Rightarrow> flow" where
  "read_options w s =
     (let (nextchar, lg) = log_init (w_args w) log_start in
      if \<not> w_backend w then return_main 1 s
      else case parse_options (w_os w) nextchar (w_args w)
                  \<lparr>pe_state = None, pe_line_mode = None, pe_config_path = Some None, pe_log = lg\<rparr> of
        (Exit c, _, _) \<Rightarrow> return_main c s
      | (Ret r, nextchar', e) \<Rightarrow>
          (if r \<noteq> 0 then return_main r s
           else
             read_config w nextchar'
               (case pe_config_path e of Some (Some p) \<Rightarrow> Some p | _ \<Rightarrow> get_config_path (w_os w))
               \<lparr>pe_state = Some s, pe_line_mode = Some LM_LINE, pe_config_path = None, pe_log = pe_log e\<rparr> s))"

subsection \<open>Connection\<close>

definition make_password :: "world \<Rightarrow> swaylock_state \<Rightarrow> flow" where
  "make_password w s =
     (case password_buffer_create (w_pw_mem w) (io_mlock_supported s) (io_mlock s) of
        (buf, supported, ms) \<Rightarrow>
          (let s = s\<lparr>io_mlock_supported := supported, io_mlock := ms\<rparr> in
           case buf of
             None \<Rightarrow> return_main 1 s
           | Some b \<Rightarrow>
               (if \<not> w_pipe w then return_main 1 s
                else if \<not> w_nonblock w then return_main 1 s
                else Go (s\<lparr>st_password := \<lparr>pw_len = 0, pw_buffer_len = 1024, pw_buffer = b[0 := 0]\<rparr>\<rparr>))))"

definition bind_globals :: "libs \<Rightarrow> world \<Rightarrow> swaylock_state \<Rightarrow> flow" where
  "bind_globals E w s =
     (if \<not> w_connect w then return_main 1 s
      else
        (let s = s\<lparr>st_eventloop := loop_create\<rparr> in
         case wl_display_dispatch E (w_registry w) s of
           None \<Rightarrow> return_main 1 s
         | Some s' \<Rightarrow>
             (if \<not> alive s' then Stop s'
              else if \<not> st_compositor s' then return_main 1 s'
              else if \<not> st_subcompositor s' then return_main 1 s'
              else if \<not> st_wl_shm s' then return_main 1 s'
              else if \<not> st_lock_manager s' then return_main 1 s'
              else Go s')))"

subsection \<open>Locking\<close>

definition request_lock :: "swaylock_state \<Rightarrow> swaylock_state" where
  "request_lock s = send_request LockSession (s\<lparr>st_lock := True\<rparr>)"

definition unlock_and_destroy :: "swaylock_state \<Rightarrow> swaylock_state" where
  "unlock_and_destroy s = send_request UnlockAndDestroy (s\<lparr>st_lock := False\<rparr>)"

text \<open>
  The two loops that wait for the answer of the compositor, with the exit status for a failure of the
  connection. Without a further event the process waits.
\<close>

fun wait_locked :: "libs \<Rightarrow> bool \<Rightarrow> int \<Rightarrow> dispatch_result list \<Rightarrow> swaylock_state \<Rightarrow> flow" where
  "wait_locked E steal code ds s =
     (if \<not> alive s then Stop s
      else if st_locked s \<or> steal \<and> st_lock_failed s then Go s
      else case ds of
        [] \<Rightarrow> Stop s
      | d # ds \<Rightarrow>
          (case wl_display_dispatch E d s of
             None \<Rightarrow> return_main code s
           | Some s' \<Rightarrow> wait_locked E steal code ds s'))"

declare wait_locked.simps [simp del]

definition steal_unlock :: "libs \<Rightarrow> world \<Rightarrow> swaylock_state \<Rightarrow> flow" where
  "steal_unlock E w s =
     after (wait_locked E True 1 (w_waits w) (request_lock s))
       (\<lambda>s. if \<not> st_locked s then return_main 1 s else return_main 0 (unlock_and_destroy s))"

definition create_surfaces :: "swaylock_state \<Rightarrow> swaylock_state" where
  "create_surfaces s = fold create_surface [0..<length (st_surfaces s)] s"

definition lock_session :: "libs \<Rightarrow> world \<Rightarrow> swaylock_state \<Rightarrow> flow" where
  "lock_session E w s =
     (let s = request_lock s in
      case wl_display_dispatch E (w_sync w) s of
        None \<Rightarrow> return_main 1 s
      | Some s' \<Rightarrow>
          (if \<not> alive s' then Stop s' else wait_locked E False 2 (w_waits w) (create_surfaces s')))"

definition lock_or_steal :: "libs \<Rightarrow> world \<Rightarrow> swaylock_state \<Rightarrow> flow" where
  "lock_or_steal E w s =
     (if arg_steal_unlock (st_args s) then steal_unlock E w s else lock_session E w s)"

subsection \<open>Readiness\<close>

text \<open>The flag says whether the notification has been written to the descriptor of the user.\<close>

definition announce :: "world \<Rightarrow> swaylock_state \<Rightarrow> bool \<times> flow" where
  "announce w s =
     (if arg_ready_fd (st_args s) \<ge> 0 then
        (if \<not> w_ready w then (False, return_main 2 s)
         else
           (let s = s\<lparr>st_args := (st_args s)\<lparr>arg_ready_fd := -1\<rparr>\<rparr>
            in (True, Go (if arg_daemonize (st_args s) then daemonize (w_daemon w) s else s))))
      else (False, Go (if arg_daemonize (st_args s) then daemonize (w_daemon w) s else s)))"

subsection \<open>The session\<close>

text \<open>Memory for the three entries of the event loop is assumed to be available.\<close>

definition enter_loop :: "world \<Rightarrow> swaylock_state \<Rightarrow> swaylock_state" where
  "enter_loop w s =
     s\<lparr>st_eventloop :=
         loop_add_fd (loop_add_fd (loop_add_fd (st_eventloop s)
           True (w_display_fd w) POLLIN Display_in)
           True (w_comm_fd w) POLLIN Comm_in)
           True (w_signal_fd w) POLLIN Term_in,
       st_run_display := True\<rparr>"

definition run_session :: "libs \<Rightarrow> ('j, 'm) cjson_scheme \<Rightarrow> world \<Rightarrow> swaylock_state \<Rightarrow> swaylock_state" where
  "run_session E J w s =
     (case event_loop E J (w_turns w) (enter_loop w s) of
        (False, s') \<Rightarrow> s'
      | (True, s') \<Rightarrow> exit_with 0 (unlock_and_destroy s'))"

text \<open>All of \<^verbatim>\<open>main\<close> up to the confirmed lock, and from there to the end.\<close>

definition startup :: "libs \<Rightarrow> world \<Rightarrow> flow" where
  "startup E w =
     after (after (after (read_options w (start_state w)) (make_password w)) (bind_globals E w))
       (lock_or_steal E w)"

definition main_program :: "libs \<Rightarrow> ('j, 'm) cjson_scheme \<Rightarrow> world \<Rightarrow> bool \<times> swaylock_state" where
  "main_program E J w =
     (case startup E w of
        Stop s \<Rightarrow> (False, s)
      | Go s \<Rightarrow>
          (case announce w s of
             (sent, Stop s') \<Rightarrow> (sent, s')
           | (sent, Go s') \<Rightarrow> (sent, if alive s' then run_session E J w s' else s')))"

section \<open>Options change options and images only\<close>

definition opt_frame :: "swaylock_state \<Rightarrow> swaylock_state \<Rightarrow> bool" where
  "opt_frame s s' \<longleftrightarrow> s' = s\<lparr>st_args := st_args s', st_images := st_images s'\<rparr>"

definition env_frame :: "swaylock_state \<Rightarrow> parse_env \<Rightarrow> bool" where
  "env_frame s e \<longleftrightarrow> (case pe_state e of None \<Rightarrow> True | Some s' \<Rightarrow> opt_frame s s')"

lemma opt_frame_refl [simp]: "opt_frame s s"
  by (simp add: opt_frame_def)

lemma opt_frame_fields:
  "opt_frame s s' \<Longrightarrow> st_run_display s' = st_run_display s \<and> st_eventloop s' = st_eventloop s"
  unfolding opt_frame_def by (erule ssubst) simp

lemma opt_frame_args: "opt_frame s s' \<Longrightarrow> opt_frame s (s'\<lparr>st_args := a\<rparr>)"
  unfolding opt_frame_def by (erule ssubst) simp

lemma opt_frame_images: "opt_frame s s' \<Longrightarrow> opt_frame s (s'\<lparr>st_images := a\<rparr>)"
  unfolding opt_frame_def by (erule ssubst) simp

lemma opt_frame_load_image: "opt_frame s s' \<Longrightarrow> opt_frame s (load_image we ld arg s')"
  by (simp add: load_image_def Let_def opt_frame_images split: prod.split option.split)

lemma env_frame_set_arg: "env_frame s e \<Longrightarrow> env_frame s (set_arg f e)"
  by (simp add: env_frame_def set_arg_def opt_frame_args split: option.splits)

lemma apply_option_frame: "env_frame s e \<Longrightarrow> env_frame s (snd (apply_option os code arg e))"
proof -
  assume a: "env_frame s e"
  have "env_frame s (snd (set_mode m e))" for m
    using a by (simp add: set_mode_def env_frame_set_arg)
  moreover have "env_frame s (e\<lparr>pe_state := map_option (load_image we ld arg) (pe_state e)\<rparr>)" for we ld arg
    using a by (simp add: env_frame_def opt_frame_load_image split: option.splits)
  ultimately show ?thesis
    using a env_frame_set_arg [OF a]
    by (simp add: apply_option_def Let_def split: option.split) (simp add: env_frame_def)
qed

lemma parse_loop_frame: "env_frame s e \<Longrightarrow> env_frame s (snd (snd (parse_loop os sc e)))"
proof (induction os sc e rule: parse_loop.induct)
  case (1 os sc e)
  obtain r sc' where g: "getopt_long short_options long_options sc = (r, sc')"
    by (cases "getopt_long short_options long_options sc")
  show ?case
  proof (cases r)
    case (Opt code arg)
    obtain r' e' where a: "apply_option os code arg e = (r', e')"
      by force
    then have "env_frame s e'"
      using apply_option_frame [OF 1(2), of os code arg] by simp
    then show ?thesis
      using 1(1) g Opt a by (subst parse_loop.simps) (auto split: option.split)
  qed (use 1(2) g in \<open>subst parse_loop.simps; simp\<close>)+
qed

lemma load_lines_frame: "env_frame s e \<Longrightarrow> env_frame s (snd (snd (load_lines os n nc ls e)))"
proof (induction ls arbitrary: n nc e)
  case (Cons l ls)
  let ?e = "e\<lparr>pe_config_path := None\<rparr>"
  obtain r nc' e' where p: "parse_options os nc [''--'' @ c_string l] ?e = (r, nc', e')"
    by (metis surj_pair)
  have "env_frame s ?e"
    using Cons.prems by (simp add: env_frame_def)
  then have "env_frame s e'"
    using parse_loop_frame [of s ?e os "(nc, [''--'' @ c_string l])"] p by (simp add: parse_options_def)
  then show ?case
    using Cons p by (auto simp: Let_def split: outcome.split)
qed simp

text \<open>A phase that leaves alone all but options and images, or ends the process.\<close>

lemma opt_frame_line_mode: "opt_frame s s' \<Longrightarrow> opt_frame s (apply_line_mode e s')"
  by (simp add: apply_line_mode_def Let_def opt_frame_args)

lemma env_state_frame: "env_frame s e \<Longrightarrow> opt_frame s (env_state e s)"
  by (simp add: env_frame_def env_state_def split: option.splits)

definition phase_frame :: "swaylock_state \<Rightarrow> flow \<Rightarrow> bool" where
  "phase_frame s f \<longleftrightarrow> (case f of Go s' \<Rightarrow> opt_frame s s' | Stop s' \<Rightarrow> \<exists>s1 c. s' = exit_with c s1 \<and> opt_frame s s1)"

lemma parse_arguments_frame:
  assumes "env_frame s e"
  shows "phase_frame s (parse_arguments w nc e s)"
proof -
  obtain r nc' e' where p: "(if w_args w = [] then (Ret 0, nc, e) else parse_options (w_os w) nc (w_args w) e) = (r, nc', e')"
    by (metis surj_pair)
  have "env_frame s e'"
    using assms p parse_loop_frame [OF assms, of "w_os w" "(nc, w_args w)"]
    by (auto simp: parse_options_def split: if_splits)
  then have "opt_frame s (env_state e' s)"
    by (rule env_state_frame)
  then show ?thesis
    unfolding parse_arguments_def p
    by (auto simp: phase_frame_def return_main_def opt_frame_line_mode split: outcome.split)
qed

lemma phase_frame_return: "opt_frame s s1 \<Longrightarrow> phase_frame s (return_main c s1)"
  by (auto simp: phase_frame_def return_main_def)

lemma read_config_frame:
  assumes "env_frame s e"
  shows "phase_frame s (read_config w nc path e s)"
proof -
  obtain r nc' e' where p: "(case path of None \<Rightarrow> (Ret 0, nc, e) | Some p \<Rightarrow> load_config (w_os w) nc p e) = (r, nc', e')"
    by (metis surj_pair)
  have "env_frame s (snd (snd (case path of None \<Rightarrow> (Ret 0, nc, e) | Some p \<Rightarrow> load_config (w_os w) nc p e)))"
    using assms load_lines_frame by (simp add: load_config_def split: option.split)
  then have "env_frame s e'"
    by (simp add: p)
  then show ?thesis
    unfolding read_config_def p
    by (auto simp: phase_frame_return env_state_frame parse_arguments_frame split: outcome.split)
qed

lemma read_options_frame: "phase_frame s (read_options w s)"
proof -
  have "phase_frame s (read_config w nc path
      \<lparr>pe_state = Some s, pe_line_mode = l, pe_config_path = c, pe_log = g\<rparr> s)" for nc path l c g
    by (rule read_config_frame) (simp add: env_frame_def)
  then show ?thesis
    by (simp add: read_options_def Let_def phase_frame_return split: prod.split outcome.split)
qed

section \<open>What the start leaves alone\<close>

lemma alive_after_cases:
  obtains (Stop) s where "f = Stop s" "after f g = Stop s"
  | (Dead) s where "f = Go s" "\<not> alive s" "after f g = Stop s"
  | (Go) s where "f = Go s" "alive s" "after f g = g s"
  by (cases f) auto

lemma after_Go:
  assumes "after f g = Go s"
  obtains s1 where "f = Go s1" "alive s1" "g s1 = Go s"
  using assms by (cases f) (auto split: if_splits)

lemma flow_after:
  assumes "P (flow_state f)" "\<And>s. f = Go s \<Longrightarrow> alive s \<Longrightarrow> P s \<Longrightarrow> P (flow_state (g s))"
  shows "P (flow_state (after f g))"
  using assms by (cases f) auto

text \<open>Before the session starts nothing is read from the child, drawn by the loop, registered, or unlocked.\<close>

definition starting :: "pipe \<Rightarrow> swaylock_state \<Rightarrow> bool" where
  "starting p s \<longleftrightarrow> io_in s = p \<and> \<not> st_run_display s \<and> UnlockAndDestroy \<notin> set (st_wire s) \<and>
     lp_fds (st_eventloop s) = [] \<and> lp_fd_events (st_eventloop s) = []"

lemma starting_frame: "starting p s \<Longrightarrow> event_frame s s' \<Longrightarrow> starting p s'"
  by (auto simp: starting_def event_frame_def)

lemma starting_simps [simp]:
  "starting p (exit_with c s) = starting p s"
  "starting p (s\<lparr>st_password := pw\<rparr>) = starting p s"
  "starting p (s\<lparr>io_mlock_supported := b\<rparr>) = starting p s"
  "starting p (s\<lparr>io_mlock := ms\<rparr>) = starting p s"
  "starting p (s\<lparr>st_args := a\<rparr>) = starting p s"
  "starting p (request_lock s) = starting p s"
  by (simp_all add: starting_def exit_with_def request_lock_def send_request_def)

lemma starting_opt: "opt_frame s s' \<Longrightarrow> starting p s' = starting p s"
  unfolding opt_frame_def by (erule ssubst) (simp add: starting_def)

lemma starting_options: "starting p s \<Longrightarrow> starting p (flow_state (read_options w s))"
  using read_options_frame [of s w] starting_opt
  by (auto simp: phase_frame_def split: flow.splits)

lemma starting_password: "starting p s \<Longrightarrow> starting p (flow_state (make_password w s))"
  by (simp add: make_password_def Let_def return_main_def split: prod.split option.split)

lemma event_frame_display:
  "wl_display_dispatch E d s = Some s' \<Longrightarrow> event_frame s s'"
  using event_frame_dispatch by (auto simp: wl_display_dispatch_def split: dispatch_result.splits)

lemma starting_bind: "starting p s \<Longrightarrow> starting p (flow_state (bind_globals E w s))"
proof -
  assume s: "starting p s"
  have "starting p (s\<lparr>st_eventloop := loop_create\<rparr>)"
    using s by (simp add: starting_def loop_create_def)
  then show ?thesis
    using s starting_frame event_frame_display
    by (auto simp: bind_globals_def Let_def return_main_def split: option.split)
qed

lemma event_frame_exit: "event_frame s (exit_with c s)"
  by (rule event_frame_same [where w = "[]"]) (simp_all add: exit_with_def)

lemma wait_locked_frame: "event_frame s (flow_state (wait_locked E steal code ds s))"
proof (induction ds arbitrary: s)
  case Nil
  then show ?case
    by (simp add: wait_locked.simps)
next
  case (Cons d ds)
  then show ?case
    using event_frame_trans [OF event_frame_display Cons.IH]
    by (subst wait_locked.simps) (auto simp: return_main_def event_frame_exit split: option.split)
qed

lemma wait_locked_Go:
  "wait_locked E steal code ds s = Go s' \<Longrightarrow> alive s' \<and> (st_locked s' \<or> steal \<and> st_lock_failed s')"
proof (induction ds arbitrary: s)
  case Nil
  then show ?case
    by (simp add: wait_locked.simps split: if_splits)
next
  case (Cons d ds)
  show ?case
    using Cons.prems Cons.IH
    by (subst (asm) wait_locked.simps) (auto simp: return_main_def split: if_splits option.splits)
qed

text \<open>The creation of the surfaces.\<close>

definition creates :: "swaylock_state \<Rightarrow> swaylock_state \<Rightarrow> bool" where
  "creates s s' \<longleftrightarrow> (\<exists>sfs w. s' = s\<lparr>st_surfaces := sfs, st_wire := st_wire s @ w\<rparr> \<and>
     length sfs = length (st_surfaces s) \<and> UnlockAndDestroy \<notin> set w)"

lemma creates_refl [simp]: "creates s s"
  unfolding creates_def by (intro exI [of _ "st_surfaces s"] exI [of _ "[]"]) simp

lemma creates_trans: "creates s s' \<Longrightarrow> creates s' s'' \<Longrightarrow> creates s s''"
  unfolding creates_def by force

lemma creates_create: "creates s (create_surface i s)"
  unfolding creates_def create_surface_def Let_def
  by (intro exI conjI) (simp, simp, simp add: req_if_def)

lemma creates_fold: "creates s (fold create_surface is s)"
  by (induction "is" arbitrary: s) (auto intro: creates_trans [OF creates_create])

lemma creates_surfaces: "creates s (create_surfaces s)"
  by (simp add: create_surfaces_def creates_fold)

lemma starting_creates: "starting p s \<Longrightarrow> creates s s' \<Longrightarrow> starting p s'"
  by (auto simp: creates_def starting_def)

lemma starting_lock: "starting p s \<Longrightarrow> starting p (flow_state (lock_session E w s))"
proof -
  assume s: "starting p s"
  have "starting p (flow_state (wait_locked E False 2 (w_waits w) (create_surfaces s')))" if "starting p s'" for s'
    using starting_frame [OF starting_creates [OF that creates_surfaces] wait_locked_frame] .
  then show ?thesis
    using s starting_frame [OF _ event_frame_display [of E "w_sync w" "request_lock s"]]
    by (auto simp: lock_session_def Let_def return_main_def split: option.split)
qed

section \<open>What the session leaves alone\<close>

definition keeps :: "swaylock_state \<Rightarrow> swaylock_state \<Rightarrow> bool" where
  "keeps s s' \<longleftrightarrow> st_args s' = st_args s \<and> st_lock s' = st_lock s \<and> (st_locked s \<longrightarrow> st_locked s') \<and>
     (\<exists>w. st_wire s' = st_wire s @ w \<and> UnlockAndDestroy \<notin> set w)"

lemma keeps_refl [simp]: "keeps s s"
  by (simp add: keeps_def)

lemma keeps_trans: "keeps s s' \<Longrightarrow> keeps s' s'' \<Longrightarrow> keeps s s''"
  by (auto simp: keeps_def)

lemma keeps_frame: "event_frame s s' \<Longrightarrow> keeps s s'"
  by (simp add: event_frame_def keeps_def)

lemma keeps_same:
  "st_args s' = st_args s \<Longrightarrow> st_lock s' = st_lock s \<Longrightarrow> st_locked s' = st_locked s \<Longrightarrow> st_wire s' = st_wire s \<Longrightarrow> keeps s s'"
  by (simp add: keeps_def)

lemma keeps_quiet: "quiet s s' \<Longrightarrow> keeps s s'"
  using draws_not_unlock unfolding quiet_def keeps_def by blast

lemma keeps_comm_in: "keeps s (comm_in E J msk s)"
proof -
  obtain r s1 where c: "comm_main_read s = (r, s1)"
    by (cases "comm_main_read s")
  obtain p sch mem where "s1 = s\<lparr>io_in := p, io_rd := sch, io_mem := mem\<rparr>"
    using comm_read_shape [of s] c by (auto simp: comm_main_read_def)
  then have "keeps s s1"
    by (simp add: keeps_same)
  moreover have "keeps s' (exit_with k s')" for k s'
    by (simp add: keeps_same exit_with_def)
  ultimately show ?thesis
    using c keeps_trans [OF _ keeps_quiet [OF quiet_message]] keeps_trans
    by (auto simp: comm_in_def split: comm_result.split)
qed

lemma keeps_fd: "keeps s (fd_step E J d cb r s)"
  using keeps_frame [OF event_frame_display]
  by (auto simp: fd_step_def call_fd_def display_in_def term_in_def keeps_comm_in keeps_same
      split: fd_callback.split option.split)

lemma keeps_turn:
  assumes "fds_registered s"
  shows "keeps s (poll_turn E J t s)"
proof -
  have a: "keeps s (arrive t s)" "keeps s' (exit_with 1 s')" for s'
    by (simp_all add: keeps_same arrive_def exit_with_def)
  from a(1) have "keeps s (serve_fds E J t s)"
    unfolding serve_fds_def by (rule keeps_trans [OF keeps_trans [OF keeps_trans [OF _ keeps_fd] keeps_fd] keeps_fd])
  then show ?thesis
    using a keeps_trans [OF _ keeps_frame [OF event_frame_timers]] keeps_trans
    unfolding poll_turn_eq [OF assms] by auto
qed

lemma keeps_event_loop: "fds_registered s \<Longrightarrow> event_loop E J ts s = (b, s') \<Longrightarrow> keeps s s'"
proof (induction ts arbitrary: s)
  case Nil
  then show ?case
    by (simp add: event_loop.simps split: if_splits)
next
  case (Cons t ts)
  show ?case
    using Cons.prems(2) Cons.IH [OF fds_poll_turn [OF Cons.prems(1), of E J t]]
      keeps_trans [OF keeps_turn [OF Cons.prems(1), of E J t]]
    by (subst (asm) event_loop.simps) (auto split: if_splits)
qed

lemma event_loop_left_alive: "event_loop E J ts s = (True, s') \<Longrightarrow> alive s'"
proof (induction ts arbitrary: s)
  case Nil
  then show ?case
    by (simp add: event_loop.simps split: if_splits)
next
  case (Cons t ts)
  then show ?case
    by (subst (asm) event_loop.simps) (auto split: if_splits)
qed

section \<open>From the start to the session\<close>

text \<open>The state in which the event loop begins, if it is reached.\<close>

definition session_state :: "libs \<Rightarrow> world \<Rightarrow> swaylock_state option" where
  "session_state E w =
     (case startup E w of
        Stop s \<Rightarrow> None
      | Go s \<Rightarrow>
          (case snd (announce w s) of
             Stop s' \<Rightarrow> None
           | Go s' \<Rightarrow> (if alive s' then Some (enter_loop w s') else None)))"

lemma starting_start: "starting (io_in (w_io w)) (start_state w)"
  by (simp add: starting_def start_state_def loop_create_def)

lemma starting_bound:
  "starting (io_in (w_io w)) (flow_state (after (after (read_options w (start_state w)) (make_password w)) (bind_globals E w)))"
  by (rule flow_after [where P = "starting (io_in (w_io w))"]) (auto intro: flow_after [where P = "starting (io_in (w_io w))"]
      simp: starting_options starting_password starting_bind starting_start)

lemma unlock_only_steal:
  assumes "UnlockAndDestroy \<in> set (st_wire (flow_state (startup E w)))"
  shows "\<exists>s. startup E w = Stop s \<and> st_exit s = Some 0 \<and> arg_steal_unlock (st_args s) \<and> st_locked s \<and>
    (\<exists>ws. st_wire s = ws @ [UnlockAndDestroy] \<and> UnlockAndDestroy \<notin> set ws)"
proof -
  let ?f = "after (after (read_options w (start_state w)) (make_password w)) (bind_globals E w)"
  have st: "starting (io_in (w_io w)) (flow_state ?f)"
    by (rule starting_bound)
  show ?thesis
  proof (cases rule: alive_after_cases [of ?f "lock_or_steal E w"])
    case (Go s)
    then have s: "starting (io_in (w_io w)) s" "startup E w = lock_or_steal E w s"
      using st by (simp_all add: startup_def)
    have steal: "arg_steal_unlock (st_args s)"
      using assms starting_lock [OF s(1), of E w] unfolding s(2) by (auto simp: lock_or_steal_def starting_def split: if_splits)
    let ?g = "wait_locked E True 1 (w_waits w) (request_lock s)"
    have g: "event_frame (request_lock s) (flow_state ?g)"
      by (rule wait_locked_frame)
    have ng: "starting (io_in (w_io w)) (flow_state ?g)"
      using starting_frame [OF _ g] s(1) by simp
    have steal_g: "arg_steal_unlock (st_args (flow_state ?g))"
      using g steal by (simp add: event_frame_def) (simp add: request_lock_def send_request_def)
    have f: "startup E w = after ?g (\<lambda>s. if \<not> st_locked s then return_main 1 s else return_main 0 (unlock_and_destroy s))"
      using steal s(2) by (simp add: lock_or_steal_def steal_unlock_def)
    show ?thesis
    proof (cases rule: alive_after_cases [of ?g "\<lambda>s. if \<not> st_locked s then return_main 1 s
        else return_main 0 (unlock_and_destroy s)"])
      case (Go s')
      then show ?thesis
        using assms ng steal_g unfolding f
        by (cases "st_locked s'")
          (auto simp: return_main_def exit_with_def unlock_and_destroy_def send_request_def starting_def)
    qed (use assms ng in \<open>auto simp: f starting_def\<close>)
  qed (use assms st in \<open>auto simp: startup_def starting_def\<close>)
qed

lemma startup_Go:
  assumes "startup E w = Go s"
  shows "alive s" "st_locked s" "starting (io_in (w_io w)) s" "LockSession \<in> set (st_wire s)" "st_lock s"
proof -
  let ?f = "after (after (read_options w (start_state w)) (make_password w)) (bind_globals E w)"
  obtain s1 where s1: "?f = Go s1" "alive s1" "lock_or_steal E w s1 = Go s"
    using assms after_Go unfolding startup_def by metis
  have steal: "\<not> arg_steal_unlock (st_args s1)"
  proof
    assume "arg_steal_unlock (st_args s1)"
    then have "steal_unlock E w s1 = Go s"
      using s1(3) by (simp add: lock_or_steal_def)
    then show False
      unfolding steal_unlock_def by (elim after_Go) (simp add: return_main_def split: if_splits)
  qed
  then have l: "lock_session E w s1 = Go s"
    using s1(3) by (simp add: lock_or_steal_def)
  show "starting (io_in (w_io w)) s"
    using starting_lock [of _ s1 E w] starting_bound [of w E] s1(1) l by simp
  obtain s2 where s2: "wl_display_dispatch E (w_sync w) (request_lock s1) = Some s2" "alive s2"
    "wait_locked E False 2 (w_waits w) (create_surfaces s2) = Go s"
    using l by (auto simp: lock_session_def Let_def return_main_def split: option.splits if_splits)
  show "alive s" "st_locked s"
    using wait_locked_Go [OF s2(3)] by simp_all
  have "LockSession \<in> set (st_wire (request_lock s1))"
    by (simp add: request_lock_def send_request_def)
  then have "LockSession \<in> set (st_wire s2)"
    using event_frame_display [OF s2(1)] by (auto simp: event_frame_def)
  then have "LockSession \<in> set (st_wire (create_surfaces s2))"
    using creates_surfaces [of s2] by (auto simp: creates_def)
  then show "LockSession \<in> set (st_wire s)"
    using wait_locked_frame [of "create_surfaces s2" E False 2 "w_waits w"] s2(3) by (auto simp: event_frame_def)
  have "st_lock s2"
    using event_frame_display [OF s2(1)] by (simp add: event_frame_def) (simp add: request_lock_def send_request_def)
  then show "st_lock s"
    using wait_locked_frame [of "create_surfaces s2" E False 2 "w_waits w"] s2(3) creates_surfaces [of s2]
    by (auto simp: event_frame_def creates_def)
qed

lemma announce_keeps:
  assumes "announce w s = (b, f)"
  shows "st_locked (flow_state f) = st_locked s" "st_wire (flow_state f) = st_wire s"
    "st_eventloop (flow_state f) = st_eventloop s" "st_surfaces (flow_state f) = st_surfaces s"
    "io_in (flow_state f) = io_in s" "st_lock (flow_state f) = st_lock s"
  using assms by (auto simp: announce_def Let_def daemonize_def return_main_def exit_with_def split: if_splits)

lemma session_state_facts:
  assumes "session_state E w = Some s0"
  shows "st_locked s0" "LockSession \<in> set (st_wire s0)" "UnlockAndDestroy \<notin> set (st_wire s0)" "fds_registered s0"
    "st_run_display s0" "io_in s0 = io_in (w_io w)" "st_lock s0"
proof -
  obtain s b s' where s: "startup E w = Go s" "announce w s = (b, Go s')" "s0 = enter_loop w s'"
    using assms by (auto simp: session_state_def split: flow.splits if_splits) (metis prod.collapse)
  show "st_locked s0" "LockSession \<in> set (st_wire s0)" "UnlockAndDestroy \<notin> set (st_wire s0)" "fds_registered s0"
    "st_run_display s0" "io_in s0 = io_in (w_io w)" "st_lock s0"
    using startup_Go [OF s(1)] announce_keeps [OF s(2)]
    by (simp_all add: s(3) enter_loop_def starting_def loop_add_fd_def fds_registered_def)
qed

lemma main_program_eq:
  "snd (main_program E J w) =
     (case session_state E w of
        Some s0 \<Rightarrow>
          (case event_loop E J (w_turns w) s0 of (False, s') \<Rightarrow> s' | (True, s') \<Rightarrow> exit_with 0 (unlock_and_destroy s'))
      | None \<Rightarrow>
          (case startup E w of Stop s \<Rightarrow> s | Go s \<Rightarrow> flow_state (snd (announce w s))))"
  by (auto simp: main_program_def session_state_def run_session_def split: flow.split prod.split bool.split)

section \<open>The invariant from the start\<close>

text \<open>What the protocol promises about the events of every phase, and the size of the password buffer.\<close>

definition dispatch_ok :: "libs \<Rightarrow> dispatch_result \<Rightarrow> swaylock_state \<Rightarrow> bool" where
  "dispatch_ok E d s = (case d of Dispatch_failed \<Rightarrow> True | Dispatched es \<Rightarrow> events_ok E es s)"

fun waits_ok :: "libs \<Rightarrow> dispatch_result list \<Rightarrow> swaylock_state \<Rightarrow> bool" where
  "waits_ok E [] s = True"
| "waits_ok E (d # ds) s =
     (dispatch_ok E d s \<and> (\<forall>s'. wl_display_dispatch E d s = Some s' \<longrightarrow> waits_ok E ds s'))"

definition connected :: "libs \<Rightarrow> world \<Rightarrow> flow" where
  "connected E w = after (after (read_options w (start_state w)) (make_password w)) (bind_globals E w)"

definition compositor_ok :: "libs \<Rightarrow> ('j, 'm) cjson_scheme \<Rightarrow> world \<Rightarrow> bool" where
  "compositor_ok E J w \<longleftrightarrow>
     (\<forall>b. w_pw_mem w = Some b \<longrightarrow> length b = 1024) \<and>
     (\<forall>s. after (read_options w (start_state w)) (make_password w) = Go s \<longrightarrow>
        dispatch_ok E (w_registry w) (s\<lparr>st_eventloop := loop_create\<rparr>)) \<and>
     (\<forall>s. connected E w = Go s \<longrightarrow>
        dispatch_ok E (w_sync w) (request_lock s) \<and> waits_ok E (w_waits w) (request_lock s) \<and>
        (\<forall>s'. wl_display_dispatch E (w_sync w) (request_lock s) = Some s' \<longrightarrow>
           waits_ok E (w_waits w) (create_surfaces s'))) \<and>
     (\<forall>s. session_state E w = Some s \<longrightarrow> turns_ok E J (w_turns w) s)"

lemma surfaces_ok_updates:
  "surfaces_ok (s\<lparr>st_lock := b\<rparr>) = surfaces_ok s"
  "surfaces_ok (s\<lparr>st_args := a\<rparr>) = surfaces_ok s"
  "surfaces_ok (s\<lparr>st_exit := c\<rparr>) = surfaces_ok s"
  by (simp_all add: surfaces_ok_def)

lemma surfaces_ok_request:
  "surfaces_ok (send_request LockSession s) = surfaces_ok s"
  "surfaces_ok (send_request UnlockAndDestroy s) = surfaces_ok s"
  by (simp_all add: surfaces_ok_def send_request_def conforms_append live_append)

lemma main_inv_updates:
  "main_inv f (s\<lparr>st_lock := b\<rparr>) = main_inv f s"
  "main_inv f (s\<lparr>st_wire := r\<rparr>) = main_inv f s"
  "main_inv f (s\<lparr>st_exit := c\<rparr>) = main_inv f s"
  "main_inv f (s\<lparr>st_args := a\<rparr>) = main_inv f s"
  "main_inv f (s\<lparr>st_surfaces := sfs\<rparr>) = main_inv f s"
  "main_inv f (s\<lparr>st_run_display := b\<rparr>) = main_inv f s"
  by (simp_all add: main_inv_def timers_ok_def data_ok_def lists_wf_def slot_of_def fun_eq_iff
      split: timer_callback.split)

lemma sys_inv_exit: "sys_inv s \<Longrightarrow> sys_inv (exit_with code s)"
  by (simp add: sys_inv_def) (simp add: exit_with_def main_inv_updates)

lemma sys_inv_request_lock: "sys_inv s \<Longrightarrow> sys_inv (request_lock s)"
  by (simp add: sys_inv_def request_lock_def surfaces_ok_request surfaces_ok_updates)
    (simp add: send_request_def main_inv_updates)

lemma sys_inv_unlock: "sys_inv s \<Longrightarrow> sys_inv (unlock_and_destroy s)"
  by (simp add: sys_inv_def unlock_and_destroy_def surfaces_ok_request surfaces_ok_updates)
    (simp add: send_request_def main_inv_updates)

lemma sys_inv_password:
  assumes "phase_frame (start_state w) (Go s)" "make_password w s = Go s'"
    "\<And>b. w_pw_mem w = Some b \<Longrightarrow> length b = 1024"
  shows "sys_inv s'" "fresh_surfaces s'"
proof -
  obtain b x y where s': "s' = s\<lparr>io_mlock_supported := x, io_mlock := y,
      st_password := \<lparr>pw_len = 0, pw_buffer_len = 1024, pw_buffer = b[0 := 0]\<rparr>\<rparr>" "length b = 1024"
    using assms(2,3)
    by (auto simp: make_password_def password_buffer_create_def Let_def return_main_def
        split: prod.splits option.splits if_splits)
  have s: "s = (start_state w)\<lparr>st_args := st_args s, st_images := st_images s\<rparr>"
    using assms(1) by (simp add: phase_frame_def opt_frame_def)
  have "b \<noteq> []"
    using s'(2) by auto
  then have "pw_repr \<lparr>pw_len = 0, pw_buffer_len = 1024, pw_buffer = b[0 := 0]\<rparr> []"
    using s'(2) by (simp add: pw_repr_def)
  then have "data_ok s'" "timers_ok None s'"
    unfolding s'(1) by (subst s; auto simp: data_ok_def start_state_def lists_wf_def sel_ok_def timers_ok_def
        loop_wf_def loop_create_def slot_ok_def slot_of_def tms.others_def live_def split: timer_callback.split)+
  moreover have "surfaces_ok s'" "fresh_surfaces s'"
    unfolding s'(1) by (subst s; simp add: surfaces_ok_def start_state_def created_names_def fresh_surfaces_def)+
  ultimately show "sys_inv s'" "fresh_surfaces s'"
    by (simp_all add: sys_inv_def main_inv_def)
qed

lemma sys_inv_display:
  "sys_inv s \<Longrightarrow> dispatch_ok E d s \<Longrightarrow> wl_display_dispatch E d s = Some s' \<Longrightarrow> sys_inv s'"
  by (auto simp: wl_display_dispatch_def dispatch_ok_def sys_inv_dispatch split: dispatch_result.splits)

lemma sys_inv_wait:
  "sys_inv s \<Longrightarrow> waits_ok E ds s \<Longrightarrow> sys_inv (flow_state (wait_locked E steal code ds s))"
proof (induction ds arbitrary: s)
  case Nil
  then show ?case
    by (simp add: wait_locked.simps)
next
  case (Cons d ds)
  have "sys_inv (exit_with code s)"
    using Cons.prems(1) by (rule sys_inv_exit)
  then show ?case
    using Cons.prems Cons.IH sys_inv_display
    by (subst wait_locked.simps) (auto simp: return_main_def split: option.split)
qed

lemma sys_inv_bind:
  assumes "sys_inv s" "fresh_surfaces s" "\<not> st_run_display s" "st_eventloop s = loop_create"
    "dispatch_ok E (w_registry w) (s\<lparr>st_eventloop := loop_create\<rparr>)"
  shows "sys_inv (flow_state (bind_globals E w s))" "fresh_surfaces (flow_state (bind_globals E w s))"
proof -
  have s: "s\<lparr>st_eventloop := loop_create\<rparr> = s"
    using assms(4) by simp
  show "sys_inv (flow_state (bind_globals E w s))"
    using assms(1,5) sys_inv_display [of s E "w_registry w"]
    by (auto simp: bind_globals_def s return_main_def sys_inv_exit split: option.split)
  have "fresh_surfaces s'" if "wl_display_dispatch E (w_registry w) s = Some s'" for s'
    using assms(2,3) event_frame_display [OF that] by (simp add: event_frame_def)
  then show "fresh_surfaces (flow_state (bind_globals E w s))"
    using assms(2) by (auto simp: bind_globals_def s return_main_def exit_with_def split: option.split)
qed

lemma creates_keeps: "creates s s' \<Longrightarrow> main_inv None s \<Longrightarrow> main_inv None s'"
  unfolding creates_def by (elim exE conjE) (simp add: main_inv_updates)

lemma surfaces_ok_create_all:
  assumes "surfaces_ok s" "n \<le> length (st_surfaces s)" "\<And>i. m \<le> i \<Longrightarrow> i < n \<Longrightarrow> \<not> sf_created (st_surfaces s ! i)"
  shows "surfaces_ok (fold create_surface [m..<n] s)"
  using assms
proof (induction "n - m" arbitrary: m s)
  case (Suc k)
  let ?s = "create_surface m s"
  have m: "m < n"
    using Suc.hyps(2) by simp
  have "surfaces_ok ?s"
    using Suc.prems m by (intro surfaces_ok_create) auto
  moreover have "\<not> sf_created (st_surfaces ?s ! i)" if "Suc m \<le> i" "i < n" for i
    using that Suc.prems(3) [of i] by (simp add: create_surface_def Let_def)
  moreover have "n \<le> length (st_surfaces ?s)"
    using Suc.prems(2) creates_create [of s m] by (auto simp: creates_def)
  ultimately show ?case
    using Suc.hyps(1) [of "Suc m" ?s] Suc.hyps(2) m by (simp add: upt_conv_Cons)
qed simp

lemma sys_inv_create_all:
  assumes "sys_inv s" "fresh_surfaces s"
  shows "sys_inv (create_surfaces s)"
  using assms surfaces_ok_create_all [of s "length (st_surfaces s)" 0] creates_keeps [OF creates_surfaces]
  by (simp add: sys_inv_def create_surfaces_def fresh_surfaces_def list_all_length)

lemma sys_inv_lock_or_steal:
  assumes "sys_inv s" "fresh_surfaces s" "\<not> st_run_display s"
    "dispatch_ok E (w_sync w) (request_lock s)" "waits_ok E (w_waits w) (request_lock s)"
    "\<And>s'. wl_display_dispatch E (w_sync w) (request_lock s) = Some s' \<Longrightarrow> waits_ok E (w_waits w) (create_surfaces s')"
  shows "sys_inv (flow_state (lock_or_steal E w s))"
proof (cases "arg_steal_unlock (st_args s)")
  case True
  have "sys_inv (flow_state (steal_unlock E w s))"
    unfolding steal_unlock_def
    by (rule flow_after [where P = sys_inv])
      (auto simp: return_main_def sys_inv_exit sys_inv_unlock sys_inv_wait sys_inv_request_lock assms)
  then show ?thesis
    using True by (simp add: lock_or_steal_def)
next
  case False
  have r: "sys_inv (request_lock s)" "\<not> st_run_display (request_lock s)" "fresh_surfaces (request_lock s)"
    using assms(1-3) by (simp_all add: sys_inv_request_lock) (simp_all add: request_lock_def send_request_def)
  have "sys_inv s' \<and> fresh_surfaces s'" if "wl_display_dispatch E (w_sync w) (request_lock s) = Some s'" for s'
    using that sys_inv_display [OF r(1) assms(4)] event_frame_display [OF that] r(2,3) by (simp add: event_frame_def)
  then have "sys_inv (flow_state (lock_session E w s))"
    using r(1) assms(6)
    by (auto simp: lock_session_def Let_def return_main_def sys_inv_exit sys_inv_wait sys_inv_create_all
        split: option.split)
  then show ?thesis
    using False by (simp add: lock_or_steal_def)
qed

lemma connected_inv:
  assumes "compositor_ok E J w"
  shows "surfaces_ok (flow_state (connected E w))"
    "connected E w = Go s \<Longrightarrow> sys_inv s \<and> fresh_surfaces s \<and> \<not> st_run_display s"
proof -
  let ?f = "after (read_options w (start_state w)) (make_password w)"
  have start: "surfaces_ok (start_state w)" "phase_frame (start_state w) (read_options w (start_state w))"
    by (simp add: surfaces_ok_def start_state_def created_names_def) (rule read_options_frame)
  have opt: "surfaces_ok s' = surfaces_ok s" if "opt_frame s s'" for s s'
    using that unfolding opt_frame_def by (elim ssubst) (simp add: surfaces_ok_def)
  have r: "surfaces_ok (flow_state (read_options w (start_state w)))"
    using start opt by (auto simp: phase_frame_def split: flow.splits)
  have p: "surfaces_ok s \<Longrightarrow> surfaces_ok (flow_state (make_password w s))" for s
    by (simp add: make_password_def Let_def return_main_def split: prod.split option.split)
      (simp add: surfaces_ok_def)
  have f: "surfaces_ok (flow_state ?f)"
    using r p by (rule flow_after [where P = surfaces_ok])
  have g: "sys_inv s" "fresh_surfaces s" "\<not> st_run_display s" "st_eventloop s = loop_create"
    "dispatch_ok E (w_registry w) (s\<lparr>st_eventloop := loop_create\<rparr>)" if f_go: "?f = Go s" for s
  proof -
    obtain s1 where s1: "read_options w (start_state w) = Go s1" "make_password w s1 = Go s"
      by (rule after_Go [OF f_go])
    have pf: "phase_frame (start_state w) (Go s1)"
      using start(2) s1(1) by simp
    have "\<not> st_run_display s1" "st_eventloop s1 = loop_create"
      using opt_frame_fields [of "start_state w" s1] pf by (simp_all add: phase_frame_def start_state_def)
    then show "\<not> st_run_display s" "st_eventloop s = loop_create"
      using s1(2) by (auto simp: make_password_def Let_def return_main_def split: prod.splits option.splits if_splits)
    have "length b = 1024" if "w_pw_mem w = Some b" for b
      using assms that by (simp add: compositor_ok_def)
    then show "sys_inv s" "fresh_surfaces s"
      using sys_inv_password [OF pf s1(2)] by simp_all
    show "dispatch_ok E (w_registry w) (s\<lparr>st_eventloop := loop_create\<rparr>)"
      using assms f_go by (simp only: compositor_ok_def)
  qed
  show "surfaces_ok (flow_state (connected E w))"
    unfolding connected_def
    by (rule flow_after [where P = surfaces_ok, OF f]) (use sys_inv_bind(1) g in \<open>auto simp: sys_inv_def\<close>)
  show "sys_inv s \<and> fresh_surfaces s \<and> \<not> st_run_display s" if c_go: "connected E w = Go s"
  proof -
    obtain s1 where s1: "?f = Go s1" "bind_globals E w s1 = Go s"
      by (rule after_Go [OF c_go [unfolded connected_def]])
    have "starting (io_in (w_io w)) s"
      using starting_bound [of w E] c_go by (simp add: connected_def)
    then show ?thesis
      using sys_inv_bind [OF g(1-5) [OF s1(1)]] s1(2) by (simp add: starting_def)
  qed
qed

lemma startup_inv:
  assumes "compositor_ok E J w"
  shows "surfaces_ok (flow_state (startup E w))" "startup E w = Go s \<Longrightarrow> sys_inv s"
proof -
  have st: "startup E w = after (connected E w) (lock_or_steal E w)"
    by (simp add: startup_def connected_def)
  have l: "sys_inv (flow_state (lock_or_steal E w s))" if "connected E w = Go s" for s
    using connected_inv(2) [OF assms that] assms that sys_inv_lock_or_steal [of s E w]
    unfolding compositor_ok_def by blast
  show "surfaces_ok (flow_state (startup E w))"
    unfolding st by (rule flow_after [where P = surfaces_ok, OF connected_inv(1) [OF assms]])
      (use l in \<open>auto simp: sys_inv_def\<close>)
  show "sys_inv s" if "startup E w = Go s"
    using that l after_Go unfolding st by (metis flow_state.simps(1))
qed

lemma sys_inv_enter_loop:
  assumes "sys_inv s"
  shows "sys_inv (enter_loop w s)"
proof -
  have "slot_of (enter_loop w s) = slot_of s"
    by (auto simp: fun_eq_iff slot_of_def enter_loop_def split: timer_callback.split)
  moreover have "live (st_eventloop (enter_loop w s)) = live (st_eventloop s)"
    by (simp add: fun_eq_iff live_def enter_loop_def loop_add_fd_def)
  moreover have "loop_wf (st_eventloop (enter_loop w s))"
    using assms by (auto simp: sys_inv_def main_inv_def timers_ok_def loop_wf_def enter_loop_def loop_add_fd_def)
  moreover have "data_ok (enter_loop w s)" "surfaces_ok (enter_loop w s)"
    using assms by (auto simp: sys_inv_def main_inv_def data_ok_def lists_wf_def enter_loop_def)
  ultimately show ?thesis
    using assms by (simp add: sys_inv_def main_inv_def timers_ok_def tms.others_def)
qed

lemma surfaces_ok_turn:
  assumes "sys_inv s" "fds_registered s" "turn_ok E t s"
  shows "surfaces_ok (poll_turn E J t s)"
  using assms sys_inv_serve [OF assms(1,3), of J]
  by (auto simp: poll_turn_eq sys_inv_def surfaces_ok_timers) (simp add: arrive_def)

lemma surfaces_ok_event_loop:
  assumes "sys_inv s" "fds_registered s" "turns_ok E J ts s" "event_loop E J ts s = (b, s')"
  shows "surfaces_ok s'"
  using assms
proof (induction ts arbitrary: s)
  case Nil
  then show ?case
    by (simp add: event_loop.simps sys_inv_def split: if_splits)
next
  case (Cons t ts)
  let ?s = "poll_turn E J t s"
  show ?case
  proof (cases "alive s \<and> st_run_display s \<and> tn_flush t")
    case True
    then have l: "event_loop E J ts ?s = (b, s')"
      using Cons.prems(4) by (subst (asm) event_loop.simps) simp
    have t: "turn_ok E t s" "turns_ok E J ts ?s"
      using Cons.prems(3) by simp_all
    show ?thesis
    proof (cases "alive ?s")
      case True
      then show ?thesis
        using Cons.IH [OF sys_inv_turn [OF Cons.prems(1,2) t(1) True] fds_poll_turn [OF Cons.prems(2)] t(2) l] by simp
    next
      case False
      then have "s' = ?s"
        using l by (subst (asm) event_loop.simps) simp
      then show ?thesis
        using surfaces_ok_turn [OF Cons.prems(1,2) t(1), of J] by simp
    qed
  next
    case False
    then show ?thesis
      using Cons.prems by (subst (asm) event_loop.simps) (auto simp: sys_inv_def split: if_splits)
  qed
qed

lemma session_inv:
  assumes "compositor_ok E J w" "session_state E w = Some s0"
  shows "sys_inv s0" "turns_ok E J (w_turns w) s0"
proof -
  obtain s b s' where s: "startup E w = Go s" "announce w s = (b, Go s')" "s0 = enter_loop w s'"
    using assms(2) by (auto simp: session_state_def split: flow.splits if_splits) (metis prod.collapse)
  have "sys_inv s"
    using startup_inv(2) [OF assms(1) s(1)] .
  then have "sys_inv s'"
    using s(2) by (auto simp: announce_def Let_def daemonize_def return_main_def sys_inv_exit split: if_splits)
      (auto simp: sys_inv_def main_inv_updates surfaces_ok_updates exit_with_def)
  then show "sys_inv s0"
    by (simp add: s(3) sys_inv_enter_loop)
  show "turns_ok E J (w_turns w) s0"
    using assms by (simp add: compositor_ok_def)
qed

text \<open>Why a session is unlocked, with the run up to that turn.\<close>

lemma unlock_reason:
  assumes "main_program E J w = (sent, s)" "UnlockAndDestroy \<in> set (st_wire s)"
  shows "st_exit s = Some 0 \<and> st_locked s \<and>
    (\<exists>ws. st_wire s = ws @ [UnlockAndDestroy] \<and> UnlockAndDestroy \<notin> set ws) \<and>
    (arg_steal_unlock (st_args s) \<or>
     (\<exists>s0 k. session_state E w = Some s0 \<and> k < length (w_turns w) \<and>
        unlock_cause (w_turns w ! k) (fold (poll_turn E J) (take k (w_turns w)) s0) \<and>
        (\<forall>j \<le> k. alive (fold (poll_turn E J) (take j (w_turns w)) s0))))"
proof -
  have s: "s = snd (main_program E J w)"
    using assms(1) by simp
  show ?thesis
  proof (cases "session_state E w")
    case None
    have "startup E w = Stop s"
    proof (cases "startup E w")
      case (Go s1)
      then have "st_wire s = st_wire s1"
        using s None announce_keeps [of w s1] by (cases "announce w s1") (simp add: main_program_eq)
      then show ?thesis
        using startup_Go(3) [OF Go] assms(2) by (simp add: starting_def)
    qed (use s None in \<open>simp add: main_program_eq\<close>)
    then show ?thesis
      using unlock_only_steal [of E w] assms(2) by auto
  next
    case (Some s0)
    note f = session_state_facts [OF Some]
    obtain b s1 where l: "event_loop E J (w_turns w) s0 = (b, s1)"
      by (cases "event_loop E J (w_turns w) s0")
    have k: "keeps s0 s1"
      by (rule keeps_event_loop [OF f(4) l])
    have b: "b"
      using assms(2) s Some l k f(3) by (cases b) (auto simp: main_program_eq keeps_def)
    then have "s = exit_with 0 (unlock_and_destroy s1)"
      using s Some l by (simp add: main_program_eq)
    moreover have "UnlockAndDestroy \<notin> set (st_wire s1)" "st_locked s1"
      using k f(1,3) by (auto simp: keeps_def)
    ultimately show ?thesis
      using event_loop_cause [of E J "w_turns w" s0 s1] l b f(4,5) Some
      by (simp add: exit_with_def unlock_and_destroy_def send_request_def)
  qed
qed

section \<open>Properties\<close>


text \<open>
  C17: the readiness notification that the user asked for is sent only once the compositor has confirmed
  that the session is locked.
\<close>

theorem ready_only_when_locked:
  assumes "main_program E J w = (True, s)"
  shows "st_locked s \<and> LockSession \<in> set (st_wire s)"
proof -
  have s: "s = snd (main_program E J w)" and r: "fst (main_program E J w)"
    using assms by simp_all
  obtain s1 where go: "startup E w = Go s1"
    using r by (cases "startup E w") (auto simp: main_program_def)
  show ?thesis
  proof (cases "session_state E w")
    case None
    then show ?thesis
      using s go startup_Go [OF go] announce_keeps [of w s1]
      by (cases "announce w s1") (simp add: main_program_eq)
  next
    case (Some s0)
    note f = session_state_facts [OF Some]
    obtain b s2 where l: "event_loop E J (w_turns w) s0 = (b, s2)"
      by (cases "event_loop E J (w_turns w) s0")
    have "keeps s0 s2"
      by (rule keeps_event_loop [OF f(4) l])
    then have "st_locked s2" "LockSession \<in> set (st_wire s2)"
      using f(1,2) by (auto simp: keeps_def)
    then show ?thesis
      using s Some l by (cases b) (auto simp: main_program_eq exit_with_def unlock_and_destroy_def send_request_def)
  qed
qed


section \<open>A sample world\<close>

definition sample_turn :: turn where
  "sample_turn = \<lparr>tn_arrive = frame_bytes (COMM_MSG_AUTH_RESULT, [1]), tn_hangup = False, tn_flush = True,
     tn_poll = Polled [0, POLLIN, 0], tn_dispatch = Dispatched [], tn_now = \<lparr>tv_sec = 5, tv_nsec = 0\<rparr>\<rparr>"

definition sample_world :: "string list \<Rightarrow> turn list \<Rightarrow> world" where
  "sample_world args ts = \<lparr>w_args = args, w_backend = True,
     w_os = (sample_os [])\<lparr>os_readable := (\<lambda>_. False)\<rparr>, w_io = sample_io\<lparr>io_rd := []\<rparr>, w_clock = [],
     w_timer_alloc = [], w_rand = [], w_shm = \<lparr>se_open = [], se_truncate = []\<rparr>,
     w_pw_mem = Some (replicate 1024 7), w_pipe = True, w_nonblock = True, w_connect = True,
     w_registry = Dispatched [Ev_global 1 ''wl_compositor'', Ev_global 2 ''wl_subcompositor'',
       Ev_global 3 ''wl_shm'', Ev_global 4 ''ext_session_lock_manager_v1'', Ev_global 5 ''wl_output''],
     w_sync = Dispatched [Ev_locked], w_waits = [Dispatched [Ev_locked]], w_ready = True,
     w_daemon = \<lparr>dm_pipe = True, dm_fork = Fork_child, dm_chdir = True, dm_write = True, dm_read = None\<rparr>,
     w_display_fd = 3, w_comm_fd = 4, w_signal_fd = 5, w_turns = ts\<rparr>"

lemma sample_world_simps [simp]:
  "w_args (sample_world args ts) = args" "w_backend (sample_world args ts)"
  "w_os (sample_world args ts) = (sample_os [])\<lparr>os_readable := (\<lambda>_. False)\<rparr>"
  "w_pw_mem (sample_world args ts) = Some (replicate 1024 7)"
  "w_pipe (sample_world args ts)" "w_nonblock (sample_world args ts)" "w_connect (sample_world args ts)"
  "w_registry (sample_world args ts) = Dispatched [Ev_global 1 ''wl_compositor'',
     Ev_global 2 ''wl_subcompositor'', Ev_global 3 ''wl_shm'',
     Ev_global 4 ''ext_session_lock_manager_v1'', Ev_global 5 ''wl_output'']"
  "w_sync (sample_world args ts) = Dispatched [Ev_locked]"
  "w_waits (sample_world args ts) = [Dispatched [Ev_locked]]"
  "w_ready (sample_world args ts)" "w_turns (sample_world args ts) = ts"
  by (simp_all add: sample_world_def)

lemma sample_start:
  "start_state (sample_world args ts) =
     sample_state\<lparr>io_rd := [], st_args := default_args, st_run_display := False, st_locked := False,
       st_compositor := False, st_subcompositor := False, st_wl_shm := False, st_lock_manager := False,
       st_lock := False, st_password := \<lparr>pw_len = 0, pw_buffer_len = 0, pw_buffer = []\<rparr>\<rparr>"
  by (simp add: start_state_def sample_state_def sample_world_def sample_io_def)

lemma sample_options:
  "read_options (sample_world [] ts) s =
     Go (apply_line_mode \<lparr>pe_state = Some s, pe_line_mode = Some LM_LINE, pe_config_path = None,
           pe_log = snd (log_init [] log_start)\<rparr> s)"
  by (simp add: read_options_def log_init_def log_init_loop.simps read_config_def
      get_config_path_def config_paths_def sample_os_def file_exists_def parse_arguments_def env_state_def)

lemma sample_line_mode [simp]: "apply_line_mode \<lparr>pe_state = x, pe_line_mode = Some LM_LINE, pe_config_path = y, pe_log = z\<rparr> s = s"
  by (simp add: apply_line_mode_def Let_def)

lemma sample_password:
  assumes "io_mlock s = []" "io_mlock_supported s"
  shows "make_password (sample_world args ts) s =
    Go (s\<lparr>st_password := \<lparr>pw_len = 0, pw_buffer_len = 1024, pw_buffer = (replicate 1024 7)[0 := 0]\<rparr>\<rparr>)"
proof -
  have "password_buffer_lock True [] = (True, True, [])"
    by code_simp
  then have "password_buffer_create (Some b) True [] = (Some b, True, [])" for b
    by (simp add: password_buffer_create_def)
  moreover have "s\<lparr>io_mlock_supported := True, io_mlock := []\<rparr> = s"
    using assms by simp
  ultimately show ?thesis
    using assms by (simp add: make_password_def)
qed

lemma sample_bind:
  assumes "alive s" "st_eventloop s = loop_create" "st_surfaces s = []" "st_wire s = []"
  shows "bind_globals E (sample_world args ts) s =
    Go (s\<lparr>st_compositor := True, st_subcompositor := True, st_wl_shm := True, st_lock_manager := True,
          st_surfaces := [new_surface 5],
          st_wire := [BindGlobal 1 ''wl_compositor'' 4, BindGlobal 2 ''wl_subcompositor'' 1,
            BindGlobal 3 ''wl_shm'' 1, BindGlobal 4 ''ext_session_lock_manager_v1'' 1,
            BindGlobal 5 ''wl_output'' 4]\<rparr>)"
proof -
  have s: "s\<lparr>st_eventloop := loop_create\<rparr> = s"
    using assms(2) by simp
  show ?thesis
    using assms(1,3,4) unfolding alive_def
    by (simp add: bind_globals_def s wl_display_dispatch_def handle_event_def handle_global_def send_request_def
        alive_def)
qed

lemma creates_fields:
  "creates s s' \<Longrightarrow> alive s' = alive s \<and> st_locked s' = st_locked s \<and> st_args s' = st_args s \<and>
     io_in s' = io_in s \<and> io_rd s' = io_rd s \<and> io_wr s' = io_wr s \<and> io_mem s' = io_mem s"
  unfolding creates_def by (elim exE conjE) (simp add: alive_def)

lemma sample_lock:
  assumes "alive s" "\<not> arg_steal_unlock (st_args s)" "st_surfaces s = [new_surface 5]"
  shows "lock_or_steal E (sample_world args ts) s =
    Go (create_surfaces (s\<lparr>st_lock := True, st_wire := st_wire s @ [LockSession], st_locked := True\<rparr>))"
proof -
  have "alive (create_surfaces s') = alive s'" "st_locked (create_surfaces s') = st_locked s'" for s'
    using creates_fields [OF creates_surfaces] by simp_all
  then show ?thesis
    using assms
    by (simp add: lock_or_steal_def lock_session_def request_lock_def wl_display_dispatch_def handle_event_def
        send_request_def ext_session_lock_v1_handle_locked_def wait_locked.simps alive_def)
qed

lemma sample_startup:
  assumes "read_options (sample_world args ts) (start_state (sample_world args ts)) =
      Go ((start_state (sample_world args ts))\<lparr>st_args := a\<rparr>)" "\<not> arg_steal_unlock a"
  obtains s1 s2 s3 where
    "after (read_options (sample_world args ts) (start_state (sample_world args ts)))
       (make_password (sample_world args ts)) = Go s1" "st_surfaces s1 = []" "alive s1"
    "connected E (sample_world args ts) = Go s2"
    "startup E (sample_world args ts) = Go s3" "alive s3" "benign s3"
    "pipe_data (io_in s3) = []" "st_args s3 = a"
proof -
  let ?w = "sample_world args ts"
  let ?s = "(start_state ?w)\<lparr>st_args := a\<rparr>"
  define s1 where "s1 = ?s\<lparr>st_password :=
    \<lparr>pw_len = 0, pw_buffer_len = 1024, pw_buffer = (replicate 1024 7)[0 := 0]\<rparr>\<rparr>"
  define s2 where "s2 = flow_state (bind_globals E ?w s1)"
  let ?l = "s2\<lparr>st_lock := True, st_wire := st_wire s2 @ [LockSession], st_locked := True\<rparr>"
  define s3 where "s3 = create_surfaces ?l"
  have st: "io_mlock ?s = []" "io_mlock_supported ?s" "alive ?s"
    by (simp_all add: start_state_def sample_world_def sample_io_def alive_def)
  have 1: "alive s1" "st_eventloop s1 = loop_create" "st_surfaces s1 = []" "st_wire s1 = []"
    "st_args s1 = a" "benign s1" "pipe_data (io_in s1) = []"
    by (simp_all add: s1_def start_state_def sample_world_def sample_io_def alive_def benign_def)
  have 2: "bind_globals E ?w s1 = Go s2" "alive s2" "st_surfaces s2 = [new_surface 5]"
    "st_args s2 = a" "benign s2" "pipe_data (io_in s2) = []"
    using sample_bind [OF 1(1-4), of E args ts] 1 by (simp_all add: s2_def alive_def benign_def)
  have l: "lock_or_steal E ?w s2 = Go s3"
    using sample_lock [OF 2(2) _ 2(3), of E args ts] 2(4) assms(2) by (simp add: s3_def)
  have 3: "alive s3" "st_args s3 = a" "benign s3" "pipe_data (io_in s3) = []"
    using creates_fields [OF creates_surfaces [of ?l]] 2 by (simp_all add: s3_def alive_def benign_def)
  have m: "make_password ?w ?s = Go s1"
    using sample_password [OF st(1,2), of args ts] by (simp add: s1_def)
  have f: "after (read_options ?w (start_state ?w)) (make_password ?w) = Go s1"
    using st(3) m by (simp add: assms(1))
  then have c: "connected E ?w = Go s2"
    using 1(1) 2(1) by (simp add: connected_def)
  then have "startup E ?w = Go s3"
    using 2(2) l by (simp add: startup_def connected_def)
  then show thesis
    using that f 1(1,3) c 3 by blast
qed

lemma sample_plain:
  "read_options (sample_world [] ts) (start_state (sample_world [] ts)) =
     Go ((start_state (sample_world [] ts))\<lparr>st_args := default_args\<rparr>)"
  by (simp add: sample_options) (simp add: start_state_def)

lemma sample_session:
  obtains s0 where "session_state E (sample_world [] ts) = Some s0" "alive s0" "benign s0"
    "pipe_data (io_in s0) = []" "st_args s0 = default_args"
proof -
  obtain s1 s2 s3 where s: "startup E (sample_world [] ts) = Go s3" "alive s3" "benign s3"
    "pipe_data (io_in s3) = []" "st_args s3 = default_args"
    by (rule sample_startup [OF sample_plain]) (simp add: default_args_def, blast)
  have "session_state E (sample_world [] ts) = Some (enter_loop (sample_world [] ts) s3)"
    using s by (simp add: session_state_def announce_def default_args_def)
  then show thesis
    using s by (intro that [of "enter_loop (sample_world [] ts) s3"]) (simp_all add: enter_loop_def alive_def benign_def)
qed

lemma sample_compositor: "compositor_ok E J (sample_world [] [sample_turn])"
proof -
  let ?w = "sample_world [] [sample_turn]"
  obtain s1 s2 s3 where s:
    "after (read_options ?w (start_state ?w)) (make_password ?w) = Go s1" "st_surfaces s1 = []" "alive s1"
    by (rule sample_startup [OF sample_plain]) (simp add: default_args_def, blast)
  have "dispatch_ok E (w_registry ?w) (s1\<lparr>st_eventloop := loop_create\<rparr>)"
    using s(2,3) by (simp add: dispatch_ok_def event_ok_def handle_event_def handle_global_def send_request_def
        alive_def new_surface_def)
  moreover have "dispatch_ok E (w_sync ?w) s" "waits_ok E (w_waits ?w) s" "turns_ok E J (w_turns ?w) s" for s
    by (simp_all add: dispatch_ok_def event_ok_def sample_turn_def turn_ok_def)
  ultimately show ?thesis
    using s(1) by (simp add: compositor_ok_def)
qed

section \<open>A granted verdict ends the session\<close>

lemma quiet_timers: "quiet s (dispatch_timers st_eventloop put_loop alive (call_timer E) now is s)"
proof (rule timers_induct)
  show "quiet s (put_loop (unlink_timer i (st_eventloop s')) s')" if "quiet s s'" for i s'
    using that by (rule quiet_trans) (rule quiet_same; simp add: put_loop_def unlink_timer_def)
qed (auto intro: quiet_trans quiet_call_timer quiet_same)

lemma comm_in_grant:
  assumes "benign s" "valid_message (COMM_MSG_AUTH_RESULT, 1 # body)"
    "pipe_data (io_in s) = frame_bytes (COMM_MSG_AUTH_RESULT, 1 # body) @ rest"
    "r AND POLLERR = 0" "r AND POLLIN \<noteq> 0"
  shows "\<not> st_run_display (comm_in E J r s)" "alive (comm_in E J r s) = alive s"
    "st_args (comm_in E J r s) = st_args s"
proof -
  have nz: "COMM_MSG_AUTH_RESULT \<noteq> 0"
    by (simp add: comm_msg_defs)
  obtain sch mem where c: "comm_in E J r s =
      handle_message E J COMM_MSG_AUTH_RESULT (Some (1 # body @ [0])) (Suc (length body))
        (s\<lparr>io_in := (io_in s)\<lparr>pipe_data := rest\<rparr>, io_rd := sch, io_mem := mem\<rparr>)"
    using comm_in_message [OF assms(1,2) nz assms(3-5), of E J] by auto
  show "\<not> st_run_display (comm_in E J r s)" "alive (comm_in E J r s) = alive s"
    "st_args (comm_in E J r s) = st_args s"
    unfolding c by (simp_all add: handle_message_def on_auth_result_def alive_def)
qed


lemma sample_turn_facts:
  "tn_flush sample_turn" "tn_poll sample_turn \<noteq> Poll_failed" "revent (tn_poll sample_turn) 0 = 0"
  "revent (tn_poll sample_turn) 1 AND POLLERR = 0" "revent (tn_poll sample_turn) 1 AND POLLIN \<noteq> 0"
  "tn_arrive sample_turn = frame_bytes (COMM_MSG_AUTH_RESULT, 1 # []) @ []"
  "valid_message (COMM_MSG_AUTH_RESULT, 1 # [])"
  by (simp_all add: sample_turn_def revent_def POLLIN_def POLLERR_def valid_message_def comm_msg_defs)

lemma grant_turn:
  assumes "alive s" "st_run_display s" "fds_registered s" "benign s"
    "arg_mode (st_args s) \<noteq> BACKGROUND_MODE_INVALID"
    "tn_flush t" "tn_poll t \<noteq> Poll_failed"
    "revent (tn_poll t) 0 = 0" "revent (tn_poll t) 1 AND POLLERR = 0" "revent (tn_poll t) 1 AND POLLIN \<noteq> 0"
    "pipe_data (io_in s) @ tn_arrive t = frame_bytes (COMM_MSG_AUTH_RESULT, 1 # body) @ rest"
    "valid_message (COMM_MSG_AUTH_RESULT, 1 # body)"
  shows "event_loop E J (t # ts) s = (True, poll_turn E J t s)"
proof -
  let ?r = "revent (tn_poll t) 1"
  let ?s = "comm_in E J ?r (arrive t s)"
  have a: "benign (arrive t s)" "alive (arrive t s)" "st_args (arrive t s) = st_args s"
    "pipe_data (io_in (arrive t s)) = frame_bytes (COMM_MSG_AUTH_RESULT, 1 # body) @ rest"
    using assms(1,4,11) by (simp_all add: arrive_def benign_def alive_def)
  note g = comm_in_grant [OF a(1) assms(12) a(4) assms(9,10), of E J]
  have "fd_step E J (tn_dispatch t) Comm_in ?r (arrive t s) = ?s"
    using a(2) assms(10) by (auto simp: fd_step_def call_fd_def bit.conj_disj_distrib or_eq_0_iff)
  then have serve: "serve_fds E J t s = fd_step E J (tn_dispatch t) Term_in (revent (tn_poll t) 2) ?s"
    using assms(8) by (simp add: serve_fds_def)
  then have v: "alive (serve_fds E J t s)" "\<not> st_run_display (serve_fds E J t s)"
    "st_args (serve_fds E J t s) = st_args s"
    using g a(2,3) by (auto simp: fd_step_def call_fd_def term_in_def alive_def)
  let ?u = "dispatch_timers st_eventloop put_loop alive (call_timer E) (tn_now t)
    (map lt_id (lp_timers (st_eventloop (serve_fds E J t s)))) (serve_fds E J t s)"
  have "poll_turn E J t s = ?u"
    using poll_turn_eq [OF assms(3), of E J t] assms(7) v(1) by simp
  moreover have "\<not> st_run_display ?u"
    using v(2) event_frame_timers [of "serve_fds E J t s"] by (simp add: event_frame_def)
  moreover have "alive ?u"
    using v(1,3) assms(5) quiet_timers [of "serve_fds E J t s"] by (simp add: quiet_def alive_def)
  ultimately show ?thesis
    using assms(1,2,6) by (simp add: event_loop.simps)
qed

text \<open>
  A verdict that grants access and is complete in the pipe when the descriptor is served ends the
  event loop in that very turn, whatever else the turn brings: timers that expire and messages that
  follow do not keep the screen locked.
\<close>

theorem grant_ends_loop:
  assumes "alive s" "st_run_display s" "fds_registered s" "benign s"
    "arg_mode (st_args s) \<noteq> BACKGROUND_MODE_INVALID"
    "tn_flush t" "tn_poll t \<noteq> Poll_failed"
    "revent (tn_poll t) 0 = 0" "revent (tn_poll t) 1 AND POLLERR = 0" "revent (tn_poll t) 1 AND POLLIN \<noteq> 0"
    "pipe_data (io_in s) @ tn_arrive t = frame_bytes (COMM_MSG_AUTH_RESULT, 1 # body) @ rest"
    "valid_message (COMM_MSG_AUTH_RESULT, 1 # body)"
  shows "event_loop E J (t # ts) s = (True, poll_turn E J t s)"
  by (rule grant_turn [OF assms])

theorem grant_ends_loop_witness:
  "\<forall>E (J :: unit cjson). \<exists>s0. session_state E (sample_world [] [sample_turn]) = Some s0 \<and>
     event_loop E J [sample_turn] s0 = (True, poll_turn E J sample_turn s0)"
proof (intro allI)
  fix E and J :: "unit cjson"
  obtain s0 where s: "session_state E (sample_world [] [sample_turn]) = Some s0" "alive s0" "benign s0"
    "pipe_data (io_in s0) = []" "st_args s0 = default_args"
    by (rule sample_session)
  note f = session_state_facts [OF s(1)]
  have "event_loop E J [sample_turn] s0 = (True, poll_turn E J sample_turn s0)"
    using s sample_turn_facts
    by (intro grant_ends_loop [OF s(2) f(5,4) s(3), of sample_turn "[]" "[]"]) (simp_all add: default_args_def)
  then show "\<exists>s0. session_state E (sample_world [] [sample_turn]) = Some s0 \<and>
     event_loop E J [sample_turn] s0 = (True, poll_turn E J sample_turn s0)"
    using s(1) by blast
qed

lemma sample_unlocks:
  "UnlockAndDestroy \<in> set (st_wire (snd (main_program E J (sample_world [] [sample_turn\<lparr>tn_flush := False\<rparr>]))))"
proof -
  obtain s0 where s: "session_state E (sample_world [] [sample_turn\<lparr>tn_flush := False\<rparr>]) = Some s0" "alive s0"
    by (rule sample_session)
  then have "event_loop E J [sample_turn\<lparr>tn_flush := False\<rparr>] s0 = (True, s0)"
    using session_state_facts(5) [OF s(1)] by (simp add: event_loop.simps)
  then show ?thesis
    using s by (simp add: main_program_eq exit_with_def unlock_and_destroy_def send_request_def)
qed


lemma sample_ready_options:
  "read_options (sample_world [''-R3''] ts) (start_state (sample_world [''-R3''] ts)) =
     Go ((start_state (sample_world [''-R3''] ts))\<lparr>st_args := default_args\<lparr>arg_ready_fd := 3\<rparr>\<rparr>)"
proof -
  have n: "c_int (strtol ''3'' 10) = 3"
    by (simp add: strtol_def signed_magnitude_def is_space_def magnitude_def digits_value_def digit_val_def c_int_id)
  show ?thesis
    by (simp add: read_options_def log_init_def log_init_loop.simps scan_short_def debug_shorts_def read_config_def
        get_config_path_def config_paths_def sample_os_def file_exists_def parse_arguments_def env_state_def
        parse_options_def parse_loop.simps short_options_def apply_option_def flag_option_def value_option_def
        set_arg_def n)
      (simp add: start_state_def)
qed

theorem ready_only_when_locked_witness:
  "\<forall>E (J :: unit cjson). \<exists>s. main_program E J (sample_world [''-R3''] []) = (True, s) \<and>
     st_locked s \<and> LockSession \<in> set (st_wire s)"
proof (intro allI)
  fix E and J :: "unit cjson"
  let ?w = "sample_world [''-R3''] []"
  obtain s1 s2 s3 where s: "startup E ?w = Go s3" "alive s3" "st_args s3 = default_args\<lparr>arg_ready_fd := 3\<rparr>"
    by (rule sample_startup [OF sample_ready_options]) (simp add: default_args_def, blast)
  then have "fst (main_program E J ?w)"
    by (simp add: main_program_def announce_def Let_def)
  then obtain s where "main_program E J ?w = (True, s)"
    by (cases "main_program E J ?w") auto
  then show "\<exists>s. main_program E J ?w = (True, s) \<and> st_locked s \<and> LockSession \<in> set (st_wire s)"
    using ready_only_when_locked by blast
qed


end
