(* ===== verification/Gdm.thy ===== *)
theory Gdm
  imports Comm
begin

text \<open>
  The headers under \<^verbatim>\<open>src/include/gdm/\<close>: the binary message that carries JSON between a PAM module
  and the program, and the list of supported extensions in the environment. The macros are functions;
  \<open>env\<close> is the value of \<^verbatim>\<open>GDM_SUPPORTED_PAM_EXTENSIONS\<close> (\<open>None\<close> when it is not set). The field
  \<open>gm_length\<close> is the number that the big-endian bytes stand for.
\<close>

section \<open>Data\<close>

record gdm_message =
  gm_length :: u32
  gm_type :: byte
  gm_protocol_name :: "byte list"
  gm_version :: u32
  gm_json :: "string option"

definition GDM_PAM_EXTENSION_CUSTOM_JSON :: string where
  "GDM_PAM_EXTENSION_CUSTOM_JSON = ''org.gnome.DisplayManager.UserVerifier.CustomJSON''"

definition AUTHD_GDM_JSON_PROTO_NAME :: string where
  "AUTHD_GDM_JSON_PROTO_NAME = ''com.ubuntu.authd.gdm''"

definition AUTHD_GDM_JSON_PROTO_VERSION :: u32 where
  "AUTHD_GDM_JSON_PROTO_VERSION = 1"

text \<open>
  \<^verbatim>\<open>sizeof(GdmPamExtensionMessage)\<close> and \<^verbatim>\<open>sizeof(GdmPamExtensionJSONProtocol)\<close> on a 64-bit target:
  8 bytes of header, 64 of name, 4 of version and 4 of padding, and a pointer.
\<close>

definition HEADER_SIZE :: u32 where "HEADER_SIZE = 8"
definition GDM_PAM_EXTENSION_CUSTOM_JSON_SIZE :: u32 where "GDM_PAM_EXTENSION_CUSTOM_JSON_SIZE = 88"

section \<open>The C functions on strings\<close>

definition strcspn_space :: "string \<Rightarrow> string" where
  "strcspn_space p = takeWhile (\<lambda>c. c \<noteq> CHR 0x20) p"

definition skip_spaces :: "string \<Rightarrow> string" where
  "skip_spaces p = dropWhile (\<lambda>c. c = CHR 0x20) p"

text \<open>\<^verbatim>\<open>strncmp(a, b, n) == 0\<close>: equal in the first \<open>n\<close> characters, or equal up to the end of both.\<close>

fun strncmp_eq :: "string \<Rightarrow> string \<Rightarrow> nat \<Rightarrow> bool" where
  "strncmp_eq a b 0 = True"
| "strncmp_eq [] b (Suc n) = (b = [])"
| "strncmp_eq (x # a) [] (Suc n) = False"
| "strncmp_eq (x # a) (y # b) (Suc n) = (x = y \<and> strncmp_eq a b n)"

section \<open>The list of extensions\<close>

text \<open>
  The words that fit: the loop stops at the size of the block and at 255 words. \<open>used\<close> counts the
  bytes so far, each word with one separator.
\<close>

fun fitting_words :: "nat \<Rightarrow> nat \<Rightarrow> nat \<Rightarrow> string list \<Rightarrow> string list" where
  "fitting_words bufsize used t [] = []"
| "fitting_words bufsize used t (w # ws) =
     (if t \<ge> 255 \<or> used + (length w + 1) \<ge> bufsize then []
      else w # fitting_words bufsize (used + (length w + 1)) (Suc t) ws)"

fun join_words :: "string list \<Rightarrow> string" where
  "join_words [] = []"
| "join_words [w] = w"
| "join_words (w # ws) = w @ CHR 0x20 # join_words ws"

text \<open>The value that \<^verbatim>\<open>putenv\<close> stores; without a fitting word the environment is left as it is.\<close>

definition advertise_supported_extensions :: "nat \<Rightarrow> string list \<Rightarrow> string option \<Rightarrow> string option" where
  "advertise_supported_extensions bufsize exts env =
     (let ws = fitting_words bufsize (length ''GDM_SUPPORTED_PAM_EXTENSIONS'') 0 exts
      in if ws = [] then env else Some (join_words ws))"

definition POSIX_ARG_MAX :: nat where "POSIX_ARG_MAX = 4096"

definition authd_gdm_advertise_extensions :: "string option \<Rightarrow> string option" where
  "authd_gdm_advertise_extensions env =
     advertise_supported_extensions POSIX_ARG_MAX [GDM_PAM_EXTENSION_CUSTOM_JSON] env"

text \<open>
  Looking up a name: each word is compared with the name over the length of the word; the position of
  the first match is the type. The position stops at 255.
\<close>

lemma skip_spaces_length [termination_simp]: "length (skip_spaces p) \<le> length p"
  by (simp add: skip_spaces_def length_dropWhile_le)

function look_up_from :: "string \<Rightarrow> nat \<Rightarrow> string \<Rightarrow> nat option" where
  "look_up_from name t p =
     (if p = [] then None
      else
        (let len = length (strcspn_space p) in
         if strncmp_eq p name len then Some t
         else if t \<ge> 255 then None
         else look_up_from name (Suc t) (skip_spaces (drop len p))))"
  by auto
termination
  by (relation "measure (\<lambda>(name, t, p). 256 - t)") auto

definition look_up_type :: "string \<Rightarrow> string option \<Rightarrow> nat option" where
  "look_up_type name env = (case env of None \<Rightarrow> None | Some p \<Rightarrow> look_up_from name 0 p)"

definition extension_supported :: "string \<Rightarrow> string option \<Rightarrow> bool" where
  "extension_supported name env \<longleftrightarrow> look_up_type name env \<noteq> None"

text \<open>A message is truncated, or has a type beyond the last advertised word.\<close>

definition message_truncated :: "gdm_message \<Rightarrow> bool" where
  "message_truncated m \<longleftrightarrow> gm_length m < HEADER_SIZE"

fun count_words :: "nat \<Rightarrow> int \<Rightarrow> string \<Rightarrow> int" where
  "count_words 0 n p = n"
| "count_words (Suc fuel) n p =
     (if p = [] \<or> n \<ge> 255 then n
      else
        (let len = length (strcspn_space p);
             n' = (if len > 0 then n + 1 else n)
         in count_words fuel n' (skip_spaces (drop len p))))"

definition message_invalid_type :: "gdm_message \<Rightarrow> string option \<Rightarrow> bool" where
  "message_invalid_type m env =
     (case env of
        None \<Rightarrow> True
      | Some p \<Rightarrow> count_words (Suc (length p)) (-1) p < uint (gm_type m))"

section \<open>Messages\<close>

definition name_field :: "string \<Rightarrow> byte list \<Rightarrow> byte list" where
  "name_field name old =
     (let bs = take 63 (bytes_of_string name) in bs @ 0 # drop (Suc (length bs)) old)"

definition custom_json_request_init ::
    "string option \<Rightarrow> string \<Rightarrow> u32 \<Rightarrow> string option \<Rightarrow> gdm_message \<Rightarrow> gdm_message" where
  "custom_json_request_init env name version json m =
     m\<lparr>gm_type := (case look_up_type GDM_PAM_EXTENSION_CUSTOM_JSON env of
                     None \<Rightarrow> gm_type m | Some t \<Rightarrow> word_of_nat t),
       gm_length := GDM_PAM_EXTENSION_CUSTOM_JSON_SIZE,
       gm_protocol_name := name_field name (gm_protocol_name m),
       gm_version := version, gm_json := json\<rparr>"

definition custom_json_response_init ::
    "string option \<Rightarrow> string \<Rightarrow> u32 \<Rightarrow> gdm_message \<Rightarrow> gdm_message" where
  "custom_json_response_init env name version m = custom_json_request_init env name version None m"

definition authd_gdm_request_init :: "string option \<Rightarrow> string \<Rightarrow> gdm_message \<Rightarrow> gdm_message" where
  "authd_gdm_request_init env json m =
     custom_json_request_init env AUTHD_GDM_JSON_PROTO_NAME AUTHD_GDM_JSON_PROTO_VERSION (Some json) m"

definition authd_gdm_message_is_valid :: "gdm_message \<Rightarrow> bool" where
  "authd_gdm_message_is_valid m \<longleftrightarrow> gm_version m = AUTHD_GDM_JSON_PROTO_VERSION \<and>
     strncmp_eq (string_of_bytes (gm_protocol_name m)) AUTHD_GDM_JSON_PROTO_NAME 64"

text \<open>A message from \<^verbatim>\<open>calloc\<close>.\<close>

definition zero_message :: gdm_message where
  "zero_message = \<lparr>gm_length = 0, gm_type = 0, gm_protocol_name = replicate 64 0, gm_version = 0, gm_json = None\<rparr>"

section \<open>Lemmas\<close>

declare look_up_from.simps [simp del]

lemma strncmp_eq_length: "strncmp_eq (w @ a) b (length w) \<longleftrightarrow> take (length w) b = w"
proof (induction w arbitrary: b)
  case (Cons x w)
  then show ?case
    by (cases b) auto
qed simp

lemma strncmp_eq_refl: "strncmp_eq a a n"
proof (induction a arbitrary: n)
  case Nil
  then show ?case
    by (cases n) simp_all
next
  case (Cons x a)
  then show ?case
    by (cases n) simp_all
qed

definition word_ok :: "string \<Rightarrow> bool" where
  "word_ok w \<longleftrightarrow> w \<noteq> [] \<and> CHR 0x20 \<notin> set w"

lemma strcspn_word:
  assumes "word_ok w"
  shows "strcspn_space w = w" "strcspn_space (w @ CHR 0x20 # a) = w"
proof -
  have w: "\<And>c. c \<in> set w \<Longrightarrow> c \<noteq> CHR 0x20"
    using assms by (auto simp: word_ok_def)
  show "strcspn_space w = w"
    using w by (simp add: strcspn_space_def takeWhile_eq_all_conv)
  have "takeWhile (\<lambda>c. c \<noteq> CHR 0x20) (w @ CHR 0x20 # a) = w @ takeWhile (\<lambda>c. c \<noteq> CHR 0x20) (CHR 0x20 # a)"
    using w by (rule takeWhile_append2)
  then show "strcspn_space (w @ CHR 0x20 # a) = w"
    by (simp add: strcspn_space_def)
qed

lemma join_words_start: "word_ok w \<Longrightarrow> skip_spaces (CHR 0x20 # join_words (w # ws)) = join_words (w # ws)"
  by (cases w; cases ws) (auto simp: word_ok_def skip_spaces_def)

lemma look_up_joined:
  assumes "list_all word_ok ws" "i < length ws" "\<forall>j < i. take (length (ws ! j)) (ws ! i) \<noteq> ws ! j" "t + i \<le> 255"
  shows "look_up_from (ws ! i) t (join_words ws) = Some (t + i)"
  using assms
proof (induction ws arbitrary: i t)
  case (Cons w ws)
  let ?name = "(w # ws) ! i"
  obtain a where a: "join_words (w # ws) = w @ a" "strcspn_space (join_words (w # ws)) = w" "w \<noteq> []"
    using Cons.prems(1) by (cases ws) (auto simp: strcspn_word word_ok_def)
  then have hit: "strncmp_eq (join_words (w # ws)) ?name (length w) \<longleftrightarrow> take (length w) ?name = w"
    by (simp add: strncmp_eq_length)
  show ?case
  proof (cases i)
    case 0
    then show ?thesis
      using a hit by (subst look_up_from.simps) (simp add: Let_def)
  next
    case (Suc k)
    then obtain v vs where ws: "ws = v # vs"
      using Cons.prems(2) by (cases ws) auto
    then have rest: "skip_spaces (drop (length w) (join_words (w # ws))) = join_words ws"
      using Cons.prems(1) join_words_start [of v vs] by simp
    have "take (length w) ?name \<noteq> w"
      using Cons.prems(3) Suc by force
    moreover have "\<forall>j < k. take (length (ws ! j)) (ws ! k) \<noteq> ws ! j"
      using Cons.prems(3) Suc by force
    ultimately show ?thesis
      using a hit rest Cons.IH [of k "Suc t"] Cons.prems(1,2,4) Suc
      by (subst look_up_from.simps) (simp add: Let_def)
  qed
qed simp

lemma fitting_words_length: "length (fitting_words bufsize used t ws) + t \<le> 255 \<or> fitting_words bufsize used t ws = []"
proof (induction ws arbitrary: used t)
  case (Cons w ws)
  then show ?case
    using Cons.IH [of "used + (length w + 1)" "Suc t"] by auto
qed simp

section \<open>Properties\<close>

text \<open>
  An extension that has been advertised in the environment is found there under its position, as
  long as no earlier word of the list is a prefix of its name.
\<close>

theorem look_up_advertised:
  assumes "list_all word_ok exts"
    "fitting_words bufsize (length ''GDM_SUPPORTED_PAM_EXTENSIONS'') 0 exts = exts"
    "i < length exts" "\<forall>j < i. take (length (exts ! j)) (exts ! i) \<noteq> exts ! j"
  shows "look_up_type (exts ! i) (advertise_supported_extensions bufsize exts env) = Some i"
  using assms look_up_joined [of exts i 0] fitting_words_length [of bufsize "length ''GDM_SUPPORTED_PAM_EXTENSIONS''" 0 exts]
  by (auto simp: look_up_type_def advertise_supported_extensions_def Let_def)

theorem look_up_advertised_witness:
  "look_up_type GDM_PAM_EXTENSION_CUSTOM_JSON
     (advertise_supported_extensions 4096 [''org.example'', GDM_PAM_EXTENSION_CUSTOM_JSON] None) = Some 1"
  using look_up_advertised [of "[''org.example'', GDM_PAM_EXTENSION_CUSTOM_JSON]" 4096 1 None]
  by (simp add: word_ok_def GDM_PAM_EXTENSION_CUSTOM_JSON_def)

text \<open>An earlier word that is a proper prefix of the name is taken for it.\<close>

lemma look_up_prefix:
  "look_up_type GDM_PAM_EXTENSION_CUSTOM_JSON
     (advertise_supported_extensions 4096 [''org.gnome'', GDM_PAM_EXTENSION_CUSTOM_JSON] None) = Some 0"
  by (simp add: look_up_type_def advertise_supported_extensions_def look_up_from.simps strcspn_space_def
      GDM_PAM_EXTENSION_CUSTOM_JSON_def numeral_eq_Suc Let_def)

text \<open>What the program advertises and builds is what it accepts.\<close>

lemma authd_request_valid:
  assumes "length (gm_protocol_name m) = 64"
  shows "authd_gdm_message_is_valid (authd_gdm_request_init env json m)"
    "\<not> message_truncated (authd_gdm_request_init env json m)"
    "gm_json (authd_gdm_request_init env json m) = Some json"
proof -
  have "string_of_bytes (name_field AUTHD_GDM_JSON_PROTO_NAME old) = AUTHD_GDM_JSON_PROTO_NAME" for old
    using string_of_bytes_of_string [of AUTHD_GDM_JSON_PROTO_NAME]
    by (simp add: name_field_def AUTHD_GDM_JSON_PROTO_NAME_def)
  then show "authd_gdm_message_is_valid (authd_gdm_request_init env json m)"
    by (simp add: strncmp_eq_refl authd_gdm_message_is_valid_def authd_gdm_request_init_def custom_json_request_init_def)
  show "\<not> message_truncated (authd_gdm_request_init env json m)"
    "gm_json (authd_gdm_request_init env json m) = Some json"
    by (simp_all add: message_truncated_def authd_gdm_request_init_def custom_json_request_init_def HEADER_SIZE_def
        GDM_PAM_EXTENSION_CUSTOM_JSON_SIZE_def)
qed

end
