(* ===== verification/Backend.thy ===== *)
theory Backend
  imports Comm
begin

text \<open>
  What the main process relies on in the authentication child, whichever of the two implementations
  (\<^verbatim>\<open>src/pam.c\<close>, \<^verbatim>\<open>src/shadow.c\<close>) the program is built with: the bytes that the child writes are whole
  frames, and a frame that grants access is among them only if a credential has been accepted. The
  locale states this contract; both children are instances. Frames are a prefix-free code, so that a
  reader that has taken whole frames so far sees the frames that were written, however they arrive.
\<close>

section \<open>Frames\<close>

text \<open>The length of a frame fits its header.\<close>

definition short_messages :: "message list \<Rightarrow> bool" where
  "short_messages msgs \<longleftrightarrow> list_all (\<lambda>m. length (snd m) < 2 ^ 32) msgs"

lemma short_messages_simps [simp]:
  "short_messages []"
  "short_messages (m # ms) \<longleftrightarrow> length (snd m) < 2 ^ 32 \<and> short_messages ms"
  "short_messages (xs @ ys) \<longleftrightarrow> short_messages xs \<and> short_messages ys"
  by (simp_all add: short_messages_def)

lemma frame_prefix:
  assumes "frame_bytes m @ a = frame_bytes m' @ b" "length (snd m) < 2 ^ 32" "length (snd m') < 2 ^ 32"
  shows "m = m'" "a = b"
proof -
  have ty: "fst m = fst m'" and
    l: "store_le32 (word_of_nat (length (snd m))) = store_le32 (word_of_nat (length (snd m')))" and
    r: "snd m @ a = snd m' @ b"
    using assms(1) by (auto simp: frame_bytes_def append_eq_append_conv)
  from l have "word_of_nat (length (snd m)) = (word_of_nat (length (snd m')) :: u32)"
    by (metis load_store_le32)
  then have "length (snd m) = length (snd m')"
    using assms(2,3) by (simp add: word_of_nat_eq_iff take_bit_nat_eq_self)
  then show "m = m'" "a = b"
    using ty r by (auto simp: prod_eq_iff)
qed

lemma frame_not_Nil [simp]: "frame_bytes m \<noteq> []"
  by (simp add: frame_bytes_def)

lemma frames_prefix:
  assumes "concat (map frame_bytes xs) @ a = concat (map frame_bytes ms)" "short_messages xs" "short_messages ms"
  shows "\<exists>ys. ms = xs @ ys \<and> a = concat (map frame_bytes ys)"
  using assms
proof (induction xs arbitrary: ms)
  case (Cons x xs)
  obtain m ms' where ms: "ms = m # ms'"
    using Cons.prems(1) by (cases ms) auto
  have "x = m" "concat (map frame_bytes xs) @ a = concat (map frame_bytes ms')"
    using frame_prefix [of x _ m] Cons.prems by (auto simp: ms)
  then show ?case
    using Cons.IH [of ms'] Cons.prems by (simp add: ms)
qed simp

lemma frames_length: "length msgs \<le> length (concat (map frame_bytes msgs))"
  by (induction msgs) (auto simp: frame_bytes_def)

lemma valid_short: "list_all valid_message ms \<Longrightarrow> short_messages ms"
  by (auto simp: short_messages_def valid_message_def list_all_iff)

lemma valid_message_type: "valid_message m \<Longrightarrow> 0 < uint (fst m)"
  using uint_0_iff [of "fst m"] unsigned_greater_eq [of "fst m", where ?'a = int]
  unfolding valid_message_def by linarith

lemma read_full_choices: "set (snd (snd (read_full p sch sz acc))) \<subseteq> set sch"
proof (induction sch arbitrary: p acc)
  case Nil
  then show ?case
    by (simp add: Let_def)
next
  case (Cons c sch)
  then show ?case
    by (auto simp: Let_def split: io_choice.split)
qed

lemma benign_read:
  assumes "benign io"
  shows "benign (snd (comm_read io))"
proof -
  have mem: "False \<notin> set (snd (next_result True (io_mem io)))" "False \<notin> set (io_mem io)"
    using benignD(4) [OF assms] assms by (simp_all add: benign_def)
  have rd: "Fail \<notin> set sch'" if "read_full p sch sz acc = (r, p', sch')" "Fail \<notin> set sch" for p sch sz acc r p' sch'
    using read_full_choices [of p sch sz acc] that by auto
  show ?thesis
    using benignD(1,2) [OF assms] mem
    by (auto simp: comm_read_def benign_def Let_def split: prod.split read_result.split dest!: rd)
qed

section \<open>The contract\<close>

locale auth_backend =
  fixes reaches :: "'c \<Rightarrow> bool"
    and sent :: "'c \<Rightarrow> byte list"
    and accepted :: "'c \<Rightarrow> bool"
  assumes whole_frames: "reaches c \<Longrightarrow> \<exists>msgs. sent c = concat (map frame_bytes msgs) \<and> short_messages msgs \<and>
    (\<forall>body. (COMM_MSG_AUTH_RESULT, 1 # body) \<in> set msgs \<longrightarrow> accepted c)"
begin

text \<open>A reader that has taken frames and finds a granting one next can rely on it.\<close>

lemma grant_accepted:
  assumes "reaches c" "list_all valid_message taken" "valid_message (COMM_MSG_AUTH_RESULT, 1 # body)"
    "concat (map frame_bytes taken) @ frame_bytes (COMM_MSG_AUTH_RESULT, 1 # body) @ rest = sent c"
  shows "accepted c"
proof -
  obtain msgs where m: "sent c = concat (map frame_bytes msgs)" "short_messages msgs"
    "\<forall>body. (COMM_MSG_AUTH_RESULT, 1 # body) \<in> set msgs \<longrightarrow> accepted c"
    using whole_frames [OF assms(1)] by blast
  have "concat (map frame_bytes (taken @ [(COMM_MSG_AUTH_RESULT, 1 # body)])) @ rest = concat (map frame_bytes msgs)"
    using assms(4) m(1) by simp
  from frames_prefix [OF this _ m(2)] have "(COMM_MSG_AUTH_RESULT, 1 # body) \<in> set msgs"
    using valid_short [OF assms(2)] assms(3) by (auto simp: valid_message_def)
  then show ?thesis
    using m(3) by blast
qed

end

end
