(* ===== verification/Pam.thy ===== *)
theory Pam
  imports State Password Gdm Backend
begin

text \<open>
  The authentication child of the build with PAM: \<^verbatim>\<open>src/pam.c\<close>. The child answers the conversation
  of the PAM modules: a prompt with a password from the main process, a binary prompt with JSON that
  translates the requests of authd into messages for the main process and back.

  The PAM library is a parameter: \<open>pam n replies\<close> is what the \<open>n\<close>-th call of \<^verbatim>\<open>pam_authenticate\<close>
  does after the program has given the \<open>replies\<close>: another conversation, or the final status. The JSON
  library is the record \<open>'j json_lib\<close>, which extends the queries with constructors and the printer.
  \<open>io_in\<close> holds all that the main process will ever send; \<open>cv_poll\<close> has the answers of \<^verbatim>\<open>poll\<close>: whether
  something can be read at that moment. A read for which nothing ever comes blocks the child.
\<close>

section \<open>Libraries\<close>

record 'j json_lib = "'j cjson" +
  jl_object :: 'j
  jl_array :: 'j
  jl_add_string :: "'j \<Rightarrow> string \<Rightarrow> string \<Rightarrow> 'j"
  jl_add_number :: "'j \<Rightarrow> string \<Rightarrow> int \<Rightarrow> 'j"
  jl_add_bool :: "'j \<Rightarrow> string \<Rightarrow> bool \<Rightarrow> 'j"
  jl_add_item :: "'j \<Rightarrow> string \<Rightarrow> 'j \<Rightarrow> 'j"
  jl_append :: "'j \<Rightarrow> 'j \<Rightarrow> 'j"
  jl_children :: "'j option \<Rightarrow> 'j list"
  jl_print :: "'j option \<Rightarrow> string option"

definition PAM_SUCCESS :: int where "PAM_SUCCESS = 0"
definition PAM_PERM_DENIED :: int where "PAM_PERM_DENIED = 6"
definition PAM_AUTH_ERR :: int where "PAM_AUTH_ERR = 7"
definition PAM_CRED_INSUFFICIENT :: int where "PAM_CRED_INSUFFICIENT = 8"
definition PAM_AUTHINFO_UNAVAIL :: int where "PAM_AUTHINFO_UNAVAIL = 9"
definition PAM_MAXTRIES :: int where "PAM_MAXTRIES = 11"
definition PAM_ABORT :: int where "PAM_ABORT = 26"

lemmas pam_defs = PAM_SUCCESS_def PAM_PERM_DENIED_def PAM_AUTH_ERR_def PAM_CRED_INSUFFICIENT_def
  PAM_AUTHINFO_UNAVAIL_def PAM_MAXTRIES_def PAM_ABORT_def

datatype pam_message =
  PAM_PROMPT_ECHO_OFF string
| PAM_PROMPT_ECHO_ON string
| PAM_BINARY_PROMPT gdm_message
| PAM_TEXT_INFO string
| PAM_ERROR_MSG string
| PAM_OTHER_STYLE int

datatype pam_response = No_response | Text_response "byte list" | Binary_response gdm_message

text \<open>One answer of the program to a conversation: its status and the array of responses.\<close>

type_synonym conv_reply = "int \<times> pam_response list"

datatype pam_action = Converse "pam_message list" | Finish int

section \<open>State\<close>

definition MAX_PENDING :: nat where "MAX_PENDING = 64"

text \<open>\<open>cv_freed\<close> is the history of the buffers of passwords: their contents when they were freed.\<close>

record 'j conv_state = proc_io +
  cv_pending :: "'j list"
  cv_user_selected_sent :: bool
  cv_username :: string
  cv_env :: "string option"
  cv_poll :: "bool list"
  cv_freed :: "byte list list"

text \<open>A call returns, waits for input that never comes, or breaks the memory of the process.\<close>

datatype 'r call = Value 'r | Blocked | Crash

section \<open>Messages of errors\<close>

fun digits_of :: "nat \<Rightarrow> nat \<Rightarrow> string" where
  "digits_of 0 n = []"
| "digits_of (Suc k) n =
     (if n < 10 then [char_of (48 + n)] else digits_of k (n div 10) @ [char_of (48 + n mod 10)])"

definition decimal :: "int \<Rightarrow> string" where
  "decimal x = (if x < 0 then CHR ''-'' # digits_of 11 (nat (- x)) else digits_of 11 (nat x))"

definition get_pam_auth_error :: "int \<Rightarrow> string" where
  "get_pam_auth_error pam_status =
     (if pam_status = PAM_AUTH_ERR then ''invalid credentials''
      else if pam_status = PAM_PERM_DENIED then
        ''permission denied; check /etc/pam.d/swaylock is installed properly''
      else if pam_status = PAM_CRED_INSUFFICIENT then
        ''swaylock cannot authenticate users; check /etc/pam.d/swaylock has been installed properly''
      else if pam_status = PAM_AUTHINFO_UNAVAIL then ''authentication information unavailable''
      else if pam_status = PAM_MAXTRIES then ''maximum number of authentication tries exceeded''
      else take 63 (''unknown error ('' @ decimal pam_status @ '')''))"

section \<open>Writing to the main process\<close>

text \<open>The program does not look at the result of \<^verbatim>\<open>comm_child_write\<close>.\<close>

definition tell :: "byte \<Rightarrow> byte list \<Rightarrow> 'j conv_state \<Rightarrow> 'j conv_state" where
  "tell ty payload c = snd (comm_child_write c ty (Some payload) (length payload))"

definition tell_json :: "byte \<Rightarrow> string option \<Rightarrow> 'j conv_state \<Rightarrow> 'j conv_state" where
  "tell_json ty json c = (case json of None \<Rightarrow> c | Some s \<Rightarrow> tell ty (bytes_of_string s) c)"

text \<open>Clearing and freeing the payload of a password message.\<close>

definition wipe :: "byte \<Rightarrow> byte list option \<Rightarrow> nat \<Rightarrow> 'j conv_state \<Rightarrow> 'j conv_state" where
  "wipe mtype payload len c =
     (case payload of
        None \<Rightarrow> c
      | Some b \<Rightarrow> if mtype = COMM_MSG_PASSWORD then c\<lparr>cv_freed := cv_freed c @ [clear_buffer b len]\<rparr> else c)"

section \<open>JSON of the program\<close>

definition typed :: "('j, 'm) json_lib_scheme \<Rightarrow> string \<Rightarrow> 'j" where
  "typed J t = jl_add_string J (jl_object J) ''type'' t"

definition hello_response :: "('j, 'm) json_lib_scheme \<Rightarrow> 'j" where
  "hello_response J =
     jl_add_item J (typed J ''hello'') ''hello'' (jl_add_number J (jl_object J) ''version'' 1)"

definition entry_kinds :: string where
  "entry_kinds = ''optional:chars,chars_password,digits,digits_password''"

definition form_layout :: "('j, 'm) json_lib_scheme \<Rightarrow> 'j" where
  "form_layout J =
     jl_add_string J (jl_add_string J (jl_add_string J (jl_add_string J (typed J ''form'')
       ''label'' ''required'') ''entry'' entry_kinds) ''wait'' ''optional:true,false'') ''button'' ''optional''"

definition newpassword_layout :: "('j, 'm) json_lib_scheme \<Rightarrow> 'j" where
  "newpassword_layout J =
     jl_add_string J (jl_add_string J (jl_add_string J (typed J ''newpassword'')
       ''label'' ''required'') ''entry'' entry_kinds) ''button'' ''optional''"

definition qrcode_layout :: "('j, 'm) json_lib_scheme \<Rightarrow> 'j" where
  "qrcode_layout J =
     jl_add_bool J (jl_add_string J (jl_add_string J (jl_add_string J (jl_add_string J (jl_add_string J
       (typed J ''qrcode'') ''content'' ''required'') ''code'' ''optional'')
       ''wait'' ''required:true,false'') ''label'' ''optional'') ''button'' ''optional'')
       ''rendersQrcode'' True"

definition capabilities_response :: "('j, 'm) json_lib_scheme \<Rightarrow> 'j" where
  "capabilities_response J =
     (let layouts = jl_append J (jl_append J (jl_append J (jl_array J) (form_layout J))
                      (newpassword_layout J)) (qrcode_layout J);
          caps = jl_add_item J (jl_object J) ''supportedUiLayouts'' layouts;
          resp_obj = jl_add_item J (typed J ''uiLayoutCapabilities'') ''uiLayoutCapabilities'' caps
      in jl_add_item J (typed J ''response'') ''response'' resp_obj)"

definition request_response :: "('j, 'm) json_lib_scheme \<Rightarrow> 'j \<Rightarrow> 'j" where
  "request_response J doc =
     (let req = js_object_item J (Some doc) ''request'';
          req_type = js_object_item J req ''type''
      in if cjson_string J req_type = Some ''uiLayoutCapabilities'' then capabilities_response J
         else typed J ''eventAck'')"

text \<open>The members \<open>id\<close> and \<open>other\<close> of every element, as far as they are strings.\<close>

definition summary :: "('j, 'm) json_lib_scheme \<Rightarrow> string \<Rightarrow> 'j \<Rightarrow> 'j" where
  "summary J other b =
     (let add = (\<lambda>key entry. case cjson_string J (js_object_item J (Some b) key) of
                   None \<Rightarrow> entry | Some v \<Rightarrow> jl_add_string J entry key v)
      in add other (add ''id'' (jl_object J)))"

definition summaries :: "('j, 'm) json_lib_scheme \<Rightarrow> string \<Rightarrow> 'j option \<Rightarrow> 'j" where
  "summaries J other infos =
     foldl (jl_append J) (jl_array J) (map (summary J other) (jl_children J infos))"

definition stage_byte :: "string option \<Rightarrow> byte" where
  "stage_byte stage =
     (if stage = Some ''brokerSelection'' then 1
      else if stage = Some ''authModeSelection'' then 2
      else if stage = Some ''challenge'' then 3
      else 0)"

text \<open>The branch for events: what each kind makes the program tell the main process.\<close>

definition on_event :: "('j, 'm) json_lib_scheme \<Rightarrow> 'j \<Rightarrow> 'j conv_state \<Rightarrow> 'j conv_state" where
  "on_event J doc c =
     (let event = js_object_item J (Some doc) ''event'';
          etype = (case cjson_string J (js_object_item J event ''type'') of None \<Rightarrow> [] | Some t \<Rightarrow> t);
          member = (\<lambda>key. js_object_item J event key)
      in if etype = ''brokersReceived'' then
           tell_json COMM_MSG_BROKERS (jl_print J (Some (summaries J ''name'' (member ''brokersInfos'')))) c
         else if etype = ''authModesReceived'' then
           tell_json COMM_MSG_AUTH_MODES (jl_print J (Some (summaries J ''label'' (member ''authModes'')))) c
         else if etype = ''uiLayoutReceived'' then
           tell_json COMM_MSG_UI_LAYOUT (jl_print J (member ''uiLayout'')) c
         else if etype = ''stageChanged'' then
           tell COMM_MSG_STAGE [stage_byte (cjson_string J (member ''stage''))] c
         else if etype = ''startAuthentication'' then tell COMM_MSG_STAGE [3] c
         else if etype = ''authEvent'' then
           (case member ''response'' of
              None \<Rightarrow> c
            | Some r \<Rightarrow> tell_json COMM_MSG_AUTH_EVENT (jl_print J (Some r)) c)
         else c)"

section \<open>The poll request\<close>

text \<open>Storing an event in the array of 64 pointers: past its end the memory of the child is broken.\<close>

definition push_pending :: "'j \<Rightarrow> 'j conv_state \<Rightarrow> 'j conv_state option" where
  "push_pending e c =
     (if length (cv_pending c) < MAX_PENDING then Some (c\<lparr>cv_pending := cv_pending c @ [e]\<rparr>) else None)"

definition payload_text :: "byte list option \<Rightarrow> string" where
  "payload_text payload = (case payload of None \<Rightarrow> [] | Some b \<Rightarrow> string_of_bytes b)"

definition event_of_message :: "('j, 'm) json_lib_scheme \<Rightarrow> byte \<Rightarrow> byte list option \<Rightarrow> 'j option" where
  "event_of_message J mtype payload =
     (let nested = (\<lambda>t inner. jl_add_item J (typed J t) t inner)
      in if mtype = COMM_MSG_BROKER_SEL then
           Some (nested ''brokerSelected'' (jl_add_string J (jl_object J) ''brokerId'' (payload_text payload)))
         else if mtype = COMM_MSG_AUTH_MODE_SEL then
           Some (nested ''authModeSelected'' (jl_add_string J (jl_object J) ''authModeId'' (payload_text payload)))
         else if mtype = COMM_MSG_BUTTON then Some (nested ''reselectAuthMode'' (jl_object J))
         else if mtype = COMM_MSG_CANCEL then Some (nested ''isAuthenticatedCancelled'' (jl_object J))
         else if mtype = COMM_MSG_PASSWORD then
           Some (nested ''isAuthenticatedRequested''
             (jl_add_item J (jl_object J) ''authenticationData''
               (jl_add_string J (jl_object J) ''secret'' (payload_text payload))))
         else None)"

text \<open>The loop takes one answer of \<^verbatim>\<open>poll\<close> in each round; without a further answer nothing can be read.\<close>

fun poll_loop :: "('j, 'm) json_lib_scheme \<Rightarrow> bool list \<Rightarrow> 'j conv_state \<Rightarrow> unit call \<times> 'j conv_state" where
  "poll_loop J [] c = (Value (), c\<lparr>cv_poll := []\<rparr>)"
| "poll_loop J (available # polls) c =
     (if length (cv_pending c) \<ge> MAX_PENDING then (Value (), c\<lparr>cv_poll := available # polls\<rparr>)
      else if \<not> available then (Value (), c\<lparr>cv_poll := polls\<rparr>)
      else case comm_child_read c of
             (CommBlocked, c1) \<Rightarrow> (Blocked, c1)
           | (CommRet mtype payload len, c1) \<Rightarrow>
               (if mtype \<le> 0 then (Value (), c1\<lparr>cv_poll := polls\<rparr>)
                else case event_of_message J (word_of_int mtype) payload of
                       None \<Rightarrow> poll_loop J polls (wipe (word_of_int mtype) payload len c1)
                     | Some e \<Rightarrow>
                         (case push_pending e (wipe (word_of_int mtype) payload len c1) of
                            None \<Rightarrow> (Crash, c1)
                          | Some c2 \<Rightarrow> poll_loop J polls c2)))"

definition user_selected :: "('j, 'm) json_lib_scheme \<Rightarrow> string \<Rightarrow> 'j" where
  "user_selected J username =
     jl_add_item J (typed J ''userSelected'') ''userSelected''
       (jl_add_string J (jl_object J) ''userId'' username)"

definition announce_user :: "('j, 'm) json_lib_scheme \<Rightarrow> 'j conv_state \<Rightarrow> 'j conv_state option" where
  "announce_user J c =
     (if cv_user_selected_sent c then Some c
      else map_option (\<lambda>c. c\<lparr>cv_user_selected_sent := True\<rparr>)
             (push_pending (user_selected J (cv_username c)) c))"

definition on_poll :: "('j, 'm) json_lib_scheme \<Rightarrow> 'j conv_state \<Rightarrow> 'j call \<times> 'j conv_state" where
  "on_poll J c =
     (case announce_user J c of
        None \<Rightarrow> (Crash, c)
      | Some c1 \<Rightarrow>
          (case poll_loop J (cv_poll c1) c1 of
             (Blocked, c2) \<Rightarrow> (Blocked, c2)
           | (Crash, c2) \<Rightarrow> (Crash, c2)
           | (Value _, c2) \<Rightarrow>
               (Value (jl_add_item J (typed J ''pollResponse'') ''pollResponse''
                         (foldl (jl_append J) (jl_array J) (cv_pending c2))),
                c2\<lparr>cv_pending := []\<rparr>)))"

section \<open>Requests in JSON\<close>

text \<open>The result is the response as text; \<open>None\<close> is the null pointer.\<close>

definition handle_gdm_json ::
    "('j, 'm) json_lib_scheme \<Rightarrow> string option \<Rightarrow> 'j conv_state \<Rightarrow> string option call \<times> 'j conv_state" where
  "handle_gdm_json J json_in c =
     (case js_parse J (map_option bytes_of_string json_in) of
        None \<Rightarrow> (Value None, c)
      | Some doc \<Rightarrow>
          (case cjson_string J (js_object_item J (Some doc) ''type'') of
             None \<Rightarrow> (Value None, c)
           | Some type \<Rightarrow>
               (if type = ''hello'' then (Value (jl_print J (Some (hello_response J))), c)
                else if type = ''request'' then (Value (jl_print J (Some (request_response J doc))), c)
                else if type = ''event'' then
                  (Value (jl_print J (Some (typed J ''eventAck''))), on_event J doc c)
                else if type = ''poll'' then
                  (case on_poll J c of
                     (Value r, c1) \<Rightarrow> (Value (jl_print J (Some r)), c1)
                   | (Blocked, c1) \<Rightarrow> (Blocked, c1)
                   | (Crash, c1) \<Rightarrow> (Crash, c1))
                else (Value (jl_print J (Some (typed J ''eventAck''))), c))))"

section \<open>The conversation\<close>

text \<open>
  Waiting for a password: messages of other kinds are dropped. \<open>n\<close> bounds the number of messages;
  every message takes at least five bytes of the input, so its length is enough. The result is the
  C string in the payload, \<open>None\<close> for end of file and errors; a password message without payload
  makes the program read through a null pointer.
\<close>

fun await_password :: "nat \<Rightarrow> 'j conv_state \<Rightarrow> byte list option call \<times> 'j conv_state" where
  "await_password 0 c = (Blocked, c)"
| "await_password (Suc n) c =
     (case comm_child_read c of
        (CommBlocked, c1) \<Rightarrow> (Blocked, c1)
      | (CommRet ty payload len, c1) \<Rightarrow>
          (if ty \<le> 0 then (Value None, c1)
           else if word_of_int ty \<noteq> COMM_MSG_PASSWORD then await_password n c1
           else case payload of
                  None \<Rightarrow> (Crash, c1)
                | Some b \<Rightarrow> (Value (Some (cstr b)), wipe COMM_MSG_PASSWORD payload len c1)))"

definition answer_prompt :: "'j conv_state \<Rightarrow> pam_response option call \<times> 'j conv_state" where
  "answer_prompt c =
     (case await_password (Suc (length (pipe_data (io_in c)))) (tell COMM_MSG_STAGE [3] c) of
        (Blocked, c1) \<Rightarrow> (Blocked, c1)
      | (Crash, c1) \<Rightarrow> (Crash, c1)
      | (Value None, c1) \<Rightarrow> (Value None, c1)
      | (Value (Some pw), c1) \<Rightarrow>
          (let (ok, mem') = next_result True (io_mem c1); c2 = c1\<lparr>io_mem := mem'\<rparr>
           in (Value (if ok then Some (Text_response pw) else None), c2)))"

definition answer_binary ::
    "('j, 'm) json_lib_scheme \<Rightarrow> gdm_message \<Rightarrow> 'j conv_state \<Rightarrow> pam_response option call \<times> 'j conv_state" where
  "answer_binary J ext c =
     (if \<not> authd_gdm_message_is_valid ext then (Value None, c)
      else case handle_gdm_json J (gm_json ext) c of
        (Blocked, c1) \<Rightarrow> (Blocked, c1)
      | (Crash, c1) \<Rightarrow> (Crash, c1)
      | (Value None, c1) \<Rightarrow> (Value None, c1)
      | (Value (Some response), c1) \<Rightarrow>
          (let (ok, mem') = next_result True (io_mem c1); c2 = c1\<lparr>io_mem := mem'\<rparr>
           in (Value (if ok then Some (Binary_response (authd_gdm_request_init (cv_env c2) response zero_message))
                      else None), c2)))"

text \<open>The answer to one message; \<open>None\<close> aborts the conversation.\<close>

definition answer ::
    "('j, 'm) json_lib_scheme \<Rightarrow> pam_message \<Rightarrow> 'j conv_state \<Rightarrow> pam_response option call \<times> 'j conv_state" where
  "answer J m c =
     (case m of
        PAM_PROMPT_ECHO_OFF _ \<Rightarrow> answer_prompt c
      | PAM_PROMPT_ECHO_ON _ \<Rightarrow> answer_prompt c
      | PAM_BINARY_PROMPT ext \<Rightarrow> answer_binary J ext c
      | _ \<Rightarrow> (Value (Some No_response), c))"

fun conversation_loop ::
    "('j, 'm) json_lib_scheme \<Rightarrow> pam_message list \<Rightarrow> 'j conv_state \<Rightarrow> conv_reply call \<times> 'j conv_state" where
  "conversation_loop J [] c = (Value (PAM_SUCCESS, []), c)"
| "conversation_loop J (m # ms) c =
     (case answer J m c of
        (Blocked, c1) \<Rightarrow> (Blocked, c1)
      | (Crash, c1) \<Rightarrow> (Crash, c1)
      | (Value None, c1) \<Rightarrow> (Value (PAM_ABORT, replicate (Suc (length ms)) No_response), c1)
      | (Value (Some r), c1) \<Rightarrow>
          (case conversation_loop J ms c1 of
             (Value (status, rs), c2) \<Rightarrow> (Value (status, r # rs), c2)
           | (Blocked, c2) \<Rightarrow> (Blocked, c2)
           | (Crash, c2) \<Rightarrow> (Crash, c2)))"

definition handle_conversation ::
    "('j, 'm) json_lib_scheme \<Rightarrow> pam_message list \<Rightarrow> 'j conv_state \<Rightarrow> conv_reply call \<times> 'j conv_state" where
  "handle_conversation J msgs c =
     (let (ok, mem') = next_result True (io_mem c); c1 = c\<lparr>io_mem := mem'\<rparr>
      in if \<not> ok then (Value (PAM_ABORT, []), c1) else conversation_loop J msgs c1)"

section \<open>The course of the child\<close>

datatype child_phase =
  Authenticating "conv_reply list"
| Waiting
| Crashed
| Exited int

text \<open>A configuration: the phase, the results of the finished calls of \<^verbatim>\<open>pam_authenticate\<close>, the state.\<close>

type_synonym 'j child = "child_phase \<times> int list \<times> 'j conv_state"

record child_env =
  ce_authd_socket :: bool
  ce_user :: "string option"
  ce_pam_start :: bool
  ce_pam_end :: bool

definition exit_code :: "child_env \<Rightarrow> int \<Rightarrow> int" where
  "exit_code w status = (if \<not> ce_pam_end w then 1 else if status = PAM_SUCCESS then 0 else 1)"

definition run_pw_backend_child :: "child_env \<Rightarrow> 'j conv_state \<Rightarrow> 'j child" where
  "run_pw_backend_child w c =
     (let c1 = (if ce_authd_socket w then c\<lparr>cv_env := authd_gdm_advertise_extensions (cv_env c)\<rparr> else c)
      in case ce_user w of
           None \<Rightarrow> (Exited 1, [], c1)
         | Some username \<Rightarrow>
             (let c2 = c1\<lparr>cv_username := username, cv_pending := [], cv_user_selected_sent := False\<rparr>
              in if \<not> ce_pam_start w then (Exited 1, [], c2) else (Authenticating [], [], c2)))"

text \<open>One step: a conversation that the module asks for, or the verdict on a finished attempt.\<close>

definition report_verdict :: "child_env \<Rightarrow> int \<Rightarrow> int list \<Rightarrow> 'j conv_state \<Rightarrow> 'j child" where
  "report_verdict w status sts c =
     (if status = PAM_AUTH_ERR then Authenticating [] else Exited (exit_code w status),
      sts @ [status],
      tell COMM_MSG_AUTH_RESULT [if status = PAM_SUCCESS then 1 else 0] c)"

fun child_next ::
    "('j, 'm) json_lib_scheme \<Rightarrow> (nat \<Rightarrow> conv_reply list \<Rightarrow> pam_action) \<Rightarrow> child_env \<Rightarrow> 'j child \<Rightarrow> 'j child option" where
  "child_next J pam w (Authenticating replies, sts, c) =
     Some (case pam (length sts) replies of
             Finish status \<Rightarrow> report_verdict w status sts c
           | Converse msgs \<Rightarrow>
               (case handle_conversation J msgs c of
                  (Value r, c1) \<Rightarrow> (Authenticating (replies @ [r]), sts, c1)
                | (Blocked, c1) \<Rightarrow> (Waiting, sts, c1)
                | (Crash, c1) \<Rightarrow> (Crashed, sts, c1)))"
| "child_next J pam w (_, sts, c) = None"

inductive child_reaches ::
    "('j, 'm) json_lib_scheme \<Rightarrow> (nat \<Rightarrow> conv_reply list \<Rightarrow> pam_action) \<Rightarrow> child_env \<Rightarrow> 'j conv_state \<Rightarrow> 'j child \<Rightarrow> bool"
  for J pam w c0 where
  child_start: "child_reaches J pam w c0 (run_pw_backend_child w c0)"
| child_step: "child_reaches J pam w c0 x \<Longrightarrow> child_next J pam w x = Some y \<Longrightarrow> child_reaches J pam w c0 y"

text \<open>The first \<open>n\<close> steps.\<close>

fun child_run ::
    "('j, 'm) json_lib_scheme \<Rightarrow> (nat \<Rightarrow> conv_reply list \<Rightarrow> pam_action) \<Rightarrow> child_env \<Rightarrow> nat \<Rightarrow> 'j child \<Rightarrow> 'j child" where
  "child_run J pam w 0 x = x"
| "child_run J pam w (Suc n) x = (case child_next J pam w x of None \<Rightarrow> x | Some y \<Rightarrow> child_run J pam w n y)"

lemma child_run_reaches: "child_reaches J pam w c0 x \<Longrightarrow> child_reaches J pam w c0 (child_run J pam w n x)"
proof (induction n arbitrary: x)
  case (Suc n)
  show ?case
  proof (cases "child_next J pam w x")
    case (Some y)
    then show ?thesis
      using Suc.IH [OF child_step [OF Suc.prems Some]] by simp
  qed (use Suc.prems in simp)
qed simp

section \<open>Specification\<close>

text \<open>The verdicts among the messages are one for each finished attempt, in order, with the right byte.\<close>

definition verdict :: "int \<Rightarrow> message" where
  "verdict status = (COMM_MSG_AUTH_RESULT, [if status = PAM_SUCCESS then 1 else 0])"

definition verdicts_of :: "message list \<Rightarrow> message list" where
  "verdicts_of msgs = filter (\<lambda>m. fst m = COMM_MSG_AUTH_RESULT) msgs"

text \<open>What a computation of the child has told the main process.\<close>

definition says :: "message list \<Rightarrow> 'j conv_state \<Rightarrow> 'j conv_state \<Rightarrow> bool" where
  "says msgs c c' \<longleftrightarrow> benign c' \<and> pipe_data (io_out c') = pipe_data (io_out c) @ concat (map frame_bytes msgs)"

text \<open>The JSON library keeps its texts below the size that fits the header of a frame.\<close>

definition printer_ok :: "('j, 'm) json_lib_scheme \<Rightarrow> bool" where
  "printer_ok J \<longleftrightarrow> (\<forall>v text_v. jl_print J v = Some text_v \<longrightarrow> length text_v < 2 ^ 32)"

text \<open>It has told nothing that is a verdict.\<close>

definition no_verdict :: "'j conv_state \<Rightarrow> 'j conv_state \<Rightarrow> bool" where
  "no_verdict c c' \<longleftrightarrow> (\<exists>msgs. says msgs c c' \<and> verdicts_of msgs = [] \<and> short_messages msgs)"

section \<open>A concrete run\<close>

text \<open>Values of JSON and a library on them that reads no text, for concrete runs.\<close>

datatype json_value =
  JObject "(string \<times> json_value) list"
| JArray "json_value list"
| JString string
| JNumber int
| JBool bool

fun json_put :: "json_value \<Rightarrow> string \<Rightarrow> json_value \<Rightarrow> json_value" where
  "json_put (JObject kvs) k v = JObject (kvs @ [(k, v)])"
| "json_put v _ _ = v"

definition sample_json :: "json_value json_lib" where
  "sample_json =
     \<lparr>js_parse = (\<lambda>_. None), js_is_array = (\<lambda>v. case v of JArray _ \<Rightarrow> True | _ \<Rightarrow> False),
      js_array_size = (\<lambda>v. case v of JArray vs \<Rightarrow> length vs | _ \<Rightarrow> 0),
      js_array_item = (\<lambda>v i. case v of JArray vs \<Rightarrow> if i < length vs then Some (vs ! i) else None | _ \<Rightarrow> None),
      js_object_item = (\<lambda>v k. case v of Some (JObject kvs) \<Rightarrow> map_of kvs k | _ \<Rightarrow> None),
      js_string_value = (\<lambda>v. case v of JString t \<Rightarrow> Some t | _ \<Rightarrow> None),
      jl_object = JObject [], jl_array = JArray [],
      jl_add_string = (\<lambda>v k t. json_put v k (JString t)), jl_add_number = (\<lambda>v k n. json_put v k (JNumber n)),
      jl_add_bool = (\<lambda>v k b. json_put v k (JBool b)), jl_add_item = json_put,
      jl_append = (\<lambda>v x. case v of JArray vs \<Rightarrow> JArray (vs @ [x]) | _ \<Rightarrow> v),
      jl_children = (\<lambda>v. case v of Some (JArray vs) \<Rightarrow> vs | _ \<Rightarrow> []), jl_print = (\<lambda>_. None)\<rparr>"

text \<open>A module that asks for a password once and accepts the letter a.\<close>

definition sample_pam :: "nat \<Rightarrow> conv_reply list \<Rightarrow> pam_action" where
  "sample_pam n replies =
     (case replies of
        [] \<Rightarrow> Converse [PAM_PROMPT_ECHO_OFF ''Password: '']
      | (_, rs) # _ \<Rightarrow> Finish (if rs = [Text_response [0x61]] then PAM_SUCCESS else PAM_AUTH_ERR))"

definition sample_child_env :: child_env where
  "sample_child_env = \<lparr>ce_authd_socket = False, ce_user = Some ''me'', ce_pam_start = True, ce_pam_end = True\<rparr>"

definition sample_conv :: "message list \<Rightarrow> json_value conv_state" where
  "sample_conv msgs =
     \<lparr>io_in = \<lparr>pipe_data = concat (map frame_bytes msgs), pipe_wopen = True\<rparr>,
      io_out = \<lparr>pipe_data = [], pipe_wopen = True\<rparr>,
      io_rd = [Chunk 0, Eintr, Chunk 2], io_wr = [Eintr, Chunk 1], io_mem = [], io_mlock = [],
      io_mlock_supported = True, cv_pending = [], cv_user_selected_sent = False, cv_username = [],
      cv_env = None, cv_poll = replicate (length msgs) True @ [False], cv_freed = []\<rparr>"

section \<open>Lemmas on reading and writing\<close>

lemma out_read: "io_out (snd (comm_read io)) = io_out io"
  by (simp add: comm_read_def Let_def split: prod.split read_result.split)

lemma says_refl: "benign c \<Longrightarrow> says [] c c"
  by (simp add: says_def)

lemma says_trans: "says ms c c' \<Longrightarrow> says ms' c' c'' \<Longrightarrow> says (ms @ ms') c c''"
  by (simp add: says_def)

lemma wipe_fields [simp]:
  "io_in (wipe mt b n c) = io_in c" "io_out (wipe mt b n c) = io_out c" "io_rd (wipe mt b n c) = io_rd c"
  "io_wr (wipe mt b n c) = io_wr c" "io_mem (wipe mt b n c) = io_mem c"
  "cv_pending (wipe mt b n c) = cv_pending c" "cv_poll (wipe mt b n c) = cv_poll c"
  "cv_user_selected_sent (wipe mt b n c) = cv_user_selected_sent c"
  "benign (wipe mt b n c) = benign c"
  by (simp_all add: wipe_def benign_def split: option.split)

lemma says_tell: "benign c \<Longrightarrow> says [(ty, payload)] c (tell ty payload c)"
  using comm_write_benign [of c ty payload]
  by (auto simp: says_def tell_def comm_child_write_def benign_def)

lemma no_verdict_refl: "benign c \<Longrightarrow> no_verdict c c"
  unfolding no_verdict_def by (intro exI [of _ "[]"]) (simp add: says_refl verdicts_of_def short_messages_def)

lemma no_verdict_trans:
  assumes "no_verdict c c'" "no_verdict c' c''"
  shows "no_verdict c c''"
proof -
  obtain ms ms' where "says ms c c'" "verdicts_of ms = []" "short_messages ms"
    "says ms' c' c''" "verdicts_of ms' = []" "short_messages ms'"
    using assms by (auto simp: no_verdict_def)
  then show ?thesis
    unfolding no_verdict_def using says_trans
    by (intro exI [of _ "ms @ ms'"]) (auto simp: verdicts_of_def short_messages_def)
qed

lemma no_verdict_benign: "no_verdict c c' \<Longrightarrow> benign c'"
  by (auto simp: no_verdict_def says_def)

lemma no_verdict_same:
  "no_verdict c c' \<Longrightarrow> io_out c'' = io_out c' \<Longrightarrow> benign c'' \<Longrightarrow> no_verdict c c''"
  by (auto simp: no_verdict_def says_def)

lemma no_verdict_wipe [simp]: "no_verdict c (wipe mt b n c') = no_verdict c c'"
  by (simp add: no_verdict_def says_def)

lemma no_verdict_tell:
  "benign c \<Longrightarrow> ty \<noteq> COMM_MSG_AUTH_RESULT \<Longrightarrow> length payload < 2 ^ 32 \<Longrightarrow> no_verdict c (tell ty payload c)"
  unfolding no_verdict_def
  by (intro exI [of _ "[(ty, payload)]"]) (simp add: says_tell verdicts_of_def short_messages_def)

lemma no_verdict_read:
  assumes "benign c" "comm_child_read c = (r, c')"
  shows "no_verdict c c'"
  using no_verdict_same [OF no_verdict_refl [OF assms(1)], of c'] benign_read [OF assms(1)] out_read [of c] assms(2)
  by (simp add: comm_child_read_def)

lemma no_verdict_mem:
  assumes "benign c" "next_result True (io_mem c) = (ok, mem)"
  shows "no_verdict c (c\<lparr>io_mem := mem\<rparr>)"
proof (rule no_verdict_same [OF no_verdict_refl [OF assms(1)]])
  show "benign (c\<lparr>io_mem := mem\<rparr>)"
    using benignD(4) [OF assms(1)] assms by (simp add: benign_def)
qed simp

lemma no_verdict_fields [simp]:
  "no_verdict c (c'\<lparr>cv_pending := x\<rparr>) = no_verdict c c'"
  "no_verdict c (c'\<lparr>cv_poll := y\<rparr>) = no_verdict c c'"
  "no_verdict c (c'\<lparr>cv_user_selected_sent := z\<rparr>) = no_verdict c c'"
  by (simp_all add: no_verdict_def says_def benign_def)

lemma no_verdict_tell_json:
  "printer_ok J \<Longrightarrow> benign c \<Longrightarrow> ty \<noteq> COMM_MSG_AUTH_RESULT \<Longrightarrow> no_verdict c (tell_json ty (jl_print J v) c)"
  by (simp add: tell_json_def no_verdict_refl no_verdict_tell printer_ok_def split: option.split)

section \<open>The conversation tells no verdict\<close>

lemma no_verdict_event: "printer_ok J \<Longrightarrow> benign c \<Longrightarrow> no_verdict c (on_event J doc c)"
proof -
  assume b: "printer_ok J" "benign c"
  have ne: "COMM_MSG_BROKERS \<noteq> COMM_MSG_AUTH_RESULT" "COMM_MSG_AUTH_MODES \<noteq> COMM_MSG_AUTH_RESULT"
    "COMM_MSG_UI_LAYOUT \<noteq> COMM_MSG_AUTH_RESULT" "COMM_MSG_STAGE \<noteq> COMM_MSG_AUTH_RESULT"
    "COMM_MSG_AUTH_EVENT \<noteq> COMM_MSG_AUTH_RESULT"
    by (simp_all add: comm_msg_defs)
  show ?thesis
    using b by (simp add: on_event_def Let_def no_verdict_refl no_verdict_tell no_verdict_tell_json ne split: option.split)
qed

lemma no_verdict_push: "push_pending e c' = Some c'' \<Longrightarrow> no_verdict c c'' = no_verdict c c'"
  by (auto simp: push_pending_def split: if_splits)

lemma no_verdict_poll_loop: "benign c \<Longrightarrow> no_verdict c (snd (poll_loop J polls c))"
proof (induction polls arbitrary: c)
  case Nil
  then show ?case
    by (simp add: no_verdict_refl)
next
  case (Cons b polls)
  obtain r c1 where r: "comm_child_read c = (r, c1)"
    by (cases "comm_child_read c")
  have 1: "no_verdict c c1"
    using Cons.prems r by (rule no_verdict_read)
  have push: "no_verdict c c2" if "push_pending e (wipe mt p n c1) = Some c2" for e c2 mt p n
    using 1 no_verdict_push [OF that] by simp
  have rec: "no_verdict c (snd (poll_loop J polls c2))" if "no_verdict c c2" for c2
    using no_verdict_trans [OF that Cons.IH [OF no_verdict_benign [OF that]]] .
  show ?case
    using Cons.prems r 1 rec push
    by (auto simp: no_verdict_refl split: comm_result.split option.split)
qed

lemma no_verdict_poll: "benign c \<Longrightarrow> no_verdict c (snd (on_poll J c))"
proof -
  assume b: "benign c"
  have a: "no_verdict c c1" if "announce_user J c = Some c1" for c1
    using that b by (auto simp: announce_user_def no_verdict_refl no_verdict_push split: if_splits)
  have "no_verdict c (snd (poll_loop J (cv_poll c1) c1))" if "announce_user J c = Some c1" for c1
    using no_verdict_trans [OF a [OF that] no_verdict_poll_loop [OF no_verdict_benign [OF a [OF that]]]] .
  then show ?thesis
    using b by (auto simp: on_poll_def no_verdict_refl split: option.split prod.split call.split)
qed

lemma no_verdict_gdm: "printer_ok J \<Longrightarrow> benign c \<Longrightarrow> no_verdict c (snd (handle_gdm_json J json c))"
  using no_verdict_poll [of c J]
  by (auto simp: handle_gdm_json_def no_verdict_refl no_verdict_event split: option.split prod.split call.split)

lemma no_verdict_await: "benign c \<Longrightarrow> no_verdict c (snd (await_password n c))"
proof (induction n arbitrary: c)
  case 0
  then show ?case
    by (simp add: no_verdict_refl)
next
  case (Suc n)
  obtain r c1 where r: "comm_child_read c = (r, c1)"
    by (cases "comm_child_read c")
  have 1: "no_verdict c c1"
    using Suc.prems r by (rule no_verdict_read)
  show ?case
    using r 1 no_verdict_trans [OF 1 Suc.IH [OF no_verdict_benign [OF 1]]]
    by (auto split: comm_result.split option.split)
qed

lemma no_verdict_answer: "printer_ok J \<Longrightarrow> benign c \<Longrightarrow> no_verdict c (snd (answer J m c))"
proof -
  assume j: "printer_ok J" and b: "benign c"
  have mem: "no_verdict c (c1\<lparr>io_mem := mem\<rparr>)" if "no_verdict c c1" "next_result True (io_mem c1) = (ok, mem)" for c1 mem ok
    using no_verdict_trans [OF that(1) no_verdict_mem [OF no_verdict_benign [OF that(1)] that(2)]] .
  have wrap: "no_verdict c (snd (case x of
        (Blocked, c1) \<Rightarrow> (Blocked, c1)
      | (Crash, c1) \<Rightarrow> (Crash, c1)
      | (Value None, c1) \<Rightarrow> (Value None, c1)
      | (Value (Some y), c1) \<Rightarrow>
          (let (ok, mem') = next_result True (io_mem c1); c2 = c1\<lparr>io_mem := mem'\<rparr>
           in (Value (if ok then Some (f c2 y) else None), c2))))" if "no_verdict c (snd x)" for x f
  proof -
    obtain r c1 ok mem' where x: "x = (r, c1)" "next_result True (io_mem c1) = (ok, mem')"
      by (metis surj_pair)
    show ?thesis
      using that mem x by (auto simp: Let_def split: call.split option.split)
  qed
  have "COMM_MSG_STAGE \<noteq> COMM_MSG_AUTH_RESULT"
    by (simp add: comm_msg_defs)
  then have t: "no_verdict c (tell COMM_MSG_STAGE [3] c)"
    using b by (simp add: no_verdict_tell)
  have "no_verdict c (snd (await_password n (tell COMM_MSG_STAGE [3] c)))" for n
    using no_verdict_trans [OF t no_verdict_await [OF no_verdict_benign [OF t]]] .
  then have p: "no_verdict c (snd (answer_prompt c))"
    unfolding answer_prompt_def by (rule wrap) 
  have q: "no_verdict c (snd (answer_binary J ext c))" for ext
    using b no_verdict_gdm [OF j b, of "gm_json ext"] unfolding answer_binary_def
    by (auto simp: no_verdict_refl intro: wrap)
  show ?thesis
    using b p q by (simp add: answer_def no_verdict_refl split: pam_message.split)
qed

lemma no_verdict_conversation_loop: "printer_ok J \<Longrightarrow> benign c \<Longrightarrow> no_verdict c (snd (conversation_loop J ms c))"
proof (induction ms arbitrary: c)
  case Nil
  then show ?case
    by (simp add: no_verdict_refl)
next
  case (Cons m ms)
  obtain r c1 where r: "answer J m c = (r, c1)"
    by (cases "answer J m c")
  have 1: "no_verdict c c1"
    using no_verdict_answer [OF Cons.prems, of m] r by simp
  have "no_verdict c (snd (conversation_loop J ms c1))"
    using no_verdict_trans [OF 1 Cons.IH [OF Cons.prems(1) no_verdict_benign [OF 1]]] .
  then show ?case
    using r 1 by (auto split: call.split option.split prod.split)
qed

lemma no_verdict_conversation: "printer_ok J \<Longrightarrow> benign c \<Longrightarrow> no_verdict c (snd (handle_conversation J ms c))"
proof -
  assume j: "printer_ok J" and b: "benign c"
  obtain ok mem where m: "next_result True (io_mem c) = (ok, mem)"
    by (cases "next_result True (io_mem c)")
  have 1: "no_verdict c (c\<lparr>io_mem := mem\<rparr>)"
    by (rule no_verdict_mem [OF b m])
  show ?thesis
    using m 1 no_verdict_trans [OF 1 no_verdict_conversation_loop [OF j no_verdict_benign [OF 1], of ms]]
    by (simp add: handle_conversation_def Let_def)
qed

section \<open>The verdicts of a run\<close>

definition child_inv :: "'j conv_state \<Rightarrow> 'j child \<Rightarrow> bool" where
  "child_inv c0 x =
     (case x of (ph, sts, c) \<Rightarrow>
        (\<exists>msgs. says msgs c0 c \<and> verdicts_of msgs = map verdict sts \<and> short_messages msgs) \<and>
        (\<forall>st \<in> set (butlast sts). st = PAM_AUTH_ERR) \<and>
        (\<forall>replies. ph = Authenticating replies \<longrightarrow> (\<forall>st \<in> set sts. st = PAM_AUTH_ERR)))"

lemma child_inv_start:
  assumes "benign c0"
  shows "child_inv c0 (run_pw_backend_child w c0)"
proof -
  have "\<exists>msgs. says msgs c0 c \<and> verdicts_of msgs = [] \<and> short_messages msgs"
    if "io_out c = io_out c0" "benign c" for c :: "'a conv_state"
    using that by (intro exI [of _ "[]"]) (simp add: says_def verdicts_of_def short_messages_def)
  then show ?thesis
    using assms by (simp add: child_inv_def run_pw_backend_child_def Let_def benign_def split: option.split)
qed

lemma child_inv_quiet:
  assumes "child_inv c0 (Authenticating replies, sts, c)" "no_verdict c c'"
  shows "child_inv c0 (ph, sts, c')"
proof -
  obtain ms where ms: "says ms c0 c" "verdicts_of ms = map verdict sts" "short_messages ms"
    using assms(1) by (auto simp: child_inv_def)
  obtain ms' where ms': "says ms' c c'" "verdicts_of ms' = []" "short_messages ms'"
    using assms(2) by (auto simp: no_verdict_def)
  have "says (ms @ ms') c0 c'" "verdicts_of (ms @ ms') = map verdict sts" "short_messages (ms @ ms')"
    using says_trans [OF ms(1) ms'(1)] ms ms' by (simp_all add: verdicts_of_def short_messages_def)
  then show ?thesis
    using assms(1) unfolding child_inv_def by blast
qed

lemma child_inv_verdict:
  assumes "child_inv c0 (Authenticating replies, sts, c)"
  shows "child_inv c0 (report_verdict w status sts c)"
proof -
  obtain ms where ms: "says ms c0 c" "verdicts_of ms = map verdict sts" "short_messages ms"
    and sts: "\<forall>st \<in> set sts. st = PAM_AUTH_ERR"
    using assms by (auto simp: child_inv_def)
  let ?m = "verdict status"
  have "says [?m] c (tell COMM_MSG_AUTH_RESULT [if status = PAM_SUCCESS then 1 else 0] c)"
    using says_tell [of c COMM_MSG_AUTH_RESULT] ms(1) by (simp add: verdict_def says_def)
  from says_trans [OF ms(1) this] have
    "\<exists>msgs. says msgs c0 (tell COMM_MSG_AUTH_RESULT [if status = PAM_SUCCESS then 1 else 0] c) \<and>
      verdicts_of msgs = map verdict (sts @ [status]) \<and> short_messages msgs"
    using ms by (intro exI [of _ "ms @ [?m]"]) (auto simp: verdicts_of_def verdict_def short_messages_def)
  then show ?thesis
    using sts by (auto simp: child_inv_def report_verdict_def)
qed

lemma child_inv_next:
  assumes "printer_ok J" "child_inv c0 x" "child_next J pam w x = Some y"
  shows "child_inv c0 y"
proof -
  obtain replies sts c where x: "x = (Authenticating replies, sts, c)"
    using assms(3) by (cases x; cases "fst x") auto
  have "benign c"
    using assms(2) by (auto simp: x child_inv_def says_def)
  then have q: "no_verdict c (snd (handle_conversation J ms c))" for ms
    by (rule no_verdict_conversation [OF assms(1)])
  show ?thesis
    using assms(3) child_inv_verdict [OF assms(2) [unfolded x]] child_inv_quiet [OF assms(2) [unfolded x] q]
    by (auto simp: x split: pam_action.splits prod.splits call.splits) (metis snd_conv)+
qed

lemma child_reaches_inv:
  assumes "printer_ok J" "benign c0" "child_reaches J pam w c0 x"
  shows "child_inv c0 x"
  using assms(3)
proof (induction rule: child_reaches.induct)
  case child_start
  show ?case
    by (rule child_inv_start [OF assms(2)])
next
  case (child_step x y)
  then show ?case
    using child_inv_next [OF assms(1)] by blast
qed


definition sample_input :: "message list" where
  "sample_input = [(COMM_MSG_PASSWORD, [0x62, 0]), (COMM_MSG_CANCEL, []), (COMM_MSG_PASSWORD, [0x61, 0])]"

definition sample_end :: "json_value child" where
  "sample_end = child_run sample_json sample_pam sample_child_env 4
     (run_pw_backend_child sample_child_env (sample_conv sample_input))"

lemma sample_end_reached:
  "child_reaches sample_json sample_pam sample_child_env (sample_conv sample_input) sample_end"
  unfolding sample_end_def by (rule child_run_reaches [OF child_start])

lemma sample_end_fields:
  "fst sample_end = Exited 0" "fst (snd sample_end) = [PAM_AUTH_ERR, PAM_SUCCESS]"
  by code_simp+

lemma sample_conv_ok: "benign (sample_conv msgs)" "cv_pending (sample_conv msgs) = []"
  "pipe_data (io_in (sample_conv msgs)) = concat (map frame_bytes msgs)" "pipe_data (io_out (sample_conv msgs)) = []"
  by (simp_all add: sample_conv_def benign_def)

lemma sample_printer: "printer_ok sample_json"
  by (simp add: printer_ok_def sample_json_def)


section \<open>The contract with the main process\<close>

interpretation pam_child: auth_backend
  "\<lambda>x. printer_ok J \<and> benign c0 \<and> pipe_data (io_out c0) = [] \<and> child_reaches J pam w c0 x"
  "\<lambda>x. pipe_data (io_out (snd (snd x)))" "\<lambda>x. PAM_SUCCESS \<in> set (fst (snd x))" for J c0 pam w
proof
  fix x
  assume x: "printer_ok J \<and> benign c0 \<and> pipe_data (io_out c0) = [] \<and> child_reaches J pam w c0 x"
  then obtain msgs where m: "pipe_data (io_out (snd (snd x))) = concat (map frame_bytes msgs)" "short_messages msgs"
    "verdicts_of msgs = map verdict (fst (snd x))"
    using child_reaches_inv [of J c0 pam w x] by (auto simp: child_inv_def says_def)
  have "PAM_SUCCESS \<in> set (fst (snd x))" if "(COMM_MSG_AUTH_RESULT, 1 # body) \<in> set msgs" for body
  proof -
    have "(COMM_MSG_AUTH_RESULT, 1 # body) \<in> set (map verdict (fst (snd x)))"
      using that by (simp add: verdicts_of_def flip: m(3))
    then show ?thesis
      by (auto simp: verdict_def split: if_splits)
  qed
  then show "\<exists>msgs. pipe_data (io_out (snd (snd x))) = concat (map frame_bytes msgs) \<and> short_messages msgs \<and>
      (\<forall>body. (COMM_MSG_AUTH_RESULT, 1 # body) \<in> set msgs \<longrightarrow> PAM_SUCCESS \<in> set (fst (snd x)))"
    using m by blast
qed

section \<open>Memory safety\<close>

text \<open>All that is still to come from the main process: whole frames, passwords with their terminating NUL.\<close>

definition input_frames :: "message list \<Rightarrow> 'j conv_state \<Rightarrow> bool" where
  "input_frames ins c \<longleftrightarrow> pipe_data (io_in c) = concat (map frame_bytes ins) \<and> list_all valid_message ins \<and>
     (COMM_MSG_PASSWORD, []) \<notin> set ins"

lemma child_read_shape:
  "\<exists>p sch mem. snd (comm_child_read c) = c\<lparr>io_in := p, io_rd := sch, io_mem := mem\<rparr>"
proof -
  have "snd (comm_read c) = c\<lparr>io_in := io_in (snd (comm_read c)), io_rd := io_rd (snd (comm_read c)),
      io_mem := io_mem (snd (comm_read c))\<rparr>"
    by (simp add: comm_read_def Let_def split: prod.split read_result.split)
  then show ?thesis
    unfolding comm_child_read_def by blast
qed

lemma child_read_pending: "comm_child_read c = (r, c') \<Longrightarrow> cv_pending c' = cv_pending c"
  using child_read_shape [of c] by auto

lemma child_read_positive:
  assumes "comm_child_read c = (CommRet ty payload len, c')" "0 < ty" "input_frames ins c"
  obtains m ins' where "ins = m # ins'" "input_frames ins' c'" "ty = uint (fst m)"
    "payload = (if snd m = [] then None else Some (snd m @ [0]))"
proof -
  obtain b body where f: "pipe_data (io_in c) = frame_bytes (b, body) @ pipe_data (io_in c')"
    "ty = uint b" "payload = (if body = [] then None else Some (body @ [0]))" "valid_message (b, body)"
    using comm_read_taken [of c ty payload len c'] assms(1,2) by (auto simp: comm_child_read_def)
  obtain m ins' where ins: "ins = m # ins'"
    using assms(3) f(1) by (cases ins) (auto simp: input_frames_def frame_bytes_def)
  have eq: "frame_bytes (b, body) @ pipe_data (io_in c') = frame_bytes m @ concat (map frame_bytes ins')"
    using f(1) assms(3) ins by (simp add: input_frames_def)
  have "valid_message m"
    using assms(3) ins by (simp add: input_frames_def)
  with eq f(4) have "(b, body) = m" "pipe_data (io_in c') = concat (map frame_bytes ins')"
    using frame_prefix [of "(b, body)" "pipe_data (io_in c')" m "concat (map frame_bytes ins')"]
    by (auto simp: valid_message_def)
  moreover from this have "input_frames ins' c'"
    using assms(3) ins by (simp add: input_frames_def)
  ultimately show thesis
    using that [OF ins] f(2,3) by (metis fst_conv snd_conv)
qed

lemma read_full_no_data:
  "pipe_data p = [] \<Longrightarrow> 0 < sz \<Longrightarrow>
     fst (snd (read_full p sch sz [])) = p \<and> (\<forall>n bs. fst (read_full p sch sz []) = ReadRet n bs \<longrightarrow> n \<le> 0)"
proof (induction sch)
  case Nil
  then show ?case
    by (simp add: Let_def)
next
  case (Cons c sch)
  then show ?case
    by (auto simp: Let_def split: io_choice.split)
qed

lemma child_read_empty:
  assumes "pipe_data (io_in c) = []" "comm_child_read c = (r, c')"
  shows "pipe_data (io_in c') = []"
  using read_full_no_data [OF assms(1), of 1 "io_rd c"] assms
  by (auto simp: comm_child_read_def comm_read_def split: prod.splits read_result.splits if_splits)

lemma child_read_frames:
  assumes "benign c" "input_frames ins c" "comm_child_read c = (r, c')"
  shows "benign c' \<and> (\<exists>ins'. input_frames ins' c')"
proof (cases ins)
  case Nil
  then have "input_frames [] c'"
    using child_read_empty [OF _ assms(3)] assms(2) by (simp add: input_frames_def)
  then show ?thesis
    using benign_read [OF assms(1)] assms(3) by (auto simp: comm_child_read_def)
next
  case (Cons m ins')
  then have "pipe_data (io_in c) = frame_bytes (fst m, snd m) @ concat (map frame_bytes ins')"
    "length (snd m) \<le> 2 ^ 20"
    using assms(2) by (simp_all add: input_frames_def valid_message_def)
  from comm_read_frame [OF assms(1) this(2,1)] have "pipe_data (io_in c') = concat (map frame_bytes ins')"
    using assms(3) by (auto simp: comm_child_read_def)
  then have "input_frames ins' c'"
    using assms(2) Cons by (simp add: input_frames_def)
  then show ?thesis
    using benign_read [OF assms(1)] assms(3) by (auto simp: comm_child_read_def)
qed

text \<open>
  Between conversations no event is pending, the input is in step with the frames, and no password
  is left in the memory that was freed.
\<close>

definition wiped :: "'j conv_state \<Rightarrow> bool" where
  "wiped c \<longleftrightarrow> (\<forall>b \<in> set (cv_freed c). set b \<subseteq> {0})"

definition conv_ok :: "'j conv_state \<Rightarrow> bool" where
  "conv_ok c \<longleftrightarrow> benign c \<and> (\<exists>ins. input_frames ins c) \<and> wiped c"

lemma conv_ok_fields [simp]:
  "conv_ok (c\<lparr>cv_pending := x\<rparr>) = conv_ok c"
  "conv_ok (c\<lparr>cv_poll := y\<rparr>) = conv_ok c"
  "conv_ok (c\<lparr>cv_user_selected_sent := z\<rparr>) = conv_ok c"
  by (simp_all add: conv_ok_def benign_def input_frames_def wiped_def)

lemma child_read_freed: "comm_child_read c = (r, c') \<Longrightarrow> cv_freed c' = cv_freed c"
  using child_read_shape [of c] by auto

lemma conv_ok_read: "conv_ok c \<Longrightarrow> comm_child_read c = (r, c') \<Longrightarrow> conv_ok c'"
  using child_read_frames child_read_freed unfolding conv_ok_def wiped_def by metis

lemma conv_ok_wipe:
  assumes "conv_ok c" "comm_child_read c = (CommRet ty payload len, c')" "0 < ty"
  shows "conv_ok (wipe mt payload len c')"
proof -
  obtain body where "len = length body" "payload = (if body = [] then None else Some (body @ [0]))"
    using comm_read_taken [of c ty payload len c'] assms(2,3) by (auto simp: comm_child_read_def)
  then have "wiped (wipe mt payload len c')" if "wiped c'"
    using that by (auto simp: wiped_def wipe_def clear_buffer_eq)
  then show ?thesis
    using conv_ok_read [OF assms(1,2)] by (auto simp: conv_ok_def input_frames_def)
qed

lemma conv_ok_mem:
  assumes "conv_ok c" "next_result True (io_mem c) = (ok, mem)"
  shows "conv_ok (c\<lparr>io_mem := mem\<rparr>)"
  using assms benignD(4) [of c] by (auto simp: conv_ok_def benign_def input_frames_def wiped_def)

lemma tell_fields:
  assumes "benign c"
  shows "benign (tell ty payload c)" "io_in (tell ty payload c) = io_in c"
    "cv_pending (tell ty payload c) = cv_pending c" "cv_poll (tell ty payload c) = cv_poll c"
    "cv_freed (tell ty payload c) = cv_freed c"
  using comm_write_benign [OF assms, of ty payload] assms
  by (auto simp: tell_def comm_child_write_def benign_def)

lemma conv_ok_tell: "conv_ok c \<Longrightarrow> conv_ok (tell ty payload c)"
  using tell_fields [of c ty payload] by (auto simp: conv_ok_def input_frames_def wiped_def)

lemma event_safe: "conv_ok c \<Longrightarrow> conv_ok (on_event J doc c) \<and> cv_pending (on_event J doc c) = cv_pending c"
  using tell_fields(3) [of c]
  by (auto simp: on_event_def Let_def tell_json_def conv_ok_tell conv_ok_def [of c] split: option.split)

lemma poll_loop_safe:
  "conv_ok c \<Longrightarrow> poll_loop J polls c = (r, c') \<Longrightarrow> r \<noteq> Crash \<and> conv_ok c'"
proof (induction polls arbitrary: c)
  case Nil
  then show ?case
    by auto
next
  case (Cons b polls)
  obtain x c1 where x: "comm_child_read c = (x, c1)"
    by (cases "comm_child_read c")
  have 1: "conv_ok c1" "cv_pending c1 = cv_pending c"
    using conv_ok_read [OF Cons.prems(1) x] child_read_pending [OF x] by simp_all
  have push: "push_pending e (wipe mt payload len c1) =
      Some (wipe mt payload len c1\<lparr>cv_pending := cv_pending c1 @ [e]\<rparr>)"
    if "length (cv_pending c) < MAX_PENDING" for e mt payload len
    using that 1 by (simp add: push_pending_def)
  show ?case
  proof (cases "length (cv_pending c) \<ge> MAX_PENDING \<or> \<not> b")
    case True
    then show ?thesis
      using Cons.prems by (auto split: if_splits)
  next
    case False
    show ?thesis
    proof (cases "\<exists>ty payload len. x = CommRet ty payload len \<and> 0 < ty")
      case True
      then obtain ty payload len where xp: "x = CommRet ty payload len" "0 < ty"
        by blast
      let ?w = "wipe (word_of_int ty) payload len c1"
      have w: "conv_ok ?w"
        by (rule conv_ok_wipe [OF Cons.prems(1) x [unfolded xp(1)] xp(2)])
      have "r \<noteq> Crash \<and> conv_ok c'" if "poll_loop J polls (?w\<lparr>cv_pending := p\<rparr>) = (r, c')" for p
        using Cons.IH [of "?w\<lparr>cv_pending := p\<rparr>"] that w by simp
      then show ?thesis
        using Cons.prems(2) Cons.IH [OF w] False x xp push by (auto split: option.splits)
    next
      case dry: False
      then show ?thesis
        using Cons.prems(2) False x 1 by (auto split: comm_result.splits if_splits)
    qed
  qed
qed

lemma announce_safe:
  assumes "conv_ok c" "cv_pending c = []"
  obtains c1 where "announce_user J c = Some c1" "conv_ok c1"
    "cv_pending c1 = (if cv_user_selected_sent c then [] else [user_selected J (cv_username c)])"
    "io_in c1 = io_in c" "io_rd c1 = io_rd c" "io_mem c1 = io_mem c" "io_wr c1 = io_wr c" "cv_poll c1 = cv_poll c"
  using assms by (cases "cv_user_selected_sent c") (auto simp: announce_user_def push_pending_def MAX_PENDING_def)

lemma poll_safe:
  assumes "conv_ok c" "cv_pending c = []" "on_poll J c = (r, c')"
  shows "r \<noteq> Crash \<and> conv_ok c' \<and> (r \<noteq> Blocked \<longrightarrow> cv_pending c' = [])"
proof -
  obtain c1 where a: "announce_user J c = Some c1" "conv_ok c1"
    by (rule announce_safe [OF assms(1,2), of J]) blast
  obtain x c2 where x: "poll_loop J (cv_poll c1) c1 = (x, c2)"
    by (cases "poll_loop J (cv_poll c1) c1")
  show ?thesis
    using assms(3) a x poll_loop_safe [OF a(2) x] by (auto simp: on_poll_def split: call.splits)
qed

lemma gdm_safe:
  assumes "conv_ok c" "cv_pending c = []" "handle_gdm_json J json c = (r, c')"
  shows "r \<noteq> Crash \<and> conv_ok c' \<and> (r \<noteq> Blocked \<longrightarrow> cv_pending c' = [])"
  using assms event_safe [OF assms(1), of J] poll_safe [OF assms(1,2), of J, OF prod.collapse [symmetric]]
  by (auto simp: handle_gdm_json_def split: option.splits if_splits prod.splits call.splits)

lemma await_safe:
  "conv_ok c \<Longrightarrow> await_password n c = (r, c') \<Longrightarrow>
     r \<noteq> Crash \<and> conv_ok c' \<and> cv_pending c' = cv_pending c"
proof (induction n arbitrary: c)
  case 0
  then show ?case
    by auto
next
  case (Suc n)
  obtain x c1 where x: "comm_child_read c = (x, c1)"
    by (cases "comm_child_read c")
  have 1: "conv_ok c1" "cv_pending c1 = cv_pending c"
    using conv_ok_read [OF Suc.prems(1) x] child_read_pending [OF x] by simp_all
  have "payload \<noteq> None \<and> conv_ok (wipe mt payload len c1)" if px: "x = CommRet ty payload len" and pos: "0 < ty"
    and pw: "word_of_int ty = COMM_MSG_PASSWORD" for ty payload len mt
  proof -
    obtain ins where ins: "input_frames ins c"
      using Suc.prems(1) by (auto simp: conv_ok_def)
    obtain m ins' where m: "ins = m # ins'" "ty = uint (fst m)" "payload = (if snd m = [] then None else Some (snd m @ [0]))"
      by (rule child_read_positive [OF x [unfolded px] pos ins])
    then have "fst m = COMM_MSG_PASSWORD"
      using pw by simp
    then have "snd m \<noteq> []"
      using ins m(1) by (metis input_frames_def list.set_intros(1) prod.collapse)
    then show ?thesis
      using m(3) conv_ok_wipe [OF Suc.prems(1) x [unfolded px] pos] by simp
  qed
  then show ?case
    using Suc.prems x 1 Suc.IH [OF 1(1)]
    by (auto split: comm_result.splits if_splits option.splits)
qed

lemma answer_safe:
  assumes "conv_ok c" "cv_pending c = []" "answer J m c = (r, c')"
  shows "r \<noteq> Crash \<and> conv_ok c' \<and> (r \<noteq> Blocked \<longrightarrow> cv_pending c' = [])"
proof -
  have wrap: "fst y \<noteq> Crash \<and> conv_ok (snd y) \<and> (fst y \<noteq> Blocked \<longrightarrow> cv_pending (snd y) = [])"
    if "y = (case x of
        (Blocked, c1) \<Rightarrow> (Blocked, c1)
      | (Crash, c1) \<Rightarrow> (Crash, c1)
      | (Value None, c1) \<Rightarrow> (Value None, c1)
      | (Value (Some z), c1) \<Rightarrow>
          (let (ok, mem') = next_result True (io_mem c1); c2 = c1\<lparr>io_mem := mem'\<rparr>
           in (Value (if ok then Some (f c2 z) else None), c2)))"
      "fst x \<noteq> Crash" "conv_ok (snd x)" "fst x \<noteq> Blocked \<longrightarrow> cv_pending (snd x) = []" for x y f
  proof -
    obtain q c1 ok mem' where x: "x = (q, c1)" "next_result True (io_mem c1) = (ok, mem')"
      by (metis surj_pair)
    show ?thesis
      using that x conv_ok_mem [OF _ x(2)] by (auto simp: Let_def split: call.splits option.splits)
  qed
  have t: "conv_ok (tell COMM_MSG_STAGE [3] c)" "cv_pending (tell COMM_MSG_STAGE [3] c) = []"
    using conv_ok_tell [OF assms(1)] tell_fields(3) [of c] assms(1,2) by (simp_all add: conv_ok_def)
  have p: "fst (answer_prompt c) \<noteq> Crash \<and> conv_ok (snd (answer_prompt c)) \<and>
      (fst (answer_prompt c) \<noteq> Blocked \<longrightarrow> cv_pending (snd (answer_prompt c)) = [])"
    using await_safe [OF t(1)] t(2) by (intro wrap [OF answer_prompt_def]) (metis prod.collapse)+
  have b: "fst (answer_binary J ext c) \<noteq> Crash \<and> conv_ok (snd (answer_binary J ext c)) \<and>
      (fst (answer_binary J ext c) \<noteq> Blocked \<longrightarrow> cv_pending (snd (answer_binary J ext c)) = [])" for ext
  proof (cases "authd_gdm_message_is_valid ext")
    case True
    have "fst (handle_gdm_json J (gm_json ext) c) \<noteq> Crash \<and> conv_ok (snd (handle_gdm_json J (gm_json ext) c)) \<and>
        (fst (handle_gdm_json J (gm_json ext) c) \<noteq> Blocked \<longrightarrow> cv_pending (snd (handle_gdm_json J (gm_json ext) c)) = [])"
      using gdm_safe [OF assms(1,2) prod.collapse [symmetric]] .
    then show ?thesis
      by (intro wrap [of "answer_binary J ext c"
            "\<lambda>c2 response. Binary_response (authd_gdm_request_init (cv_env c2) response zero_message)"
            "handle_gdm_json J (gm_json ext) c"])
        (simp_all add: answer_binary_def True)
  qed (use assms in \<open>simp add: answer_binary_def\<close>)
  have "fst (answer J m c) \<noteq> Crash \<and> conv_ok (snd (answer J m c)) \<and>
      (fst (answer J m c) \<noteq> Blocked \<longrightarrow> cv_pending (snd (answer J m c)) = [])"
    using assms(1,2) p b by (simp add: answer_def split: pam_message.split)
  then show ?thesis
    using assms(3) by simp
qed

lemma conversation_loop_safe:
  "conv_ok c \<Longrightarrow> cv_pending c = [] \<Longrightarrow> conversation_loop J ms c = (r, c') \<Longrightarrow>
     r \<noteq> Crash \<and> conv_ok c' \<and> (r \<noteq> Blocked \<longrightarrow> cv_pending c' = [])"
proof (induction ms arbitrary: c r c')
  case Nil
  then show ?case
    by auto
next
  case (Cons m ms)
  obtain x c1 where x: "answer J m c = (x, c1)"
    by (cases "answer J m c")
  obtain y c2 where y: "conversation_loop J ms c1 = (y, c2)"
    by (cases "conversation_loop J ms c1")
  show ?case
    using Cons.prems(3) x y answer_safe [OF Cons.prems(1,2) x] Cons.IH [OF _ _ y]
    by (auto split: call.splits option.splits)
qed

lemma conversation_safe:
  assumes "conv_ok c" "cv_pending c = []" "handle_conversation J ms c = (r, c')"
  shows "r \<noteq> Crash \<and> conv_ok c' \<and> (r \<noteq> Blocked \<longrightarrow> cv_pending c' = [])"
proof -
  obtain ok mem where m: "next_result True (io_mem c) = (ok, mem)"
    by (cases "next_result True (io_mem c)")
  have "conv_ok (c\<lparr>io_mem := mem\<rparr>)"
    by (rule conv_ok_mem [OF assms(1) m])
  then show ?thesis
    using assms(2,3) m conversation_loop_safe [of "c\<lparr>io_mem := mem\<rparr>" J ms r c']
    by (auto simp: handle_conversation_def Let_def split: if_splits)
qed



section \<open>Prompts and polls\<close>

lemma child_read_message:
  assumes "benign c" "valid_message m" "pipe_data (io_in c) = frame_bytes m @ rest"
  obtains c' where "comm_child_read c = (message_result m, c')" "benign c'" "pipe_data (io_in c') = rest"
    "cv_pending c' = cv_pending c" "io_out c' = io_out c" "cv_user_selected_sent c' = cv_user_selected_sent c"
proof -
  obtain sch mem where r: "Fail \<notin> set sch" "False \<notin> set mem"
    "comm_read c = (message_result m, c\<lparr>io_in := (io_in c)\<lparr>pipe_data := rest\<rparr>, io_rd := sch, io_mem := mem\<rparr>)"
    using comm_read_frame [OF assms(1), of "snd m" "fst m" rest] assms(2,3) by (auto simp: valid_message_def)
  then show thesis
    using assms(1) by (intro that [OF r(3) [folded comm_child_read_def]]) (auto simp: benign_def)
qed

lemma await_password_skips:
  "benign c \<Longrightarrow> list_all (\<lambda>m. valid_message m \<and> fst m \<noteq> COMM_MSG_PASSWORD) others \<Longrightarrow>
   pipe_data (io_in c) = concat (map frame_bytes others) @ frame_bytes (COMM_MSG_PASSWORD, pw @ [0]) @ rest \<Longrightarrow>
   0 \<notin> set pw \<Longrightarrow> length pw < 2 ^ 20 \<Longrightarrow> length others < n \<Longrightarrow>
   \<exists>c'. await_password n c = (Value (Some pw), c') \<and> benign c' \<and> pipe_data (io_in c') = rest \<and> io_out c' = io_out c"
proof (induction others arbitrary: c n)
  case Nil
  obtain k where n: "n = Suc k"
    using Nil.prems by (cases n) auto
  have v: "valid_message (COMM_MSG_PASSWORD, pw @ [0])"
    using Nil.prems by (simp add: valid_message_def COMM_MSG_PASSWORD_def)
  obtain c' where "comm_child_read c = (message_result (COMM_MSG_PASSWORD, pw @ [0]), c')" "benign c'"
    "pipe_data (io_in c') = rest" "io_out c' = io_out c"
    using child_read_message [OF Nil.prems(1) v] Nil.prems(3) by auto
  then show ?case
    using Nil.prems(4) n by (auto simp: message_result_def COMM_MSG_PASSWORD_def cstr_def takeWhile_append takeWhile_tail)
next
  case (Cons m others)
  obtain k where n: "n = Suc k" "length others < k"
    using Cons.prems by (cases n) auto
  have m: "valid_message m" "fst m \<noteq> COMM_MSG_PASSWORD"
    using Cons.prems(2) by simp_all
  obtain c1 where c1: "comm_child_read c = (message_result m, c1)" "benign c1" "io_out c1 = io_out c"
    "pipe_data (io_in c1) = concat (map frame_bytes others) @ frame_bytes (COMM_MSG_PASSWORD, pw @ [0]) @ rest"
    using child_read_message [OF Cons.prems(1) m(1)] Cons.prems(3) by auto
  have "0 < uint (fst m)"
    by (rule valid_message_type [OF m(1)])
  then have "await_password n c = await_password k c1"
    using c1(1) m(2) n by (simp add: message_result_def)
  then show ?case
    using Cons.IH [OF c1(2) _ c1(4)] Cons.prems n c1(3) by simp
qed

lemma answer_prompt_password:
  assumes "benign c" "list_all (\<lambda>m. valid_message m \<and> fst m \<noteq> COMM_MSG_PASSWORD) others"
    "pipe_data (io_in c) = concat (map frame_bytes others) @ frame_bytes (COMM_MSG_PASSWORD, pw @ [0]) @ rest"
    "0 \<notin> set pw" "length pw < 2 ^ 20"
  shows "\<exists>c'. answer_prompt c = (Value (Some (Text_response pw)), c') \<and> pipe_data (io_in c') = rest \<and>
      pipe_data (io_out c') = pipe_data (io_out c) @ frame_bytes (COMM_MSG_STAGE, [3]) \<and> benign c'"
proof -
  have n: "length others < Suc (length (pipe_data (io_in c)))"
    using assms(3) frames_length [of others] by simp
  have t: "benign (tell COMM_MSG_STAGE [3] c)" "io_in (tell COMM_MSG_STAGE [3] c) = io_in c"
    "pipe_data (io_out (tell COMM_MSG_STAGE [3] c)) = pipe_data (io_out c) @ frame_bytes (COMM_MSG_STAGE, [3])"
    using tell_fields [OF assms(1)] says_tell [OF assms(1), of COMM_MSG_STAGE "[3]"] by (simp_all add: says_def)
  obtain c1 where c1: "await_password (Suc (length (pipe_data (io_in c)))) (tell COMM_MSG_STAGE [3] c) =
      (Value (Some pw), c1)" "benign c1" "pipe_data (io_in c1) = rest" "io_out c1 = io_out (tell COMM_MSG_STAGE [3] c)"
    using await_password_skips [OF t(1) assms(2) _ assms(4,5) n] assms(3) t(2) by auto
  show ?thesis
    using c1 benignD(3,4) [OF c1(2)] t(3) by (auto simp: answer_prompt_def benign_def Let_def split: prod.split)
qed

text \<open>
  A prompt of PAM first tells the main process to ask for the password, then drops the messages
  of other kinds and answers with exactly the bytes that were typed, and nothing behind the password
  message is taken from the pipe. The password, however long, and the split of the reads do not matter.
\<close>

theorem prompt_receives_password:
  assumes "benign c" "list_all (\<lambda>m. valid_message m \<and> fst m \<noteq> COMM_MSG_PASSWORD) others"
    "pipe_data (io_in c) = concat (map frame_bytes others) @ frame_bytes (COMM_MSG_PASSWORD, pw @ [0]) @ rest"
    "0 \<notin> set pw" "length pw < 2 ^ 20"
  shows "\<exists>c'. answer_prompt c = (Value (Some (Text_response pw)), c') \<and> pipe_data (io_in c') = rest \<and>
      pipe_data (io_out c') = pipe_data (io_out c) @ frame_bytes (COMM_MSG_STAGE, [3])"
  using answer_prompt_password [OF assms] by blast

theorem prompt_receives_password_witness:
  "\<exists>c'. answer_prompt (sample_conv [(COMM_MSG_CANCEL, []), (COMM_MSG_PASSWORD, [0x62, 0]), (COMM_MSG_BUTTON, [])]) =
      (Value (Some (Text_response [0x62])), c') \<and> pipe_data (io_in c') = frame_bytes (COMM_MSG_BUTTON, [])"
  using prompt_receives_password [OF sample_conv_ok(1) [of
        "[(COMM_MSG_CANCEL, []), (COMM_MSG_PASSWORD, [0x62, 0]), (COMM_MSG_BUTTON, [])]"],
      of "[(COMM_MSG_CANCEL, [])]" "[0x62]" "frame_bytes (COMM_MSG_BUTTON, [])"]
  by (auto simp: sample_conv_ok valid_message_def COMM_MSG_PASSWORD_def COMM_MSG_CANCEL_def)

definition message_event :: "('j, 'm) json_lib_scheme \<Rightarrow> message \<Rightarrow> 'j option" where
  "message_event J m = event_of_message J (fst m) (if snd m = [] then None else Some (snd m @ [0]))"

lemma poll_loop_collects:
  "benign c \<Longrightarrow> list_all valid_message ms \<Longrightarrow> pipe_data (io_in c) = concat (map frame_bytes ms) @ rest \<Longrightarrow>
   length (cv_pending c) + length (List.map_filter (message_event J) ms) < MAX_PENDING \<Longrightarrow>
   \<exists>c'. poll_loop J (replicate (length ms) True @ False # polls) c = (Value (), c') \<and> benign c' \<and>
     cv_pending c' = cv_pending c @ List.map_filter (message_event J) ms \<and>
     pipe_data (io_in c') = rest \<and> cv_poll c' = polls \<and> cv_user_selected_sent c' = cv_user_selected_sent c"
proof (induction ms arbitrary: c)
  case Nil
  then show ?case
    by (auto simp: List.map_filter_def benign_def)
next
  case (Cons m ms)
  have m: "valid_message m"
    using Cons.prems(2) by simp
  obtain c1 where c1: "comm_child_read c = (message_result m, c1)" "benign c1" "cv_pending c1 = cv_pending c"
    "pipe_data (io_in c1) = concat (map frame_bytes ms) @ rest" "cv_user_selected_sent c1 = cv_user_selected_sent c"
    using child_read_message [OF Cons.prems(1) m] Cons.prems(3) by auto
  have pos: "0 < uint (fst m)"
    by (rule valid_message_type [OF m])
  let ?w = "wipe (fst m) (if snd m = [] then None else Some (snd m @ [0])) (length (snd m)) c1"
  let ?c = "?w\<lparr>cv_pending := cv_pending c @ (case message_event J m of None \<Rightarrow> [] | Some e \<Rightarrow> [e])\<rparr>"
  have keep: "?w\<lparr>cv_pending := cv_pending c\<rparr> = ?w"
    using c1(3) by (simp add: wipe_def split: option.split)
  have room: "length (cv_pending c) < MAX_PENDING"
    using Cons.prems(4) by simp
  have step: "poll_loop J (replicate (length (m # ms)) True @ False # polls) c =
      poll_loop J (replicate (length ms) True @ False # polls) ?c"
    using c1(1,3) pos room
    by (cases "message_event J m") (simp_all add: message_result_def message_event_def push_pending_def keep)
  have "benign ?c" "length (cv_pending ?c) + length (List.map_filter (message_event J) ms) < MAX_PENDING"
    using c1(2) Cons.prems(4) by (auto simp: benign_def wipe_def List.map_filter_simps split: option.splits)
  from Cons.IH [OF this(1) _ _ this(2)] show ?case
    using step c1(4,5) Cons.prems(2) by (auto simp: List.map_filter_simps split: option.splits)
qed

text \<open>
  C22: the answer to a poll request lists, in the order of arrival, the selected user the first time and
  then one event for each message of the main process that stands for one. The messages leave the pipe
  and the list of pending events is empty afterwards, so no event is reported twice.
\<close>

theorem poll_reports_events:
  assumes "benign c" "cv_pending c = []" "list_all valid_message ms"
    "pipe_data (io_in c) = concat (map frame_bytes ms) @ rest" "cv_poll c = replicate (length ms) True @ False # polls"
    "events = (if cv_user_selected_sent c then [] else [user_selected J (cv_username c)]) @
       List.map_filter (message_event J) ms"
    "length events < MAX_PENDING"
  shows "\<exists>c'. on_poll J c =
        (Value (jl_add_item J (typed J ''pollResponse'') ''pollResponse''
                  (foldl (jl_append J) (jl_array J) events)), c') \<and>
      pipe_data (io_in c') = rest \<and> cv_pending c' = [] \<and> cv_poll c' = polls \<and> cv_user_selected_sent c'"
proof -
  obtain c1 where c1: "announce_user J c = Some c1" "benign c1" "cv_user_selected_sent c1" "io_in c1 = io_in c"
    "cv_pending c1 = (if cv_user_selected_sent c then [] else [user_selected J (cv_username c)])" "cv_poll c1 = cv_poll c"
    using assms(1,2) by (cases "cv_user_selected_sent c") (auto simp: announce_user_def push_pending_def MAX_PENDING_def benign_def)
  have l: "length (cv_pending c1) + length (List.map_filter (message_event J) ms) < MAX_PENDING"
    using assms(6,7) c1(5) by simp
  obtain c2 where "poll_loop J (cv_poll c1) c1 = (Value (), c2)" "cv_pending c2 = events"
    "pipe_data (io_in c2) = rest" "cv_poll c2 = polls" "cv_user_selected_sent c2"
    using poll_loop_collects [OF c1(2) assms(3) _ l] assms(4,5,6) c1(3-6) by auto
  then show ?thesis
    using c1(1) by (simp add: on_poll_def)
qed

theorem poll_reports_events_witness:
  "\<exists>c'. on_poll sample_json (sample_conv [(COMM_MSG_BROKER_SEL, [0x31, 0]), (COMM_MSG_BUTTON, [])]) =
      (Value (JObject [(''type'', JString ''pollResponse''), (''pollResponse'', JArray [
         JObject [(''type'', JString ''userSelected''), (''userSelected'', JObject [(''userId'', JString [])])],
         JObject [(''type'', JString ''brokerSelected''), (''brokerSelected'', JObject [(''brokerId'', JString ''1'')])],
         JObject [(''type'', JString ''reselectAuthMode''), (''reselectAuthMode'', JObject [])]])]), c') \<and>
    pipe_data (io_in c') = []"
proof -
  let ?ms = "[(COMM_MSG_BROKER_SEL, [0x31, 0]), (COMM_MSG_BUTTON, [])]"
  let ?c = "sample_conv ?ms"
  have v: "list_all valid_message ?ms" "pipe_data (io_in ?c) = concat (map frame_bytes ?ms) @ []"
    "cv_poll ?c = replicate (length ?ms) True @ False # []" 
    by (simp_all add: valid_message_def COMM_MSG_BROKER_SEL_def COMM_MSG_BUTTON_def sample_conv_ok)
      (simp add: sample_conv_def)
  have e: "(if cv_user_selected_sent ?c then [] else [user_selected sample_json (cv_username ?c)]) @
      List.map_filter (message_event sample_json) ?ms =
     [JObject [(''type'', JString ''userSelected''), (''userSelected'', JObject [(''userId'', JString [])])],
      JObject [(''type'', JString ''brokerSelected''), (''brokerSelected'', JObject [(''brokerId'', JString ''1'')])],
      JObject [(''type'', JString ''reselectAuthMode''), (''reselectAuthMode'', JObject [])]]"
    by code_simp
  show ?thesis
    using poll_reports_events [OF sample_conv_ok(1,2) v e [symmetric]]
    by (auto simp: MAX_PENDING_def sample_json_def typed_def)
qed

section \<open>The shape of a reply\<close>

text \<open>The kind of response that a message asks for.\<close>

fun response_fits :: "pam_message \<Rightarrow> pam_response \<Rightarrow> bool" where
  "response_fits (PAM_PROMPT_ECHO_OFF _) r = (case r of Text_response pw \<Rightarrow> 0 \<notin> set pw | _ \<Rightarrow> False)"
| "response_fits (PAM_PROMPT_ECHO_ON _) r = (case r of Text_response pw \<Rightarrow> 0 \<notin> set pw | _ \<Rightarrow> False)"
| "response_fits (PAM_BINARY_PROMPT _) r =
     (case r of Binary_response g \<Rightarrow> authd_gdm_message_is_valid g \<and> gm_json g \<noteq> None | _ \<Rightarrow> False)"
| "response_fits _ r = (r = No_response)"

lemma await_password_text: "await_password n c = (Value (Some pw), c') \<Longrightarrow> 0 \<notin> set pw"
proof (induction n arbitrary: c)
  case (Suc n)
  then show ?case
    by (auto split: prod.splits comm_result.splits if_splits option.splits)
qed simp

lemma answer_prompt_text: "answer_prompt c = (Value (Some r), c') \<Longrightarrow> \<exists>pw. r = Text_response pw \<and> 0 \<notin> set pw"
  using await_password_text [of "Suc (length (pipe_data (io_in c)))" "tell COMM_MSG_STAGE [3] c"]
  by (auto simp: answer_prompt_def Let_def simp del: await_password.simps
      split: prod.splits call.splits option.splits if_splits)

lemma answer_binary_valid:
  "answer_binary J ext c = (Value (Some r), c') \<Longrightarrow>
     \<exists>g. r = Binary_response g \<and> authd_gdm_message_is_valid g \<and> gm_json g \<noteq> None"
proof -
  have "length (gm_protocol_name zero_message) = 64"
    by (simp add: zero_message_def)
  from authd_request_valid [OF this] show "answer_binary J ext c = (Value (Some r), c') \<Longrightarrow> ?thesis"
    by (auto simp: answer_binary_def Let_def split: prod.splits call.splits option.splits if_splits)
qed

lemma answer_fits: "answer J m c = (Value (Some r), c') \<Longrightarrow> response_fits m r"
  by (cases m) (auto simp: answer_def dest: answer_prompt_text answer_binary_valid)

lemma conversation_loop_fits:
  "conversation_loop J ms c = (Value (status, rs), c') \<Longrightarrow>
     length rs = length ms \<and> (status = PAM_SUCCESS \<and> list_all2 response_fits ms rs \<or> status = PAM_ABORT)"
proof (induction ms arbitrary: c rs)
  case Nil
  then show ?case
    by simp
next
  case (Cons m ms)
  obtain x c1 where x: "answer J m c = (x, c1)"
    by (cases "answer J m c")
  obtain y c2 where y: "conversation_loop J ms c1 = (y, c2)"
    by (cases "conversation_loop J ms c1")
  show ?case
    using Cons.prems x y Cons.IH [of c1] answer_fits [of J m c _ c1]
    by (auto split: call.splits option.splits)
qed

text \<open>
  C23: a conversation that returns gives one response for each message. If it succeeds, every prompt has
  got a text without NUL, every binary prompt a message of the protocol of authd with a JSON text, and
  every other message no response; otherwise the status is \<^verbatim>\<open>PAM_ABORT\<close>, without responses if there is no memory.
\<close>

theorem conversation_reply_type:
  assumes "handle_conversation J ms c = (Value (status, rs), c')"
  shows "status = PAM_SUCCESS \<and> list_all2 response_fits ms rs \<or>
    status = PAM_ABORT \<and> (length rs = length ms \<or> rs = [])"
  using assms conversation_loop_fits [of J ms _ status rs c']
  by (auto simp: handle_conversation_def Let_def split: prod.splits if_splits)

theorem conversation_reply_type_witness:
  "\<exists>c'. handle_conversation sample_json [PAM_PROMPT_ECHO_OFF [], PAM_TEXT_INFO []] (sample_conv [(COMM_MSG_PASSWORD, [0x62, 0])]) =
      (Value (PAM_SUCCESS, [Text_response [0x62], No_response]), c') \<and>
    list_all2 response_fits [PAM_PROMPT_ECHO_OFF [], PAM_TEXT_INFO []] [Text_response [0x62], No_response]"
proof -
  let ?r = "handle_conversation sample_json [PAM_PROMPT_ECHO_OFF [], PAM_TEXT_INFO []] (sample_conv [(COMM_MSG_PASSWORD, [0x62, 0])])"
  have f: "fst ?r = Value (PAM_SUCCESS, [Text_response [0x62], No_response])"
    by code_simp
  then have r: "?r = (Value (PAM_SUCCESS, [Text_response [0x62], No_response]), snd ?r)"
    by (metis prod.collapse)
  have "PAM_SUCCESS \<noteq> PAM_ABORT"
    by (simp add: pam_defs)
  then have "list_all2 response_fits [PAM_PROMPT_ECHO_OFF [], PAM_TEXT_INFO []] [Text_response [0x62], No_response]"
    using conversation_reply_type [OF r] by blast
  then show ?thesis
    using r by blast
qed

end
