(* ===== verification/Shadow.thy ===== *)
theory Shadow
  imports Password Backend
begin

text \<open>
  The authentication child of the build without PAM: \<^verbatim>\<open>src/shadow.c\<close>. The program starts with the
  privileges of root, reads the encrypted password of the user, gives the privileges up for good and
  forks the child, which compares passwords from the main process by means of \<^verbatim>\<open>crypt\<close>.

  \<^verbatim>\<open>crypt\<close> is a parameter (\<open>None\<close> is the null pointer), as are the user database, the refusal of a
  change of identity by the kernel and the outcome of \<^verbatim>\<open>spawn_comm_child\<close>. Strings are without their NUL.
  \<^verbatim>\<open>io_in\<close> holds all that the main process will ever send; a read for which nothing comes blocks.
\<close>

section \<open>Identities of the process\<close>

record creds =
  cr_ruid :: nat
  cr_euid :: nat
  cr_suid :: nat
  cr_rgid :: nat
  cr_egid :: nat
  cr_sgid :: nat

text \<open>The calls of POSIX: root sets all three identities, others exchange the effective one; \<open>None\<close> is -1.\<close>

definition setuid :: "nat \<Rightarrow> creds \<Rightarrow> creds option" where
  "setuid u c =
     (if cr_euid c = 0 then Some (c\<lparr>cr_ruid := u, cr_euid := u, cr_suid := u\<rparr>)
      else if u = cr_ruid c \<or> u = cr_suid c then Some (c\<lparr>cr_euid := u\<rparr>)
      else None)"

definition setgid :: "nat \<Rightarrow> creds \<Rightarrow> creds option" where
  "setgid g c =
     (if cr_euid c = 0 then Some (c\<lparr>cr_rgid := g, cr_egid := g, cr_sgid := g\<rparr>)
      else if g = cr_rgid c \<or> g = cr_sgid c then Some (c\<lparr>cr_egid := g\<rparr>)
      else None)"

datatype id_call = Setuid nat | Setgid nat

fun id_step :: "id_call \<Rightarrow> creds \<Rightarrow> creds" where
  "id_step (Setuid u) c = (case setuid u c of None \<Rightarrow> c | Some c' \<Rightarrow> c')"
| "id_step (Setgid g) c = (case setgid g c of None \<Rightarrow> c | Some c' \<Rightarrow> c')"

section \<open>Initialisation\<close>

record shadow_env =
  se_passwd :: "nat \<Rightarrow> (string \<times> byte list) option"
  se_shadow :: "string \<Rightarrow> byte list option"
  se_refuse_gid :: bool
  se_refuse_uid :: bool
  se_spawn :: bool

text \<open>
  The result is the exit status, or what the child starts with (the encrypted password and its
  identities) and the memory that the parent keeps of the encrypted password.
\<close>

definition encrypted_password :: "shadow_env \<Rightarrow> nat \<Rightarrow> byte list option" where
  "encrypted_password w uid =
     (case se_passwd w uid of
        None \<Rightarrow> None
      | Some (name, pw_passwd) \<Rightarrow> if pw_passwd = bytes_of_string ''x'' then se_shadow w name else Some pw_passwd)"

definition drop_privileges :: "shadow_env \<Rightarrow> creds \<Rightarrow> creds option" where
  "drop_privileges w c =
     (case (if se_refuse_gid w then None else setgid (cr_rgid c) c) of
        None \<Rightarrow> None
      | Some c1 \<Rightarrow>
          (case (if se_refuse_uid w then None else setuid (cr_ruid c1) c1) of
             None \<Rightarrow> None
           | Some c2 \<Rightarrow> if setuid 0 c2 \<noteq> None \<or> setgid 0 c2 \<noteq> None then None else Some c2))"

definition initialize_pw_backend :: "shadow_env \<Rightarrow> creds \<Rightarrow> int + (byte list \<times> creds \<times> byte list)" where
  "initialize_pw_backend w c =
     (case encrypted_password w (cr_ruid c) of
        None \<Rightarrow> Inl 1
      | Some encpw \<Rightarrow>
          (case drop_privileges w c of
             None \<Rightarrow> Inl 1
           | Some c1 \<Rightarrow>
               if \<not> se_spawn w then Inl 1 else Inr (encpw, c1, clear_buffer encpw (length encpw))))"

section \<open>The child\<close>

text \<open>
  \<open>sh_tried\<close> is the history of the passwords that were compared, \<open>sh_freed\<close> the contents of the
  buffers of passwords when they were given back to the allocator.
\<close>

record shadow_state = proc_io +
  sh_encpw :: "byte list option"
  sh_tried :: "byte list list"
  sh_freed :: "byte list list"

datatype shadow_end = Sh_exit int | Sh_blocked | Sh_crash

definition sh_finish :: "shadow_state \<Rightarrow> shadow_end \<times> shadow_state" where
  "sh_finish c = (Sh_exit 0, c\<lparr>sh_encpw := map_option (\<lambda>e. clear_buffer e (length e)) (sh_encpw c)\<rparr>)"

text \<open>One password: \<^verbatim>\<open>crypt\<close>, wiping the buffer, the comparison. \<open>None\<close> leaves the loop with a failure.\<close>

definition sh_compare ::
    "(byte list \<Rightarrow> byte list \<Rightarrow> byte list option) \<Rightarrow> byte list \<Rightarrow> nat \<Rightarrow> byte list \<Rightarrow> shadow_state \<Rightarrow> bool option \<times> shadow_state" where
  "sh_compare crypt buf len encpw c =
     (let c1 = c\<lparr>sh_tried := sh_tried c @ [cstr buf], sh_freed := sh_freed c @ [password_buffer_destroy buf len]\<rparr>
      in case crypt (cstr buf) encpw of
           None \<Rightarrow> (None, c1)
         | Some h \<Rightarrow>
             (let success = (h = encpw);
                  (ok, c2) = comm_child_write c1 COMM_MSG_AUTH_RESULT (Some [if success then 1 else 0]) 1
              in (if ok then Some success else None, c2)))"

text \<open>The loop; \<open>n\<close> bounds the messages, each of which takes at least five bytes of the input.\<close>

fun sh_loop ::
    "(byte list \<Rightarrow> byte list \<Rightarrow> byte list option) \<Rightarrow> nat \<Rightarrow> byte list \<Rightarrow> shadow_state \<Rightarrow> shadow_end \<times> shadow_state" where
  "sh_loop crypt 0 encpw c = (Sh_blocked, c)"
| "sh_loop crypt (Suc n) encpw c =
     (case comm_child_read c of
        (CommBlocked, c1) \<Rightarrow> (Sh_blocked, c1)
      | (CommRet ty payload len, c1) \<Rightarrow>
          (if ty < 0 then (Sh_exit 1, c1)
           else if ty = 0 then sh_finish c1
           else if word_of_int ty \<noteq> COMM_MSG_PASSWORD then sh_loop crypt n encpw c1
           else case payload of
                  None \<Rightarrow> (Sh_crash, c1)
                | Some buf \<Rightarrow>
                    (case sh_compare crypt buf len encpw c1 of
                       (None, c2) \<Rightarrow> (Sh_exit 1, c2)
                     | (Some True, c2) \<Rightarrow> sh_finish c2
                     | (Some False, c2) \<Rightarrow> sh_loop crypt n encpw c2)))"

text \<open>A null pointer for the encrypted password fails the assertion.\<close>

definition sh_run_pw_backend_child ::
    "(byte list \<Rightarrow> byte list \<Rightarrow> byte list option) \<Rightarrow> shadow_state \<Rightarrow> shadow_end \<times> shadow_state" where
  "sh_run_pw_backend_child crypt c =
     (case sh_encpw c of
        None \<Rightarrow> (Sh_crash, c)
      | Some encpw \<Rightarrow> sh_loop crypt (Suc (length (pipe_data (io_in c)))) encpw c)"

section \<open>Privileges\<close>

text \<open>Root is out of reach: no identity is 0 and the process is not privileged.\<close>

definition unprivileged :: "creds \<Rightarrow> bool" where
  "unprivileged c \<longleftrightarrow> 0 \<notin> {cr_ruid c, cr_euid c, cr_suid c, cr_rgid c, cr_egid c, cr_sgid c}"

lemma unprivileged_step: "unprivileged c \<Longrightarrow> unprivileged (id_step k c)"
  by (cases k) (auto simp: unprivileged_def setuid_def setgid_def)

lemma drop_privileges_unprivileged: "drop_privileges w c = Some c' \<Longrightarrow> unprivileged c'"
  by (auto simp: drop_privileges_def setuid_def setgid_def unprivileged_def split: if_splits option.splits)

text \<open>
  C12: once the initialisation succeeds, no sequence of \<^verbatim>\<open>setuid\<close> and \<^verbatim>\<open>setgid\<close> calls brings back an
  identity of root, from whatever identities the program was started with; the parent keeps only
  zeroes of the encrypted password.
\<close>

theorem privileges_dropped:
  assumes "initialize_pw_backend w c = Inr (encpw, c', kept)"
  shows "unprivileged (fold id_step calls c') \<and> kept = replicate (length encpw) 0"
proof -
  have "unprivileged c'" "kept = replicate (length encpw) 0"
    using assms drop_privileges_unprivileged
    by (auto simp: initialize_pw_backend_def split: option.splits if_splits)
  moreover have "unprivileged c' \<Longrightarrow> unprivileged (fold id_step calls c')"
    by (induction calls arbitrary: c') (auto simp: unprivileged_step)
  ultimately show ?thesis
    by simp
qed

theorem privileges_dropped_witness:
  "let w = \<lparr>se_passwd = (\<lambda>u. Some (''me'', bytes_of_string ''x'')), se_shadow = (\<lambda>n. Some [0x24, 0x36]),
            se_refuse_gid = False, se_refuse_uid = False, se_spawn = True\<rparr>;
       c = \<lparr>cr_ruid = 1000, cr_euid = 0, cr_suid = 0, cr_rgid = 100, cr_egid = 0, cr_sgid = 0\<rparr>
   in \<exists>c' kept. initialize_pw_backend w c = Inr ([0x24, 0x36], c', kept) \<and>
        unprivileged (fold id_step [Setuid 0, Setgid 0] c') \<and> kept = [0, 0]"
proof -
  let ?w = "\<lparr>se_passwd = (\<lambda>u. Some (''me'', bytes_of_string ''x'')), se_shadow = (\<lambda>n. Some [0x24, 0x36]),
            se_refuse_gid = False, se_refuse_uid = False, se_spawn = True\<rparr>"
  let ?c = "\<lparr>cr_ruid = 1000, cr_euid = 0, cr_suid = 0, cr_rgid = 100, cr_egid = 0, cr_sgid = 0\<rparr>"
  let ?c' = "\<lparr>cr_ruid = 1000, cr_euid = 1000, cr_suid = 1000, cr_rgid = 100, cr_egid = 100, cr_sgid = 100\<rparr>"
  have "initialize_pw_backend ?w ?c = Inr ([0x24, 0x36], ?c', clear_buffer [0x24, 0x36] 2)"
    by (simp add: initialize_pw_backend_def encrypted_password_def drop_privileges_def setuid_def setgid_def numeral_2_eq_2)
  from privileges_dropped [OF this, of "[Setuid 0, Setgid 0]"] show ?thesis
    using \<open>initialize_pw_backend ?w ?c = _\<close> unfolding Let_def by (intro exI conjI) (assumption, simp_all add: numeral_2_eq_2)
qed

section \<open>Verdicts\<close>

text \<open>The passwords that are compared: all up to and including the first that matches.\<close>

fun tried_of :: "(byte list \<Rightarrow> bool) \<Rightarrow> byte list list \<Rightarrow> byte list list" where
  "tried_of ok [] = []"
| "tried_of ok (pw # pws) = (if ok pw then [pw] else pw # tried_of ok pws)"

definition passwords_in :: "message list \<Rightarrow> byte list list" where
  "passwords_in msgs = map (\<lambda>m. cstr (snd m)) (filter (\<lambda>m. fst m = COMM_MSG_PASSWORD) msgs)"

definition sh_verdict :: "bool \<Rightarrow> message" where
  "sh_verdict ok = (COMM_MSG_AUTH_RESULT, [if ok then 1 else 0])"

text \<open>What a run of the loop on the messages \<open>msgs\<close> and then the end of the input amounts to.\<close>

definition sh_served ::
    "(byte list \<Rightarrow> byte list \<Rightarrow> byte list option) \<Rightarrow> byte list \<Rightarrow> message list \<Rightarrow> shadow_state \<Rightarrow>
       shadow_end \<times> shadow_state \<Rightarrow> bool" where
  "sh_served crypt e msgs c res \<longleftrightarrow>
     (let ok = (\<lambda>pw. crypt pw e = Some e); tried = tried_of ok (passwords_in msgs); c' = snd res in
      sh_tried c' = sh_tried c @ tried \<and>
      pipe_data (io_out c') = pipe_data (io_out c) @ concat (map (\<lambda>pw. frame_bytes (sh_verdict (ok pw))) tried) \<and>
      (\<exists>wiped. sh_freed c' = sh_freed c @ wiped \<and> length wiped = length tried \<and> (\<forall>b \<in> set wiped. set b \<subseteq> {0})) \<and>
      (if list_ex ok (passwords_in msgs) \<or> \<not> pipe_wopen (io_in c)
       then fst res = Sh_exit 0 \<and> sh_encpw c' = Some (replicate (length e) 0)
       else fst res = Sh_blocked))"

lemma read_full_nothing:
  "pipe_data p = [] \<Longrightarrow> Fail \<notin> set sch \<Longrightarrow>
     \<exists>sch'. read_full p sch 1 [] = (if pipe_wopen p then ReadBlocked else ReadRet 0 [], p, sch')"
proof (induction sch)
  case Nil
  then show ?case
    by (simp add: Let_def)
next
  case (Cons c sch)
  then show ?case
    by (auto simp: Let_def split: io_choice.split)
qed

lemma child_read_nothing:
  assumes "benign c" "pipe_data (io_in c) = []"
  obtains sch where
    "comm_child_read c = (if pipe_wopen (io_in c) then CommBlocked else CommRet 0 None 0, c\<lparr>io_in := io_in c, io_rd := sch\<rparr>)"
  using read_full_nothing [OF assms(2) benignD(1) [OF assms(1)]]
  by (auto simp: comm_child_read_def comm_read_def that split: if_splits)

lemma sh_compare_served:
  assumes "benign c" "crypt (cstr (body @ [0])) e \<noteq> None"
  obtains sch where "Fail \<notin> set sch"
    "sh_compare crypt (body @ [0]) (length body) e c =
      (Some (crypt (cstr body) e = Some e),
       c\<lparr>io_out := (io_out c)\<lparr>pipe_data := pipe_data (io_out c) @ frame_bytes (sh_verdict (crypt (cstr body) e = Some e))\<rparr>,
         io_wr := sch, sh_tried := sh_tried c @ [cstr body], sh_freed := sh_freed c @ [replicate (Suc (length body)) 0]\<rparr>)"
proof -
  have cs: "cstr (body @ [0]) = cstr body"
    by (rule cstr_append_nul_general)
  then obtain h where h: "crypt (cstr body) e = Some h"
    using assms(2) by auto
  have w: "password_buffer_destroy (body @ [0]) (length body) = replicate (Suc (length body)) 0"
    by (simp add: password_buffer_destroy_def clear_buffer_eq replicate_append_same)
  let ?c = "c\<lparr>sh_tried := sh_tried c @ [cstr body], sh_freed := sh_freed c @ [replicate (Suc (length body)) 0]\<rparr>"
  have "benign ?c"
    using assms(1) by (simp add: benign_def)
  from comm_write_benign [OF this, of COMM_MSG_AUTH_RESULT "[if h = e then 1 else 0]"] obtain sch where
    "Fail \<notin> set sch" "comm_write ?c COMM_MSG_AUTH_RESULT (Some [if h = e then 1 else 0]) 1 =
      (True, ?c\<lparr>io_out := (io_out c)\<lparr>pipe_data := pipe_data (io_out c) @ frame_bytes (sh_verdict (h = e))\<rparr>, io_wr := sch\<rparr>)"
    by (auto simp: sh_verdict_def)
  then show thesis
    by (intro that [of sch]) (simp_all add: sh_compare_def cs w h comm_child_write_def Let_def)
qed

lemma sh_served_wrong:
  assumes "fst m = COMM_MSG_PASSWORD" "crypt (cstr (snd m)) e \<noteq> Some e" "sh_served crypt e msgs c1 res"
    "sh_tried c1 = sh_tried c @ [cstr (snd m)]" "sh_freed c1 = sh_freed c @ [replicate (Suc (length (snd m))) 0]"
    "pipe_data (io_out c1) = pipe_data (io_out c) @ frame_bytes (sh_verdict False)" "pipe_wopen (io_in c1) = pipe_wopen (io_in c)"
  shows "sh_served crypt e (m # msgs) c res"
proof -
  have p: "passwords_in (m # msgs) = cstr (snd m) # passwords_in msgs"
    using assms(1) by (simp add: passwords_in_def)
  obtain wiped where "sh_freed (snd res) = sh_freed c1 @ wiped" "\<forall>b \<in> set wiped. set b \<subseteq> {0}"
      "length wiped = length (tried_of (\<lambda>pw. crypt pw e = Some e) (passwords_in msgs))"
    using assms(3) by (auto simp: sh_served_def Let_def)
  then have "\<exists>wiped'. sh_freed (snd res) = sh_freed c @ wiped' \<and>
      length wiped' = length (tried_of (\<lambda>pw. crypt pw e = Some e) (passwords_in (m # msgs))) \<and>
      (\<forall>b \<in> set wiped'. set b \<subseteq> {0})"
    using assms(2,5) by (intro exI [of _ "replicate (Suc (length (snd m))) 0 # wiped"]) (auto simp: p)
  then show ?thesis
    using assms(2-4,6,7) unfolding sh_served_def Let_def p by simp
qed

lemma sh_loop_serves:
  "benign c \<Longrightarrow> list_all valid_message msgs \<Longrightarrow> (COMM_MSG_PASSWORD, []) \<notin> set msgs \<Longrightarrow>
   pipe_data (io_in c) = concat (map frame_bytes msgs) \<Longrightarrow> \<forall>pw \<in> set (passwords_in msgs). crypt pw e \<noteq> None \<Longrightarrow>
   length msgs < n \<Longrightarrow> sh_encpw c = Some e \<Longrightarrow> sh_served crypt e msgs c (sh_loop crypt n e c)"
proof (induction msgs arbitrary: c n)
  case Nil
  obtain k where n: "n = Suc k"
    using Nil.prems by (cases n) auto
  obtain sch where "comm_child_read c =
      (if pipe_wopen (io_in c) then CommBlocked else CommRet 0 None 0, c\<lparr>io_in := io_in c, io_rd := sch\<rparr>)"
    using child_read_nothing [OF Nil.prems(1)] Nil.prems(4) by auto
  then show ?case
    using Nil.prems(7) by (auto simp: n sh_served_def passwords_in_def sh_finish_def Let_def)
next
  case (Cons m msgs)
  obtain k where n: "n = Suc k" "length msgs < k"
    using Cons.prems by (cases n) auto
  have m: "valid_message m"
    using Cons.prems(2) by simp
  obtain sch mem where r: "Fail \<notin> set sch" "False \<notin> set mem" "comm_child_read c = (message_result m,
      c\<lparr>io_in := (io_in c)\<lparr>pipe_data := concat (map frame_bytes msgs)\<rparr>, io_rd := sch, io_mem := mem\<rparr>)"
    using comm_read_frame [OF Cons.prems(1), of "snd m" "fst m"] m Cons.prems(4)
    by (auto simp: valid_message_def comm_child_read_def)
  let ?c1 = "c\<lparr>io_in := (io_in c)\<lparr>pipe_data := concat (map frame_bytes msgs)\<rparr>, io_rd := sch, io_mem := mem\<rparr>"
  have c1: "benign ?c1"
    using Cons.prems(1) r by (simp add: benign_def)
  have pos: "0 < uint (fst m)"
    by (rule valid_message_type [OF m])
  show ?case
  proof (cases "fst m = COMM_MSG_PASSWORD")
    case False
    then have "sh_loop crypt n e c = sh_loop crypt k e ?c1"
      using r(3) pos by (simp add: n message_result_def)
    then show ?thesis
      using Cons.IH [OF c1, of k] Cons.prems n False by (simp add: sh_served_def passwords_in_def)
  next
    case True
    have body: "snd m \<noteq> []"
      using Cons.prems(3) True by (metis list.set_intros(1) prod.collapse)
    obtain sch2 where w: "Fail \<notin> set sch2" "sh_compare crypt (snd m @ [0]) (length (snd m)) e ?c1 =
      (Some (crypt (cstr (snd m)) e = Some e),
       ?c1\<lparr>io_out := (io_out c)\<lparr>pipe_data := pipe_data (io_out c) @ frame_bytes (sh_verdict (crypt (cstr (snd m)) e = Some e))\<rparr>,
         io_wr := sch2, sh_tried := sh_tried c @ [cstr (snd m)], sh_freed := sh_freed c @ [replicate (Suc (length (snd m))) 0]\<rparr>)"
      using sh_compare_served [OF c1, of crypt "snd m" e] Cons.prems(5) True
      by (auto simp: passwords_in_def cstr_append_nul_general)
    let ?c2 = "?c1\<lparr>io_out := (io_out c)\<lparr>pipe_data := pipe_data (io_out c) @ frame_bytes (sh_verdict (crypt (cstr (snd m)) e = Some e))\<rparr>,
         io_wr := sch2, sh_tried := sh_tried c @ [cstr (snd m)], sh_freed := sh_freed c @ [replicate (Suc (length (snd m))) 0]\<rparr>"
    have step: "sh_loop crypt n e c = (if crypt (cstr (snd m)) e = Some e then sh_finish ?c2 else sh_loop crypt k e ?c2)"
      using r(3) pos True body w(2) by (simp add: n message_result_def)
    have c2: "benign ?c2"
      using c1 w(1) by (simp add: benign_def)
    show ?thesis
    proof (cases "crypt (cstr (snd m)) e = Some e")
      case match: True
      then show ?thesis
        using step Cons.prems(7) True
        by (auto simp: sh_served_def passwords_in_def sh_finish_def Let_def)
    next
      case nomatch: False
      have "sh_served crypt e msgs ?c2 (sh_loop crypt k e ?c2)"
        using Cons.IH [OF c2, of k] Cons.prems n True by (simp add: passwords_in_def)
      then show ?thesis
        using step nomatch by (intro sh_served_wrong [where crypt = crypt and e = e, OF True nomatch, of msgs ?c2]) simp_all
    qed
  qed
qed


text \<open>A \<^verbatim>\<open>crypt\<close> that reverses, an encrypted password that b a matches.\<close>

definition sample_shadow :: "message list \<Rightarrow> shadow_state" where
  "sample_shadow msgs =
     \<lparr>io_in = \<lparr>pipe_data = concat (map frame_bytes msgs), pipe_wopen = True\<rparr>,
      io_out = \<lparr>pipe_data = [], pipe_wopen = True\<rparr>,
      io_rd = [Chunk 0, Eintr, Chunk 2], io_wr = [Eintr, Chunk 1], io_mem = [], io_mlock = [],
      io_mlock_supported = True, sh_encpw = Some [0x61, 0x62], sh_tried = [], sh_freed = []\<rparr>"

definition sample_guesses :: "message list" where
  "sample_guesses = [(COMM_MSG_PASSWORD, [0x63, 0]), (COMM_MSG_CANCEL, []), (COMM_MSG_PASSWORD, [0x62, 0x61, 0])]"


section \<open>The contract with the main process\<close>

text \<open>A child that starts with an encrypted password and an input of well-formed messages.\<close>

definition sh_start ::
    "(byte list \<Rightarrow> byte list \<Rightarrow> byte list option) \<Rightarrow> byte list \<Rightarrow> message list \<Rightarrow> shadow_state \<Rightarrow> bool" where
  "sh_start crypt e msgs c \<longleftrightarrow> benign c \<and> list_all valid_message msgs \<and> (COMM_MSG_PASSWORD, []) \<notin> set msgs \<and>
     pipe_data (io_in c) = concat (map frame_bytes msgs) \<and> pipe_data (io_out c) = [] \<and> sh_encpw c = Some e \<and>
     (\<forall>pw \<in> set (passwords_in msgs). crypt pw e \<noteq> None)"

lemma sh_start_served:
  "sh_start crypt e msgs c \<Longrightarrow> sh_served crypt e msgs c (sh_run_pw_backend_child crypt c)"
  using sh_loop_serves [of c msgs crypt e "Suc (length (pipe_data (io_in c)))"] frames_length [of msgs]
  by (simp add: sh_run_pw_backend_child_def sh_start_def del: sh_loop.simps)

lemma tried_of_subset: "set (tried_of ok pws) \<subseteq> set pws"
  by (induction pws) auto

interpretation shadow_child: auth_backend
  "\<lambda>c'. sh_start crypt e msgs c \<and> c' = snd (sh_run_pw_backend_child crypt c)"
  "\<lambda>c'. pipe_data (io_out c')" "\<lambda>c'. \<exists>pw \<in> set (passwords_in msgs). crypt pw e = Some e" for crypt e msgs c
proof
  fix c'
  assume a: "sh_start crypt e msgs c \<and> c' = snd (sh_run_pw_backend_child crypt c)"
  let ?tried = "tried_of (\<lambda>pw. crypt pw e = Some e) (passwords_in msgs)"
  let ?msgs = "map (\<lambda>pw. sh_verdict (crypt pw e = Some e)) ?tried"
  have "pipe_data (io_out c') = concat (map frame_bytes ?msgs)"
    using sh_start_served [of crypt e msgs c] a by (simp add: sh_served_def sh_start_def Let_def comp_def)
  moreover have "short_messages ?msgs"
    by (simp add: short_messages_def list_all_iff sh_verdict_def)
  moreover have "\<exists>pw \<in> set (passwords_in msgs). crypt pw e = Some e"
    if "(COMM_MSG_AUTH_RESULT, 1 # body) \<in> set ?msgs" for body
    using that tried_of_subset [of "\<lambda>pw. crypt pw e = Some e" "passwords_in msgs"]
    by (auto simp: sh_verdict_def split: if_splits)
  ultimately show "\<exists>msgs'. pipe_data (io_out c') = concat (map frame_bytes msgs') \<and> short_messages msgs' \<and>
      (\<forall>body. (COMM_MSG_AUTH_RESULT, 1 # body) \<in> set msgs' \<longrightarrow> (\<exists>pw \<in> set (passwords_in msgs). crypt pw e = Some e))"
    by blast
qed


end
