(* ===== verification/Session.thy ===== *)
theory Session
  imports Lifecycle Pam Shadow
begin

text \<open>
  The main process and the authentication child together. The child writes bytes, the kernel hands them
  to the main process in arbitrary pieces, one for each turn of the event loop; what has arrived is at
  any time a prefix of what the child has written. The main process takes whole frames only, so that it
  never reads a verdict the child did not send. Together with the causes of unlocking this gives the
  security property of the program: the screen is unlocked only after the child has accepted a credential,
  unless the user recovers a locked session, sends \<^verbatim>\<open>SIGUSR1\<close>, or the connection to the compositor breaks.
\<close>

section \<open>The main process takes whole frames\<close>

definition takes_frames :: "byte list \<Rightarrow> swaylock_state \<Rightarrow> bool" where
  "takes_frames bs s \<longleftrightarrow>
     (\<exists>taken. list_all valid_message taken \<and> bs = concat (map frame_bytes taken) @ pipe_data (io_in s))"

lemma takes_none: "bs = pipe_data (io_in s) \<Longrightarrow> takes_frames bs s"
  unfolding takes_frames_def by (intro exI [of _ "[]"]) simp

lemma comm_in_frames:
  assumes "alive (comm_in E J r s)"
  shows "takes_frames (pipe_data (io_in s)) (comm_in E J r s)"
proof -
  obtain x s1 where x: "comm_main_read s = (x, s1)"
    by (cases "comm_main_read s")
  have dead: "\<not> alive (exit_with k s')" for k s'
    by (simp add: alive_def exit_with_def)
  show ?thesis
  proof (cases "comm_in E J r s = s")
    case True
    then show ?thesis
      by (simp add: takes_none)
  next
    case False
    then obtain ty payload len where c: "x = CommRet ty payload len" "0 < ty"
      "comm_in E J r s = handle_message E J (word_of_int ty) payload len s1"
      using assms x by (auto simp: comm_in_def dead split: if_splits comm_result.splits)
    obtain b body where "pipe_data (io_in s) = frame_bytes (b, body) @ pipe_data (io_in s1)" "valid_message (b, body)"
      using comm_read_taken [of s ty payload len s1] x c(1,2) by (auto simp: comm_main_read_def)
    moreover have "io_in (comm_in E J r s) = io_in s1"
      using quiet_message [of s1 E J "word_of_int ty" payload len] c(3) by (simp add: quiet_def)
    ultimately show ?thesis
      unfolding takes_frames_def by (intro exI [of _ "[(b, body)]"]) simp
  qed
qed

lemma turn_frames:
  assumes "fds_registered s" "alive (poll_turn E J t s)"
  shows "takes_frames (pipe_data (io_in s) @ tn_arrive t) (poll_turn E J t s)"
proof -
  let ?s0 = "arrive t s"
  let ?s1 = "fd_step E J (tn_dispatch t) Display_in (revent (tn_poll t) 0) ?s0"
  let ?s2 = "fd_step E J (tn_dispatch t) Comm_in (revent (tn_poll t) 1) ?s1"
  have dead: "\<not> alive (exit_with k s')" for k s'
    by (simp add: alive_def exit_with_def)
  have p: "tn_poll t \<noteq> Poll_failed" and a: "alive (serve_fds E J t s)"
    using assms dead by (auto simp: poll_turn_eq split: if_splits)
  have 1: "io_in ?s1 = io_in ?s0"
    using event_frame_dispatch
    by (auto simp: fd_step_def call_fd_def display_in_def wl_display_dispatch_def event_frame_def split: dispatch_result.split)
  have "alive ?s2"
    using a fd_step_dead unfolding serve_fds_def by metis
  then have 2: "takes_frames (pipe_data (io_in ?s0)) ?s2"
    using comm_in_frames [of E J "revent (tn_poll t) 1" ?s1] 1
    by (auto simp: fd_step_def call_fd_def takes_none split: if_splits)
  have "io_in (serve_fds E J t s) = io_in ?s2"
    by (simp add: serve_fds_def fd_step_def [of _ _ _ Term_in] call_fd_def term_in_def)
  moreover have "io_in (poll_turn E J t s) = io_in (serve_fds E J t s)"
    using event_frame_timers p a assms(1) by (simp add: poll_turn_eq event_frame_def)
  ultimately show ?thesis
    using 2 by (simp add: takes_frames_def arrive_def)
qed

lemma turns_frames:
  assumes "fds_registered s" "\<forall>j \<le> length ts. alive (fold (poll_turn E J) (take j ts) s)"
  shows "takes_frames (pipe_data (io_in s) @ concat (map tn_arrive ts)) (fold (poll_turn E J) ts s)"
  using assms
proof (induction ts arbitrary: s)
  case Nil
  then show ?case
    by (simp add: takes_none)
next
  case (Cons t ts)
  let ?s = "poll_turn E J t s"
  have "alive ?s" and rest: "\<forall>j \<le> length ts. alive (fold (poll_turn E J) (take j ts) ?s)"
    using Cons.prems(2) by (auto dest: spec [of _ "Suc 0"])
  then obtain taken where t: "list_all valid_message taken"
    "pipe_data (io_in s) @ tn_arrive t = concat (map frame_bytes taken) @ pipe_data (io_in ?s)"
    using turn_frames [OF Cons.prems(1), of E J t] by (auto simp: takes_frames_def)
  obtain taken' where t': "list_all valid_message taken'"
    "pipe_data (io_in ?s) @ concat (map tn_arrive ts) = concat (map frame_bytes taken') @ pipe_data (io_in (fold (poll_turn E J) ts ?s))"
    using Cons.IH [OF fds_poll_turn [OF Cons.prems(1)] rest] by (auto simp: takes_frames_def)
  have "pipe_data (io_in s) @ concat (map tn_arrive (t # ts)) =
      concat (map frame_bytes (taken @ taken')) @ pipe_data (io_in (fold (poll_turn E J) ts ?s))"
    using t(2) t'(2) by simp (metis append.assoc)
  then show ?case
    using t(1) t'(1) unfolding takes_frames_def by (intro exI [of _ "taken @ taken'"]) simp
qed

section \<open>Unlocking\<close>

text \<open>All the bytes that the main process ever receives from the child.\<close>

definition received :: "world \<Rightarrow> byte list" where
  "received w = pipe_data (io_in (w_io w)) @ concat (map tn_arrive (w_turns w))"

text \<open>Nothing but a verdict can end the event loop.\<close>

definition undisturbed :: "world \<Rightarrow> bool" where
  "undisturbed w \<longleftrightarrow> (\<forall>t \<in> set (w_turns w). tn_flush t \<and> tn_dispatch t \<noteq> Dispatch_failed \<and> \<not> signalled t)"

lemma unlock_needs_grant:
  assumes "main_program E J w = (sent, s)" "UnlockAndDestroy \<in> set (st_wire s)" "\<not> arg_steal_unlock (st_args s)"
    "undisturbed w"
  obtains taken body rest where "list_all valid_message taken" "valid_message (COMM_MSG_AUTH_RESULT, 1 # body)"
    "received w = concat (map frame_bytes taken) @ frame_bytes (COMM_MSG_AUTH_RESULT, 1 # body) @ rest"
proof -
  obtain s0 k where s0: "session_state E w = Some s0" "k < length (w_turns w)"
    "unlock_cause (w_turns w ! k) (fold (poll_turn E J) (take k (w_turns w)) s0)"
    "\<forall>j \<le> k. alive (fold (poll_turn E J) (take j (w_turns w)) s0)"
    using unlock_reason [OF assms(1,2)] assms(3) by blast
  note f = session_state_facts [OF s0(1)]
  let ?sk = "fold (poll_turn E J) (take k (w_turns w)) s0" and ?t = "w_turns w ! k"
  obtain body rest where g: "pipe_data (io_in ?sk) @ tn_arrive ?t = frame_bytes (COMM_MSG_AUTH_RESULT, 1 # body) @ rest"
    "valid_message (COMM_MSG_AUTH_RESULT, 1 # body)"
    using s0(2,3) assms(4) by (auto simp: unlock_cause_def undisturbed_def grant_pending_def)
  have "\<forall>j \<le> length (take k (w_turns w)). alive (fold (poll_turn E J) (take j (take k (w_turns w))) s0)"
    using s0(4) by simp
  from turns_frames [OF f(4) this] obtain taken where t: "list_all valid_message taken"
    "pipe_data (io_in (w_io w)) @ concat (map tn_arrive (take k (w_turns w))) =
      concat (map frame_bytes taken) @ pipe_data (io_in ?sk)"
    using f(6) by (auto simp: takes_frames_def)
  have w: "w_turns w = take k (w_turns w) @ ?t # drop (Suc k) (w_turns w)"
    using id_take_nth_drop [OF s0(2)] .
  have "received w = (pipe_data (io_in (w_io w)) @ concat (map tn_arrive (take k (w_turns w)))) @
      tn_arrive ?t @ concat (map tn_arrive (drop (Suc k) (w_turns w)))"
    unfolding received_def by (subst w) simp
  also have "\<dots> = concat (map frame_bytes taken) @ (pipe_data (io_in ?sk) @ tn_arrive ?t) @
      concat (map tn_arrive (drop (Suc k) (w_turns w)))"
    by (simp add: t(2))
  finally show thesis
    using that [OF t(1) g(2)] g(1) by simp
qed

text \<open>
  C1: with the PAM child, and unless the user recovers a locked session or the event loop is disturbed
  by a signal or a failing connection, the main process unlocks the session only if \<^verbatim>\<open>pam_authenticate\<close>
  has returned success in the child. The child may be in any state it can reach, and any part of its output may
  have arrived, cut into pieces in any way.
\<close>

theorem unlock_needs_pam_success:
  assumes "main_program E J w = (sent, s)" "UnlockAndDestroy \<in> set (st_wire s)" "\<not> arg_steal_unlock (st_args s)"
    "undisturbed w" "printer_ok K" "benign c0" "pipe_data (io_out c0) = []"
    "child_reaches K pam cw c0 (ph, sts, c)" "pipe_data (io_out c) = received w @ coming"
  shows "PAM_SUCCESS \<in> set sts"
proof -
  obtain taken body rest where g: "list_all valid_message taken" "valid_message (COMM_MSG_AUTH_RESULT, 1 # body)"
    "received w = concat (map frame_bytes taken) @ frame_bytes (COMM_MSG_AUTH_RESULT, 1 # body) @ rest"
    using unlock_needs_grant [OF assms(1-4)] .
  show ?thesis
    using pam_child.grant_accepted [where J = K and ?c0.0 = c0 and pam = pam and w = cw and c = "(ph, sts, c)",
        OF _ g(1,2), of "rest @ coming"] assms(5-9) g(3) by simp
qed


section \<open>A concrete session\<close>

lemma sample_grant_unlocks:
  obtains sent s where "main_program E (J :: unit cjson) (sample_world [] [sample_turn]) = (sent, s)"
    "UnlockAndDestroy \<in> set (st_wire s)" "\<not> arg_steal_unlock (st_args s)"
proof -
  let ?w = "sample_world [] [sample_turn]"
  obtain s0 where s: "session_state E ?w = Some s0" "alive s0" "benign s0" "pipe_data (io_in s0) = []"
    "st_args s0 = default_args"
    by (rule sample_session)
  note f = session_state_facts [OF s(1)]
  have l: "event_loop E J [sample_turn] s0 = (True, poll_turn E J sample_turn s0)"
    using s sample_turn_facts
    by (intro grant_turn [OF s(2) f(5,4) s(3), of sample_turn "[]" "[]"]) (simp_all add: default_args_def)
  obtain sent s' where m: "main_program E J ?w = (sent, s')"
    by (cases "main_program E J ?w")
  have "s' = exit_with 0 (unlock_and_destroy (poll_turn E J sample_turn s0))"
    using m s(1) l main_program_eq [of E J ?w] by simp
  moreover have "st_args (poll_turn E J sample_turn s0) = default_args"
    using keeps_event_loop [OF f(4) l] s(5) by (simp add: keeps_def)
  ultimately show thesis
    using that [OF m] by (simp add: exit_with_def unlock_and_destroy_def send_request_def default_args_def)
qed

lemma sample_undisturbed: "undisturbed (sample_world [] [sample_turn])"
  by (simp add: undisturbed_def sample_turn_def signalled_def revent_def)

lemma sample_received: "received (sample_world [] [sample_turn]) = frame_bytes (COMM_MSG_AUTH_RESULT, [1])"
  by (simp add: received_def) (simp add: sample_world_def sample_io_def sample_turn_def)

text \<open>A PAM stack that lets everybody in: the child finishes at once with a granting verdict.\<close>

definition sample_accept :: "json_value child" where
  "sample_accept = child_run sample_json (\<lambda>_ _. Finish PAM_SUCCESS) sample_child_env 1
     (run_pw_backend_child sample_child_env (sample_conv []))"

lemma sample_accept_fields:
  "fst sample_accept = Exited 0" "fst (snd sample_accept) = [PAM_SUCCESS]"
  "pipe_data (io_out (snd (snd sample_accept))) = frame_bytes (COMM_MSG_AUTH_RESULT, [1])"
  by code_simp+

theorem unlock_needs_pam_success_witness:
  "\<forall>E (J :: unit cjson). \<exists>sent s. main_program E J (sample_world [] [sample_turn]) = (sent, s) \<and>
     UnlockAndDestroy \<in> set (st_wire s) \<and> PAM_SUCCESS \<in> set (fst (snd sample_accept))"
proof (intro allI)
  fix E and J :: "unit cjson"
  obtain sent s where m: "main_program E J (sample_world [] [sample_turn]) = (sent, s)"
    "UnlockAndDestroy \<in> set (st_wire s)" "\<not> arg_steal_unlock (st_args s)"
    by (rule sample_grant_unlocks)
  have r: "child_reaches sample_json (\<lambda>_ _. Finish PAM_SUCCESS) sample_child_env (sample_conv [])
      (fst sample_accept, fst (snd sample_accept), snd (snd sample_accept))"
    unfolding prod.collapse sample_accept_def by (rule child_run_reaches [OF child_start])
  have "PAM_SUCCESS \<in> set (fst (snd sample_accept))"
    by (rule unlock_needs_pam_success [OF m sample_undisturbed sample_printer sample_conv_ok(1,4) r, of "[]"])
      (simp add: sample_accept_fields(3) sample_received)
  then show "\<exists>sent s. main_program E J (sample_world [] [sample_turn]) = (sent, s) \<and>
     UnlockAndDestroy \<in> set (st_wire s) \<and> PAM_SUCCESS \<in> set (fst (snd sample_accept))"
    using m(1,2) by blast
qed


section \<open>The password on its way\<close>



section \<open>Lists of authd on their way\<close>

text \<open>
  What is used of the JSON library: a printed text is a C string that parses to the value it was printed
  from, an array has the elements that were appended, and an object made of strings yields the first
  string that was stored under a name.
\<close>

definition json_strings :: "('j, 'm) json_lib_scheme \<Rightarrow> (string \<times> string) list \<Rightarrow> 'j" where
  "json_strings J kvs = foldl (\<lambda>obj (k, v). jl_add_string J obj k v) (jl_object J) kvs"

definition json_laws :: "('j, 'm) json_lib_scheme \<Rightarrow> bool" where
  "json_laws J \<longleftrightarrow>
     (\<forall>v t. jl_print J (Some v) = Some t \<longrightarrow>
        t \<noteq> [] \<and> CHR 0x00 \<notin> set t \<and> js_parse J (Some (bytes_of_string t)) = Some v) \<and>
     (\<forall>vs. let arr = foldl (jl_append J) (jl_array J) vs in
        js_is_array J arr \<and> js_array_size J arr = length vs \<and>
        (\<forall>i < length vs. js_array_item J arr i = Some (vs ! i))) \<and>
     (\<forall>kvs k. cjson_string J (js_object_item J (Some (json_strings J kvs)) k) = map_of kvs k)"

text \<open>The string member of an element.\<close>

definition member_text :: "('j, 'm) json_lib_scheme \<Rightarrow> 'j \<Rightarrow> string \<Rightarrow> string option" where
  "member_text J b k = cjson_string J (js_object_item J (Some b) k)"

lemma summary_members:
  assumes "json_laws J" "other \<noteq> ''id''"
  shows "cjson_string J (js_object_item J (Some (summary J other b)) ''id'') = member_text J b ''id''"
    "cjson_string J (js_object_item J (Some (summary J other b)) other) = member_text J b other"
proof -
  let ?kvs = "(case member_text J b ''id'' of None \<Rightarrow> [] | Some v \<Rightarrow> [(''id'', v)]) @
      (case member_text J b other of None \<Rightarrow> [] | Some v \<Rightarrow> [(other, v)])"
  have "summary J other b = json_strings J ?kvs"
    by (simp add: summary_def json_strings_def Let_def member_text_def split: option.split)
  moreover have "map_of ?kvs ''id'' = member_text J b ''id''" "map_of ?kvs other = member_text J b other"
    using assms(2) by (auto split: option.split)
  ultimately show "cjson_string J (js_object_item J (Some (summary J other b)) ''id'') = member_text J b ''id''"
    "cjson_string J (js_object_item J (Some (summary J other b)) other) = member_text J b other"
    using assms(1) by (simp_all add: json_laws_def)
qed

text \<open>The event that announces the brokers, as the child gets it from the PAM module.\<close>

definition announces_brokers :: "('j, 'm) json_lib_scheme \<Rightarrow> string \<Rightarrow> 'j list \<Rightarrow> bool" where
  "announces_brokers J json infos \<longleftrightarrow>
     (\<exists>doc. js_parse J (Some (bytes_of_string json)) = Some doc \<and> member_text J doc ''type'' = Some ''event'' \<and>
        (let event = js_object_item J (Some doc) ''event'' in
         cjson_string J (js_object_item J event ''type'') = Some ''brokersReceived'' \<and>
         jl_children J (js_object_item J event ''brokersInfos'') = infos))"

lemma brokers_told:
  assumes "announces_brokers J json infos" "benign c"
    "jl_print J (Some (foldl (jl_append J) (jl_array J) (map (summary J ''name'') infos))) = Some t"
  shows "pipe_data (io_out (snd (handle_gdm_json J (Some json) c))) =
    pipe_data (io_out c) @ frame_bytes (COMM_MSG_BROKERS, bytes_of_string t)"
  using assms says_tell [OF assms(2), of COMM_MSG_BROKERS "bytes_of_string t"]
  by (auto simp: announces_brokers_def handle_gdm_json_def on_event_def tell_json_def summaries_def member_text_def
      says_def Let_def)


text \<open>A library that knows two texts: an event with one broker, and the list of that broker.\<close>

definition sample_broker :: json_value where
  "sample_broker = JObject [(''id'', JString ''1''), (''name'', JString ''me'')]"

definition sample_event :: json_value where
  "sample_event = JObject [(''type'', JString ''event''), (''event'', JObject [(''type'', JString ''brokersReceived''),
     (''brokersInfos'', JArray [sample_broker])])]"

definition two_texts :: "json_value json_lib" where
  "two_texts = sample_json
     \<lparr>js_parse := (\<lambda>t. if t = Some (bytes_of_string ''e'') then Some sample_event
                    else if t = Some (bytes_of_string ''b'') then Some (JArray [sample_broker]) else None),
      jl_print := (\<lambda>v. if v = Some (JArray [sample_broker]) then Some ''b'' else None)\<rparr>"

lemma two_texts_array: "foldl (jl_append two_texts) (jl_array two_texts) vs = JArray vs"
proof -
  have "foldl (jl_append two_texts) (JArray us) vs = JArray (us @ vs)" for us
    by (induction vs arbitrary: us) (simp_all add: two_texts_def sample_json_def)
  then show ?thesis
    by (simp add: two_texts_def sample_json_def)
qed

lemma two_texts_object: "json_strings two_texts kvs = JObject (map (\<lambda>(k, v). (k, JString v)) kvs)"
proof -
  have "foldl (\<lambda>obj (k, v). jl_add_string two_texts obj k v) (JObject us) kvs =
      JObject (us @ map (\<lambda>(k, v). (k, JString v)) kvs)" for us
    by (induction kvs arbitrary: us) (auto simp: two_texts_def sample_json_def)
  then show ?thesis
    by (simp add: json_strings_def) (simp add: two_texts_def sample_json_def)
qed

lemma two_texts_laws: "json_laws two_texts"
proof -
  have "cjson_string two_texts (js_object_item two_texts (Some (JObject (map (\<lambda>(k, v). (k, JString v)) kvs))) k) =
      map_of kvs k" for kvs k
    by (induction kvs) (auto simp: two_texts_def sample_json_def cjson_string_def)
  moreover have "bytes_of_string ''e'' \<noteq> bytes_of_string ''b''"
    by code_simp
  ultimately show ?thesis
    unfolding json_laws_def two_texts_array two_texts_object
    by (auto simp: Let_def) (auto simp: two_texts_def sample_json_def split: if_splits)
qed


end
