(* ===== verification/Attempt.thy ===== *)
theory Attempt
  imports Session
begin

text \<open>
  One attempt from the key that submits it to its answer, with either child: the typed text is framed and
  sent, the child checks it and sends its verdict, and the turn of the event loop in which the verdict
  arrives either ends the loop or counts a failure. This is the converse of the security property of
  \<open>Session\<close>: who knows the password gets in, and in the first turn after the verdict.
\<close>

section \<open>Writing uses up choices of the kernel and adds none\<close>

lemma write_full_choices: "set (snd (snd (write_full p sch bs))) \<subseteq> set sch"
  by (induction p sch bs rule: write_full.induct) (auto split: io_choice.split)

lemma comm_write_choices: "set (io_wr (snd (comm_write io ty payload len))) \<subseteq> set (io_wr io)"
proof -
  have w: "set sch' \<subseteq> set sch" if "write_full p sch bs = (r, p', sch')" for p sch bs r p' sch'
    using write_full_choices [of p sch bs] that by simp
  show ?thesis
    by (auto simp: comm_write_def split: prod.split dest!: w)
qed

lemma benign_send:
  assumes "benign io"
  shows "benign (snd (snd (write_comm_password io pw)))"
proof -
  have "set (snd (next_result True (io_mem io))) \<subseteq> set (io_mem io)"
    by (cases "io_mem io") (auto simp: next_result_def)
  moreover have "Fail \<notin> set (io_wr (snd (comm_write io' ty p n)))" "io_rd (snd (comm_write io' ty p n)) = io_rd io'"
    "io_mem (snd (comm_write io' ty p n)) = io_mem io'" if "Fail \<notin> set (io_wr io')" for io' :: "'a proc_io_scheme" and ty p n
    using comm_write_choices [of io' ty p n] that by (auto simp: comm_write_def split: prod.split)
  ultimately show ?thesis
    using assms by (auto simp: write_comm_password_def comm_main_write_def benign_def Let_def case_prod_unfold split: option.split)
qed

lemma benign_submit:
  assumes "benign s" "pw_repr (st_password s) cps" "submits s cps"
    "fst (password_buffer_lock (io_mlock_supported s) (io_mlock s))"
  shows "benign (submit_password E s)"
proof -
  let ?s1 = "cancel_input_idle (cancel_password_clear
      (s\<lparr>st_input_state := INPUT_STATE_IDLE, st_auth_state := AUTH_STATE_VALIDATING\<rparr>))"
  let ?w = "write_comm_password ?s1 (st_password s)"
  have s1: "io_mlock_supported ?s1 = io_mlock_supported s" "io_mlock ?s1 = io_mlock s" "benign ?s1"
    using assms(1) by (simp_all add: timer_eqs benign_def)
  then have "fst ?w"
    using write_comm_password_sends [of ?s1 "st_password s" cps] assms(2,4) by simp
  moreover have "benign (snd (snd ?w))"
    by (rule benign_send [OF s1(3)])
  ultimately show ?thesis
    using submit_effect [OF assms(3,2)] by (simp add: benign_def)
qed

section \<open>The shadow child on one password\<close>

lemma passwords_in_single:
  assumes "list_all (\<lambda>m. valid_message m \<and> fst m \<noteq> COMM_MSG_PASSWORD) others" "0 \<notin> set pw"
  shows "passwords_in (others @ [(COMM_MSG_PASSWORD, pw @ [0])]) = [pw]"
  using assms by (auto simp: passwords_in_def list_all_iff filter_empty_conv cstr_append_nul)

text \<open>A child that has served all earlier attempts.\<close>

definition sh_waiting :: "byte list \<Rightarrow> shadow_state \<Rightarrow> bool" where
  "sh_waiting e c \<longleftrightarrow> benign c \<and> sh_encpw c = Some e \<and> pipe_data (io_out c) = [] \<and> pipe_wopen (io_in c)"

lemma shadow_verdict:
  assumes "sh_waiting e c" "list_all (\<lambda>m. valid_message m \<and> fst m \<noteq> COMM_MSG_PASSWORD) others"
    "0 \<notin> set pw" "length pw < 2 ^ 20" "crypt pw e \<noteq> None"
    "pipe_data (io_in c) = concat (map frame_bytes others) @ frame_bytes (COMM_MSG_PASSWORD, pw @ [0])"
  shows "pipe_data (io_out (snd (sh_run_pw_backend_child crypt c))) = frame_bytes (sh_verdict (crypt pw e = Some e))"
    "fst (sh_run_pw_backend_child crypt c) = (if crypt pw e = Some e then Sh_exit 0 else Sh_blocked)"
proof -
  let ?ms = "others @ [(COMM_MSG_PASSWORD, pw @ [0])]"
  note p = passwords_in_single [OF assms(2,3)]
  have "sh_start crypt e ?ms c"
    using assms p by (auto simp: sh_start_def sh_waiting_def valid_message_def comm_msg_defs list_all_iff)
  from sh_start_served [OF this] show
    "pipe_data (io_out (snd (sh_run_pw_backend_child crypt c))) = frame_bytes (sh_verdict (crypt pw e = Some e))"
    "fst (sh_run_pw_backend_child crypt c) = (if crypt pw e = Some e then Sh_exit 0 else Sh_blocked)"
    using assms(1) p by (auto simp: sh_served_def sh_waiting_def Let_def)
qed

section \<open>The main process\<close>

text \<open>The event loop is waiting and all messages have been read.\<close>

definition listens :: "swaylock_state \<Rightarrow> bool" where
  "listens s \<longleftrightarrow> alive s \<and> st_run_display s \<and> fds_registered s \<and> main_inv None s \<and> benign s \<and>
     arg_mode (st_args s) \<noteq> BACKGROUND_MODE_INVALID \<and> pipe_data (io_in s) = []"

text \<open>The text \<open>cps\<close> has been typed and may be submitted.\<close>

definition attempts :: "swaylock_state \<Rightarrow> u32 list \<Rightarrow> bool" where
  "attempts s cps \<longleftrightarrow> pw_repr (st_password s) cps \<and> pw_buffer_len (st_password s) \<le> 2 ^ 20 \<and> submits s cps \<and>
     fst (password_buffer_lock (io_mlock_supported s) (io_mlock s))"

text \<open>A turn in which the child's pipe alone is readable, and the bytes \<open>bs\<close> arrive in it.\<close>

definition delivers :: "turn \<Rightarrow> byte list \<Rightarrow> bool" where
  "delivers t bs \<longleftrightarrow> tn_flush t \<and> tn_poll t = Polled [0, POLLIN, 0] \<and> tn_arrive t = bs"

lemma delivers_facts:
  assumes "delivers t bs"
  shows "tn_flush t" "tn_poll t \<noteq> Poll_failed" "revent (tn_poll t) 0 = 0" "revent (tn_poll t) 1 AND POLLERR = 0"
    "revent (tn_poll t) 1 AND POLLIN \<noteq> 0" "revent (tn_poll t) 2 = 0" "tn_arrive t = bs"
  using assms by (simp_all add: delivers_def revent_def POLLIN_def POLLERR_def)

lemma listens_submit:
  assumes "listens s" "attempts s cps"
  shows "listens (submit_password E s)"
proof -
  have "key_quiet s (submit_password E s)"
    by (rule key_quiet_submit)
  then show ?thesis
    using assms benign_submit [of s cps E] inv_submit [of None s E] fds_quiet [of s "submit_password E s"]
    by (auto simp: listens_def attempts_def key_quiet_def quiet_def alive_def)
qed

text \<open>A turn that delivers a refusal does not end the loop.\<close>

lemma denial_turn:
  assumes "listens s" "delivers t (frame_bytes (COMM_MSG_AUTH_RESULT, [0]))"
  shows "event_loop E J (t # ts) s = event_loop E J ts (poll_turn E J t s)"
    "st_failed_attempts (comm_in E J (revent (tn_poll t) 1) (arrive t s)) = st_failed_attempts s + 1"
    "st_auth_state (comm_in E J (revent (tn_poll t) 1) (arrive t s)) = AUTH_STATE_INVALID"
proof -
  note d = delivers_facts [OF assms(2)]
  let ?s = "comm_in E J (revent (tn_poll t) 1) (arrive t s)"
  have a: "main_inv None (arrive t s)" "benign (arrive t s)" "alive (arrive t s)"
    "pipe_data (io_in (arrive t s)) = frame_bytes (COMM_MSG_AUTH_RESULT, [0]) @ []"
    "arg_mode (st_args (arrive t s)) \<noteq> BACKGROUND_MODE_INVALID"
    using assms d(7) by (simp_all add: listens_def arrive_def main_inv_def benign_def alive_def)
  have r: "st_run_display ?s" "st_exit ?s = None" "st_auth_state ?s = AUTH_STATE_INVALID"
    "st_failed_attempts ?s = st_failed_attempts s + 1"
    using comm_in_denied [OF a(1,2) _ _ a(4) d(4,5) a(5), of E J] assms(1) a(3)
    by (simp_all add: Let_def listens_def arrive_def alive_def)
  then show "st_failed_attempts ?s = st_failed_attempts s + 1" "st_auth_state ?s = AUTH_STATE_INVALID"
    by simp_all
  have "fd_step E J (tn_dispatch t) Comm_in (revent (tn_poll t) 1) (arrive t s) = ?s"
    using a(3) d(5) by (auto simp: fd_step_def call_fd_def bit.conj_disj_distrib or_eq_0_iff)
  then have serve: "serve_fds E J t s = ?s"
    using d(3,6) by (simp add: serve_fds_def fd_step_def)
  have args: "arg_mode (st_args ?s) \<noteq> BACKGROUND_MODE_INVALID"
    using keeps_comm_in [of "arrive t s" E J "revent (tn_poll t) 1"] a(5) by (simp add: keeps_def)
  let ?u = "dispatch_timers st_eventloop put_loop alive (call_timer E) (tn_now t)
    (map lt_id (lp_timers (st_eventloop ?s))) ?s"
  have "poll_turn E J t s = ?u"
    using poll_turn_eq [of s E J t] assms(1) d(2) r(2) serve by (simp add: listens_def alive_def)
  moreover have "st_run_display ?u"
    using r(1) event_frame_timers [of ?s] by (simp add: event_frame_def)
  moreover have "alive ?u"
    using r(2) args quiet_timers [of ?s] by (simp add: quiet_def alive_def)
  ultimately show "event_loop E J (t # ts) s = event_loop E J ts (poll_turn E J t s)"
    using assms(1) d(1) by (simp add: event_loop.simps listens_def)
qed

section \<open>The attempt\<close>

text \<open>
  The answer to an attempt in the turn \<open>t\<close>: a verdict that grants access ends the event loop; any other is
  shown and counted once, and the loop goes on.
\<close>

definition answered ::
    "libs \<Rightarrow> ('j, 'm) cjson_scheme \<Rightarrow> turn \<Rightarrow> turn list \<Rightarrow> swaylock_state \<Rightarrow> bool \<Rightarrow> bool" where
  "answered E J t ts s granted \<longleftrightarrow>
     (let u = poll_turn E J t s; v = comm_in E J (revent (tn_poll t) 1) (arrive t s)
      in if granted then event_loop E J (t # ts) s = (True, u)
         else event_loop E J (t # ts) s = event_loop E J ts u \<and>
           st_auth_state v = AUTH_STATE_INVALID \<and> st_failed_attempts v = st_failed_attempts s + 1)"

lemma verdict_answered:
  assumes "listens s" "delivers t (frame_bytes (COMM_MSG_AUTH_RESULT, [if granted then 1 else 0]))"
  shows "answered E J t ts s granted"
proof (cases granted)
  case True
  then have d: "delivers t (frame_bytes (COMM_MSG_AUTH_RESULT, 1 # []) @ [])"
    using assms(2) by simp
  note f = delivers_facts [OF d]
  have "pipe_data (io_in s) @ tn_arrive t = frame_bytes (COMM_MSG_AUTH_RESULT, 1 # []) @ []"
    "valid_message (COMM_MSG_AUTH_RESULT, 1 # [])"
    using assms(1) f(7) by (simp_all add: listens_def valid_message_def comm_msg_defs)
  from grant_turn [OF _ _ _ _ _ f(1-5) this, where E = E and J = J and ts = ts] show ?thesis
    using assms(1) True by (simp add: listens_def answered_def Let_def)
next
  case False
  then have "delivers t (frame_bytes (COMM_MSG_AUTH_RESULT, [0]))"
    using assms(2) by simp
  from denial_turn(1) [OF assms(1) this, of E J ts] denial_turn(2,3) [OF assms(1) this, of E J] show ?thesis
    using False by (simp add: answered_def Let_def)
qed

lemma return_submits: "\<not> authd_takes s XKB_KEY_Return \<Longrightarrow> swaylock_handle_key E XKB_KEY_Return cp s = submit_password E s"
  using authd_key_taken [of E XKB_KEY_Return s] by (auto simp: swaylock_handle_key_def handle_plain_key_def split: option.split)

text \<open>What the child finds in its pipe when the user has pressed Return.\<close>

lemma return_sends:
  assumes "listens s" "attempts s cps" "\<not> authd_takes s XKB_KEY_Return"
    "pipe_data (io_out s) = concat (map frame_bytes others)"
  shows "pipe_data (io_out (swaylock_handle_key E XKB_KEY_Return cp s)) =
      concat (map frame_bytes others) @ frame_bytes (COMM_MSG_PASSWORD, encode_all cps @ [0])"
    "0 \<notin> set (encode_all cps)" "length (encode_all cps) < 2 ^ 20"
    "listens (swaylock_handle_key E XKB_KEY_Return cp s)"
proof -
  have a: "pw_repr (st_password s) cps" "submits s cps" "benign s"
    "fst (password_buffer_lock (io_mlock_supported s) (io_mlock s))"
    using assms(1,2) by (simp_all add: attempts_def listens_def)
  show "pipe_data (io_out (swaylock_handle_key E XKB_KEY_Return cp s)) =
      concat (map frame_bytes others) @ frame_bytes (COMM_MSG_PASSWORD, encode_all cps @ [0])"
    using submit_sends [OF a(2,1,3,4), of E] assms(4) return_submits [OF assms(3)] by simp
  show "0 \<notin> set (encode_all cps)" "length (encode_all cps) < 2 ^ 20"
    using assms(2) encode_all_no_nul by (auto simp: attempts_def pw_repr_def)
  show "listens (swaylock_handle_key E XKB_KEY_Return cp s)"
    using listens_submit [OF assms(1,2)] return_submits [OF assms(3)] by simp
qed

text \<open>
  C5: the right password unlocks the session, and only a wrong one is refused. When the user presses Return
  and \<open>cps\<close> has been typed, the shadow child sends back one verdict; the turn in which it arrives ends the event loop
  if \<^verbatim>\<open>crypt\<close> maps the text to the encrypted password, and otherwise shows the failure, counts it once and goes on.
\<close>

theorem attempt_answered:
  assumes "listens s" "attempts s cps" "\<not> authd_takes s XKB_KEY_Return"
    "pipe_data (io_out s) = concat (map frame_bytes others)"
    "list_all (\<lambda>m. valid_message m \<and> fst m \<noteq> COMM_MSG_PASSWORD) others"
    "sh_waiting e c" "crypt (encode_all cps) e \<noteq> None"
    "pipe_data (io_in c) = pipe_data (io_out (swaylock_handle_key E XKB_KEY_Return cp s))"
    "delivers t (pipe_data (io_out (snd (sh_run_pw_backend_child crypt c))))"
  shows "answered E J t ts (swaylock_handle_key E XKB_KEY_Return cp s) (crypt (encode_all cps) e = Some e)"
proof -
  note r = return_sends(1) [OF assms(1-4), of E cp] return_sends(2,3) [OF assms(1-4)] return_sends(4) [OF assms(1-4), of E cp]
  have "pipe_data (io_out (snd (sh_run_pw_backend_child crypt c))) =
      frame_bytes (sh_verdict (crypt (encode_all cps) e = Some e))"
    using shadow_verdict(1) [where crypt = crypt and pw = "encode_all cps" and e = e, OF assms(6,5) r(2,3) assms(7)]
      assms(8) r(1) by simp
  then show ?thesis
    using verdict_answered [OF r(4), of t] assms(9) by (simp add: sh_verdict_def)
qed


definition sample_typed :: swaylock_state where
  "sample_typed = enter_loop (sample_world [] []) (sample_state\<lparr>st_password := append_ch sample_pw 0x61\<rparr>)"

lemma sample_typed_repr: "pw_repr (append_ch sample_pw 0x61) [0x61]" "pw_buffer_len (append_ch sample_pw 0x61) \<le> 2 ^ 20"
proof -
  have "pw_repr sample_pw []"
    by (simp add: pw_repr_def sample_pw_def)
  then show "pw_repr (append_ch sample_pw 0x61) [0x61]" "pw_buffer_len (append_ch sample_pw 0x61) \<le> 2 ^ 20"
    using append_ch_repr [of sample_pw "[]" "0x61"]
    by (simp_all add: sample_pw_def spec_append_def spec_fits_def utf8_chsize_def append_ch_def Let_def)
qed

lemma sample_typed_ready: "listens sample_typed" "attempts sample_typed [0x61]"
proof -
  have f: "st_password sample_typed = append_ch sample_pw 0x61" "st_args sample_typed = sample_args"
    "io_in sample_typed = io_in sample_io" "io_mlock_supported sample_typed" "io_mlock sample_typed = io_mlock sample_io"
    "st_auth_state sample_typed = AUTH_STATE_IDLE"
    by (simp_all add: sample_typed_def enter_loop_def sample_state_def sample_io_def)
  have "fst (password_buffer_lock True (io_mlock sample_io))"
    by (simp add: sample_io_def password_buffer_lock_def numeral_eq_Suc)
  then show "attempts sample_typed [0x61]"
    using sample_typed_repr f by (simp add: attempts_def submits_def sample_args_def)
  have "main_inv None (sample_state\<lparr>st_password := append_ch sample_pw 0x61\<rparr>)"
    by (rule inv_password [OF sample_inv sample_typed_repr(1)])
  then have "sys_inv sample_typed"
    unfolding sample_typed_def
    by (intro sys_inv_enter_loop) (simp add: sys_inv_def surfaces_ok_def sample_state_def created_names_def)
  then have "main_inv None sample_typed"
    by (simp add: sys_inv_def)
  then show "listens sample_typed"
    by (simp add: listens_def sample_typed_def enter_loop_def sample_state_def sample_io_def sample_args_def alive_def
        fds_registered_def loop_create_def loop_add_fd_def benign_def)
qed

lemma sample_typed_idle: "\<not> authd_takes sample_typed XKB_KEY_Return" "pipe_data (io_out sample_typed) = concat (map frame_bytes [])"
  by (simp_all add: authd_takes_def sample_typed_def enter_loop_def sample_state_def sample_io_def)

theorem attempt_answered_witness:
  "\<forall>E (J :: unit cjson). \<exists>s'. event_loop E J [sample_turn] (swaylock_handle_key E XKB_KEY_Return 0 sample_typed) = (True, s')"
proof (intro allI)
  fix E and J :: "unit cjson"
  let ?c = "(sample_shadow [(COMM_MSG_PASSWORD, [0x61, 0])])\<lparr>sh_encpw := Some [0x61]\<rparr>"
  let ?crypt = "\<lambda>pw e :: byte list. Some (rev pw)"
  have w: "sh_waiting [0x61] ?c" "pipe_data (io_in ?c) = frame_bytes (COMM_MSG_PASSWORD, [0x61] @ [0])"
    by (simp_all add: sh_waiting_def sample_shadow_def benign_def)
  have i: "pipe_data (io_in ?c) = pipe_data (io_out (swaylock_handle_key E XKB_KEY_Return 0 sample_typed))"
    using return_sends(1) [OF sample_typed_ready sample_typed_idle, of E 0] w(2) by (simp add: utf8_bytes_def)
  have "pipe_data (io_out (snd (sh_run_pw_backend_child ?crypt ?c))) = tn_arrive sample_turn"
    using shadow_verdict [where crypt = ?crypt and others = "[]" and pw = "[0x61]", OF w(1)] w(2) by (simp add: sample_turn_def sh_verdict_def)
  then have d: "delivers sample_turn (pipe_data (io_out (snd (sh_run_pw_backend_child ?crypt ?c))))"
    by (simp add: delivers_def) (simp add: sample_turn_def)
  from attempt_answered [where crypt = ?crypt and J = J and ts = "[]", OF sample_typed_ready sample_typed_idle _ w(1) _ i d]
  show "\<exists>s'. event_loop E J [sample_turn] (swaylock_handle_key E XKB_KEY_Return 0 sample_typed) = (True, s')"
    by (auto simp: utf8_bytes_def answered_def Let_def)
qed


end
