(* ===== verification/Overlay.thy ===== *)
theory Overlay
  imports Render Log
begin

text \<open>
  \<^verbatim>\<open>render_debug_overlay\<close> of \<^verbatim>\<open>src/render.c\<close>, in builds with the debug overlay: the newest lines of the
  log that fit are drawn at the bottom of a transparent buffer of the size of the output.

  The subpixel orders are those of the two drawing contexts, left by earlier calls. The surface of the
  overlay and its buffers belong to these builds only; the lines of \<^verbatim>\<open>create_surface\<close> and
  \<^verbatim>\<open>destroy_surface\<close> that concern them (\<^verbatim>\<open>src/main.c\<close>) are modelled here.
\<close>

section \<open>Drawing\<close>

datatype overlay_request =
  CreateOverlay
| GetOverlaySubsurface
| OverlayDesync
| OverlayPosition int int
| OverlayScale int
| AttachOverlay u32 u32 "cairo_op list"
| CommitOverlay
| DestroyOverlaySubsurface
| DestroyOverlay

definition overlay_font_size :: "swaylock_surface \<Rightarrow> real" where
  "overlay_font_size sf = 12 * of_int (sf_scale sf)"

definition overlay_pad :: "swaylock_surface \<Rightarrow> real" where
  "overlay_pad sf = 4 * of_int (sf_scale sf)"

definition overlay_line_h :: "libs \<Rightarrow> cairo_subpixel_order \<Rightarrow> string \<Rightarrow> swaylock_surface \<Rightarrow> int" where
  "overlay_line_h E order face sf =
     \<lceil>fe_height (lib_font_extents E (order, face, overlay_font_size sf)) + overlay_pad sf\<rceil>"

definition overlay_dims :: "swaylock_surface \<Rightarrow> int \<times> int" where
  "overlay_dims sf =
     (u32_int (sf_width sf * word_of_int (sf_scale sf)), u32_int (sf_height sf * word_of_int (sf_scale sf)))"

text \<open>The number of lines that fit; \<^verbatim>\<open>buf_h / line_h\<close> discards the fraction.\<close>

definition overlay_max_lines :: "int \<Rightarrow> int \<Rightarrow> int" where
  "overlay_max_lines buf_h line_h = (if line_h > 0 then buf_h sdiv line_h else 0)"

fun draw_log_lines :: "real \<Rightarrow> int \<Rightarrow> real \<Rightarrow> string list \<Rightarrow> cairo_op list" where
  "draw_log_lines pad line_h y [] = []"
| "draw_log_lines pad line_h y (l # ls) =
     [MoveTo pad y, ShowText l] @ draw_log_lines pad line_h (y + of_int line_h) ls"

definition overlay_ops ::
    "libs \<Rightarrow> cairo_subpixel_order \<Rightarrow> string \<Rightarrow> swaylock_surface \<Rightarrow> int \<Rightarrow> int \<times> int \<Rightarrow> string list \<Rightarrow> cairo_op list" where
  "overlay_ops E order face sf line_h dims shown =
     (let text_h = int (length shown) * line_h;
          text_top = snd dims - text_h;
          fe = lib_font_extents E (order, face, overlay_font_size sf)
      in [IdentityMatrix, SetAntialiasBest, SetSourceRgba 0 0 0 0, SetOperator OPERATOR_SOURCE, Paint,
          SetOperator OPERATOR_OVER, SetSourceRgba 0 0 0 (3 / 4),
          Rectangle 0 (of_int text_top) (of_int (fst dims)) (of_int text_h), Fill,
          SelectFontFace face, SetFontSize (overlay_font_size sf), SetSourceRgba 1 1 1 1] @
         draw_log_lines (overlay_pad sf) line_h (of_int text_top + fe_ascent fe + overlay_pad sf) shown)"

definition render_debug_overlay ::
    "libs \<Rightarrow> cairo_subpixel_order \<Rightarrow> cairo_subpixel_order \<Rightarrow> log_state \<Rightarrow> string \<Rightarrow> swaylock_surface \<Rightarrow>
       pool_buffer list \<Rightarrow> shm_env \<Rightarrow> overlay_request list \<times> pool_buffer list \<times> shm_env" where
  "render_debug_overlay E test_order buf_order logs face sf bufs shm =
     (let ls = swaylock_log_get_overlay logs; count = int (length ls)
      in if sf_width sf = 0 \<or> sf_height sf = 0 \<or> count = 0 then ([], bufs, shm)
         else
           (let line_h = overlay_line_h E test_order face sf; dims = overlay_dims sf
            in case get_next_buffer shm bufs (word_of_int (fst dims)) (word_of_int (snd dims)) of
                 (None, bufs', shm') \<Rightarrow> ([], bufs', shm')
               | (Some i, bufs', shm') \<Rightarrow>
                   (let max_lines = overlay_max_lines (snd dims) line_h
                    in if max_lines \<le> 0 then ([], bufs', shm')
                       else
                         (let shown = (if count < max_lines then count else max_lines)
                          in ([OverlayPosition 0 0, OverlayScale (sf_scale sf),
                               AttachOverlay (word_of_int (fst dims)) (word_of_int (snd dims))
                                 (overlay_ops E buf_order face sf line_h dims (drop (nat (count - shown)) ls)),
                               CommitOverlay], bufs', shm')))))"

section \<open>The surface of the overlay\<close>

record overlay =
  ov_surface :: bool
  ov_sub :: bool
  ov_buffers :: "pool_buffer list"

definition no_overlay :: overlay where
  "no_overlay = \<lparr>ov_surface = False, ov_sub = False, ov_buffers = [empty_buffer, empty_buffer]\<rparr>"

definition create_overlay :: "overlay \<Rightarrow> overlay_request list \<times> overlay" where
  "create_overlay ov =
     ([CreateOverlay, GetOverlaySubsurface, OverlayDesync], ov\<lparr>ov_surface := True, ov_sub := True\<rparr>)"

definition destroy_overlay :: "overlay \<Rightarrow> overlay_request list \<times> overlay" where
  "destroy_overlay ov =
     ((if ov_sub ov then [DestroyOverlaySubsurface] else []) @ (if ov_surface ov then [DestroyOverlay] else []),
      ov\<lparr>ov_buffers := map destroy_buffer (ov_buffers ov)\<rparr>)"

text \<open>Requests on the overlay are made between its creation and its destruction only.\<close>

fun overlay_conforms :: "bool \<Rightarrow> bool \<Rightarrow> overlay_request list \<Rightarrow> bool" where
  "overlay_conforms srf sub [] = True"
| "overlay_conforms srf sub (r # rs) =
     (case r of
        CreateOverlay \<Rightarrow> \<not> srf \<and> overlay_conforms True sub rs
      | GetOverlaySubsurface \<Rightarrow> srf \<and> \<not> sub \<and> overlay_conforms srf True rs
      | OverlayDesync \<Rightarrow> sub \<and> overlay_conforms srf sub rs
      | OverlayPosition _ _ \<Rightarrow> sub \<and> overlay_conforms srf sub rs
      | DestroyOverlaySubsurface \<Rightarrow> sub \<and> overlay_conforms srf False rs
      | DestroyOverlay \<Rightarrow> srf \<and> \<not> sub \<and> overlay_conforms False sub rs
      | _ \<Rightarrow> srf \<and> overlay_conforms srf sub rs)"

lemma overlay_drawn_conforms:
  "overlay_conforms True True (fst (render_debug_overlay E test_order buf_order logs face sf bufs shm) @ rs) =
     overlay_conforms True True rs"
  by (simp add: render_debug_overlay_def Let_def split: prod.split option.split)

text \<open>
  From its creation over any number of frames to its destruction the overlay is used according to the protocol, and
  at the end its buffers are released.
\<close>

theorem overlay_lifetime:
  "let ov = snd (create_overlay no_overlay);
       frames = concat (map (\<lambda>(logs, sf, bufs, shm). fst (render_debug_overlay E test_order buf_order logs face sf bufs shm)) runs);
       (reqs, ov') = destroy_overlay (ov\<lparr>ov_buffers := bufs\<rparr>)
   in overlay_conforms False False (fst (create_overlay no_overlay) @ frames @ reqs) \<and>
      set (ov_buffers ov') \<subseteq> {empty_buffer}"
proof -
  have "overlay_conforms True True (concat (map (\<lambda>(logs, sf, bufs, shm).
      fst (render_debug_overlay E test_order buf_order logs face sf bufs shm)) runs) @ rs) = overlay_conforms True True rs" for rs
    by (induction runs) (auto simp: overlay_drawn_conforms)
  then show ?thesis
    by (auto simp: create_overlay_def destroy_overlay_def no_overlay_def destroy_buffer_def Let_def)
qed

section \<open>What is shown\<close>

fun shown_texts :: "cairo_op list \<Rightarrow> string list" where
  "shown_texts [] = []"
| "shown_texts (ShowText t # ops) = t # shown_texts ops"
| "shown_texts (_ # ops) = shown_texts ops"

lemma shown_texts_lines: "shown_texts (draw_log_lines pad line_h y ls) = ls"
  by (induction ls arbitrary: y) simp_all

lemma shown_texts_overlay: "shown_texts (overlay_ops E order face sf line_h dims shown) = shown"
  by (simp add: overlay_ops_def Let_def shown_texts_lines)

lemma overlay_max_lines_fit:
  assumes "0 < overlay_max_lines h l"
  shows "0 < l" "overlay_max_lines h l * l \<le> h" "h < (overlay_max_lines h l + 1) * l"
proof -
  have l: "0 < l" "0 < h sdiv l"
    using assms by (auto simp: overlay_max_lines_def split: if_splits)
  have "0 \<le> h"
  proof (rule ccontr)
    assume "\<not> 0 \<le> h"
    then have "h sdiv l = - ((- h) div l)" "0 \<le> (- h) div l"
      using l(1) by (simp_all add: signed_divide_int_def pos_imp_zdiv_nonneg_iff)
    then show False
      using l(2) by simp
  qed
  then have m: "overlay_max_lines h l = h div l"
    using l by (simp add: overlay_max_lines_def signed_divide_int_def sgn_if abs_if)
  show "0 < l"
    by (rule l(1))
  have "h div l * l + h mod l = h" "0 \<le> h mod l" "h mod l < l"
    using l(1) by simp_all
  then show "overlay_max_lines h l * l \<le> h" "h < (overlay_max_lines h l + 1) * l"
    unfolding m distrib_right by linarith+
qed

text \<open>
  C38: when the overlay is drawn it shows, from top to bottom, the newest lines of the log, each admitted message cut
  to its length, as many as fit: either all that the ring keeps or so many that one more would not fit.
  The band behind them is the bottom of the buffer and lies inside it.
\<close>

theorem overlay_shows_newest:
  assumes "render_debug_overlay E test_order buf_order (log_all t tty ms (log_start\<lparr>log_importance := level\<rparr>)) face sf bufs shm =
      (reqs, bufs', shm')"
    "reqs \<noteq> []"
  shows "let line_h = overlay_line_h E test_order face sf; (w, h) = overlay_dims sf in
    \<exists>ops k. AttachOverlay (word_of_int w) (word_of_int h) ops \<in> set reqs \<and>
      shown_texts ops = drop k (last_lines (admitted level ms)) \<and> shown_texts ops \<noteq> [] \<and>
      (k = 0 \<or> h < (int (length (shown_texts ops)) + 1) * line_h) \<and>
      (\<exists>top. Rectangle 0 (of_int top) (of_int w) (of_int (h - top)) \<in> set ops \<and> 0 \<le> top \<and>
         h - top = int (length (shown_texts ops)) * line_h)"
proof -
  let ?ls = "last_lines (admitted level ms)"
  have ls: "swaylock_log_get_overlay (log_all t tty ms (log_start\<lparr>log_importance := level\<rparr>)) = ?ls"
    using overlay_of_ring [OF log_all_ring [OF ring_holds_start [of level]]] by simp
  define line_h where "line_h = overlay_line_h E test_order face sf"
  obtain w h where d: "overlay_dims sf = (w, h)"
    by (cases "overlay_dims sf")
  define m where "m = overlay_max_lines h line_h"
  define n where "n = (if int (length ?ls) < m then int (length ?ls) else m)"
  define shown where "shown = drop (nat (int (length ?ls) - n)) ?ls"
  have r: "?ls \<noteq> []" "0 < m" "AttachOverlay (word_of_int w) (word_of_int h) (overlay_ops E buf_order face sf line_h (w, h) shown) \<in> set reqs"
    using assms unfolding render_debug_overlay_def Let_def ls d
    by (auto simp: line_h_def m_def n_def shown_def split: if_splits prod.splits option.splits)
  note fit = overlay_max_lines_fit [OF r(2) [unfolded m_def], folded m_def]
  have n: "0 < n" "n \<le> int (length ?ls)" "n \<le> m"
    using r(1,2) by (auto simp: n_def)
  have len: "int (length shown) = n"
    using n by (simp add: shown_def)
  have "n * line_h \<le> m * line_h"
    using n(3) fit(1) by simp
  then have top: "0 \<le> h - n * line_h"
    using fit(2) by simp
  have more: "nat (int (length ?ls) - n) = 0 \<or> h < (n + 1) * line_h"
    using fit(3) by (auto simp: n_def)
  have rect: "Rectangle 0 (of_int (h - n * line_h)) (of_int w) (of_int (h - (h - n * line_h))) \<in>
      set (overlay_ops E buf_order face sf line_h (w, h) shown)"
    by (simp add: overlay_ops_def Let_def len)
  show ?thesis
    unfolding d line_h_def [symmetric] Let_def prod.case
    by (rule exI [of _ "overlay_ops E buf_order face sf line_h (w, h) shown"], rule exI [of _ "nat (int (length ?ls) - n)"])
      (use r(3) more rect top n(1) len in \<open>auto simp: shown_texts_overlay shown_def [symmetric] intro!: exI [of _ "h - n * line_h"]\<close>)
qed

theorem overlay_shows_newest_witness:
  "\<forall>E. \<exists>ops. AttachOverlay 100 40 ops \<in> set (fst (render_debug_overlay
        (E\<lparr>lib_font_extents := (\<lambda>_. \<lparr>fe_ascent = 10, fe_descent = 2, fe_height = 12\<rparr>)\<rparr>)
        CAIRO_SUBPIXEL_ORDER_RGB CAIRO_SUBPIXEL_ORDER_RGB
        (log_all [] False [(1, ''a''), (1, ''b''), (1, ''c'')] (log_start\<lparr>log_importance := 1\<rparr>)) ''sans''
        (sample_surface\<lparr>sf_width := 100, sf_height := 40, sf_scale := 1\<rparr>)
        [empty_buffer, empty_buffer] \<lparr>se_open = [], se_truncate = []\<rparr>)) \<and> shown_texts ops = [''b'', ''c'']"
proof
  fix E :: libs
  let ?E = "E\<lparr>lib_font_extents := (\<lambda>_. \<lparr>fe_ascent = 10, fe_descent = 2, fe_height = 12\<rparr>)\<rparr>"
  let ?sf = "sample_surface\<lparr>sf_width := 100, sf_height := 40, sf_scale := 1\<rparr>"
  let ?run = "render_debug_overlay ?E CAIRO_SUBPIXEL_ORDER_RGB CAIRO_SUBPIXEL_ORDER_RGB
        (log_all [] False [(1, ''a''), (1, ''b''), (1, ''c'')] (log_start\<lparr>log_importance := 1\<rparr>)) ''sans'' ?sf
        [empty_buffer, empty_buffer] \<lparr>se_open = [], se_truncate = []\<rparr>"
  obtain reqs bufs' shm' where run: "?run = (reqs, bufs', shm')"
    by (metis prod.exhaust)
  have h: "overlay_line_h ?E CAIRO_SUBPIXEL_ORDER_RGB ''sans'' ?sf = 16" "overlay_dims ?sf = (100, 40)"
    by (simp_all add: overlay_line_h_def overlay_pad_def overlay_dims_def u32_int_def)
  have ls: "last_lines (admitted 1 [(1, ''a''), (1, ''b''), (1, ''c'')]) = [''a'', ''b'', ''c'']"
    by (simp add: last_lines_def admitted_def LOG_OVERLAY_LINES_def LOG_OVERLAY_LINE_LEN_def)
  then have g: "swaylock_log_get_overlay (log_all [] False [(1, ''a''), (1, ''b''), (1, ''c'')] (log_start\<lparr>log_importance := 1\<rparr>)) =
      [''a'', ''b'', ''c'']"
    using overlay_of_ring [OF log_all_ring [OF ring_holds_start [of 1]],
        of "[]" False "[(1, ''a''), (1, ''b''), (1, ''c'')]"] by (simp del: log_all.simps)
  have "overlay_max_lines 40 16 = 2"
    by (simp add: overlay_max_lines_def signed_divide_int_def)
  then have ne: "reqs \<noteq> []"
    using run g h by (auto simp del: log_all.simps simp: render_debug_overlay_def get_next_buffer_def empty_buffer_def create_buffer_def
        anonymous_shm_open_def anonymous_shm_open_loop.simps [of _ "[]"] Let_def destroy_buffer_def)
  obtain ops k top where o: "AttachOverlay 100 40 ops \<in> set reqs" "shown_texts ops = drop k [''a'', ''b'', ''c'']"
    "shown_texts ops \<noteq> []" "k = 0 \<or> 40 < (int (length (shown_texts ops)) + 1) * 16" "0 \<le> top"
    "40 - top = int (length (shown_texts ops)) * 16"
    using overlay_shows_newest [OF run ne, unfolded ls h Let_def prod.case] by auto
  have "length (shown_texts ops) = 3 - k"
    by (simp add: o(2))
  moreover have "int (length (shown_texts ops)) \<le> 2"
    using o(5,6) by simp
  ultimately have "k = 1"
    using o(3,4) by auto
  then show "\<exists>ops. AttachOverlay 100 40 ops \<in> set (fst ?run) \<and> shown_texts ops = [''b'', ''c'']"
    using o(1,2) run by auto
qed

end
