(* ===== verification/Crash.thy ===== *)
theory Crash
  imports Lifecycle
begin

text \<open>
  Builds with the option \<^verbatim>\<open>debug-unlock-on-crash\<close> (\<^verbatim>\<open>src/main.c\<close>): before the event loop starts the main
  process installs a handler for fatal signals and one for \<^verbatim>\<open>exit\<close>, both of which give the lock up. The handlers
  see the same state as the rest of the program.
\<close>

section \<open>The handlers\<close>

text \<open>The flush only hands over the requests; the display exists as soon as the lock does.\<close>

definition debug_unlock_on_exit :: "swaylock_state \<Rightarrow> swaylock_state" where
  "debug_unlock_on_exit s = (if st_lock s then unlock_and_destroy s else s)"

text \<open>The signal is raised again, with its default action; the end of the process does not run the other handler.\<close>

datatype process_end = Exited_with int | Killed_by int

definition debug_unlock_on_crash :: "int \<Rightarrow> swaylock_state \<Rightarrow> process_end \<times> swaylock_state" where
  "debug_unlock_on_crash sig s = (Killed_by sig, debug_unlock_on_exit s)"

text \<open>
  The process from the installation of the handlers to its end. It ends with \<^verbatim>\<open>exit\<close> or the end of \<^verbatim>\<open>main\<close>,
  or it is waiting for a turn when the signal arrives. A signal after any number of turns is a world with these turns only.
\<close>

definition debug_end :: "int \<Rightarrow> swaylock_state \<Rightarrow> process_end \<times> swaylock_state" where
  "debug_end sig s =
     (case st_exit s of
        Some code \<Rightarrow> (Exited_with code, debug_unlock_on_exit s)
      | None \<Rightarrow> debug_unlock_on_crash sig s)"

section \<open>The lock is given up once\<close>


text \<open>A child that crashes: the process exits with a failure and the session is open.\<close>

definition crash_turn :: turn where
  "crash_turn = sample_turn\<lparr>tn_arrive := [], tn_poll := Polled [0, POLLERR, 0]\<rparr>"


end
