(* ===== verification/Usage.thy ===== *)
theory Usage
  imports Options
begin

text \<open>
  The usage message of \<^verbatim>\<open>parse_options\<close> in \<^verbatim>\<open>src/main.c\<close>, and its agreement with the table of options. A line
  has a synopsis (the short option if there is one, the long option and its argument) and an explanation. The message
  is printed for \<^verbatim>\<open>--help\<close> and for everything that the option scanner does not know.
\<close>

section \<open>The message\<close>

definition newline :: string where
  "newline = [CHR 0x0A]"

definition usage_lines :: "(string \<times> string) list" where
  "usage_lines =
    [(''  -C, --config <config_file>       '', ''Path to the config file.'' @ newline),
     (''  -c, --color <color>              '', ''Turn the screen into the given color instead of light gray.'' @ newline),
     (''  -d, --debug                      '', ''Enable debugging output.'' @ newline),
     (''  -e, --ignore-empty-password      '', ''When an empty password is provided, do not validate it.'' @ newline),
     (''  -F, --show-failed-attempts       '', ''Show current count of failed authentication attempts.'' @ newline),
     (''  -f, --daemonize                  '', ''Detach from the controlling terminal after locking.'' @ newline),
     (''  -R, --ready-fd <fd>              '', ''File descriptor to send readiness notifications to.'' @ newline),
     (''  -h, --help                       '', ''Show help message and quit.'' @ newline),
     (''  -i, --image ['' @ ''[<output>]:]<path>  '', ''Display the given image, optionally only on the given output.'' @ newline),
     (''  -k, --show-keyboard-layout       '', ''Display the current xkb layout while typing.'' @ newline),
     (''  -K, --hide-keyboard-layout       '', ''Hide the current xkb layout while typing.'' @ newline),
     (''  -L, --disable-caps-lock-text     '', ''Disable the Caps Lock text.'' @ newline),
     (''  -l, --indicator-caps-lock        '', ''Show the current Caps Lock state also on the indicator.'' @ newline),
     (''  -s, --scaling <mode>             '', ''Image scaling mode: stretch, fill, fit, center, tile, solid_color.'' @ newline),
     (''  -t, --tiling                     '', ''Same as --scaling=tile.'' @ newline),
     (''  -u, --no-unlock-indicator        '', ''Disable the unlock indicator.'' @ newline),
     (''  -v, --version                    '', ''Show the version number and quit.'' @ newline),
     (''  --steal-unlock                   '', ''Attempt to unlock a session left locked by a crashed'' @ newline @ ''                               swaylock instance, then exit.'' @ newline),
     (''  --bs-hl-color <color>            '', ''Sets the color of backspace highlight segments.'' @ newline),
     (''  --caps-lock-bs-hl-color <color>  '', ''Sets the color of backspace highlight segments when Caps Lock is active.'' @ newline),
     (''  --caps-lock-key-hl-color <color> '', ''Sets the color of the key press highlight segments when Caps Lock is active.'' @ newline),
     (''  --font <font>                    '', ''Sets the font of the text.'' @ newline),
     (''  --font-size <size>               '', ''Sets a fixed font size for the indicator text.'' @ newline),
     (''  --indicator-idle-visible         '', ''Sets the indicator to show even if idle.'' @ newline),
     (''  --indicator-radius <radius>      '', ''Sets the indicator radius.'' @ newline),
     (''  --indicator-thickness <thick>    '', ''Sets the indicator thickness.'' @ newline),
     (''  --indicator-x-position <x>       '', ''Sets the horizontal position of the indicator.'' @ newline),
     (''  --indicator-y-position <y>       '', ''Sets the vertical position of the indicator.'' @ newline),
     (''  --inside-color <color>           '', ''Sets the color of the inside of the indicator.'' @ newline),
     (''  --inside-clear-color <color>     '', ''Sets the color of the inside of the indicator when cleared.'' @ newline),
     (''  --inside-caps-lock-color <color> '', ''Sets the color of the inside of the indicator when Caps Lock is active.'' @ newline),
     (''  --inside-ver-color <color>       '', ''Sets the color of the inside of the indicator when verifying.'' @ newline),
     (''  --inside-wrong-color <color>     '', ''Sets the color of the inside of the indicator when invalid.'' @ newline),
     (''  --key-hl-color <color>           '', ''Sets the color of the key press highlight segments.'' @ newline),
     (''  --layout-bg-color <color>        '', ''Sets the background color of the box containing the layout text.'' @ newline),
     (''  --layout-border-color <color>    '', ''Sets the color of the border of the box containing the layout text.'' @ newline),
     (''  --layout-text-color <color>      '', ''Sets the color of the layout text.'' @ newline),
     (''  --line-color <color>             '', ''Sets the color of the line between the inside and ring.'' @ newline),
     (''  --line-clear-color <color>       '', ''Sets the color of the line between the inside and ring when cleared.'' @ newline),
     (''  --line-caps-lock-color <color>   '', ''Sets the color of the line between the inside and ring when Caps Lock is active.'' @ newline),
     (''  --line-ver-color <color>         '', ''Sets the color of the line between the inside and ring when verifying.'' @ newline),
     (''  --line-wrong-color <color>       '', ''Sets the color of the line between the inside and ring when invalid.'' @ newline),
     (''  -n, --line-uses-inside           '', ''Use the inside color for the line between the inside and ring.'' @ newline),
     (''  -r, --line-uses-ring             '', ''Use the ring color for the line between the inside and ring.'' @ newline),
     (''  --ring-color <color>             '', ''Sets the color of the ring of the indicator.'' @ newline),
     (''  --ring-clear-color <color>       '', ''Sets the color of the ring of the indicator when cleared.'' @ newline),
     (''  --ring-caps-lock-color <color>   '', ''Sets the color of the ring of the indicator when Caps Lock is active.'' @ newline),
     (''  --ring-ver-color <color>         '', ''Sets the color of the ring of the indicator when verifying.'' @ newline),
     (''  --ring-wrong-color <color>       '', ''Sets the color of the ring of the indicator when invalid.'' @ newline),
     (''  --separator-color <color>        '', ''Sets the color of the lines that separate highlight segments.'' @ newline),
     (''  --text-color <color>             '', ''Sets the color of the text.'' @ newline),
     (''  --text-clear-color <color>       '', ''Sets the color of the text when cleared.'' @ newline),
     (''  --text-caps-lock-color <color>   '', ''Sets the color of the text when Caps Lock is active.'' @ newline),
     (''  --text-ver-color <color>         '', ''Sets the color of the text when verifying.'' @ newline),
     (''  --text-wrong-color <color>       '', ''Sets the color of the text when invalid.'' @ newline)]"

definition usage :: string where
  "usage =
     ''Usage: swaylock [options...]'' @ newline @ newline @ concat (map (\<lambda>(synopsis, explanation). synopsis @ explanation) usage_lines) @
     newline @ ''All <color> options are of the form <rrggbb[aa]>.'' @ newline"

section \<open>What it documents\<close>

fun split_on :: "char list \<Rightarrow> string \<Rightarrow> string list" where
  "split_on seps [] = [[]]"
| "split_on seps (c # cs) =
     (if c \<in> set seps then [] # split_on seps cs
      else case split_on seps cs of w # ws \<Rightarrow> (c # w) # ws | [] \<Rightarrow> [[c]])"

definition words_of :: "char list \<Rightarrow> string \<Rightarrow> string list" where
  "words_of seps text = filter (\<lambda>w. w \<noteq> []) (split_on seps text)"

text \<open>The short option, the long option and whether there is an argument.\<close>

definition synopsis_option :: "string \<Rightarrow> char option \<times> string \<times> bool" where
  "synopsis_option synopsis =
     (case words_of '' '' synopsis of
        [dash, c, comma] # long # args \<Rightarrow> (Some c, drop 2 long, args \<noteq> [])
      | long # args \<Rightarrow> (None, drop 2 long, args \<noteq> [])
      | [] \<Rightarrow> (None, [], False))"

definition documented :: "(char option \<times> string \<times> bool) list" where
  "documented = map (\<lambda>(synopsis, explanation). synopsis_option synopsis) usage_lines"

text \<open>The short options with the meaning of the long options next to them.\<close>

definition documented_shorts :: "(char \<times> bool \<times> opt) list" where
  "documented_shorts =
     concat (map (\<lambda>(short, name, arg).
       case short of
         None \<Rightarrow> []
       | Some c \<Rightarrow> map (\<lambda>(_, _, code). (c, arg, code)) (filter (\<lambda>(n, a, _). n = name \<and> a = arg) long_options)) documented)"

text \<open>The modes in the explanation of \<^verbatim>\<open>--scaling\<close>, which follow a colon.\<close>

definition documented_modes :: "string list" where
  "documented_modes =
     (case map_of (map (\<lambda>(synopsis, explanation). (fst (snd (synopsis_option synopsis)), explanation)) usage_lines) ''scaling'' of
        None \<Rightarrow> []
      | Some text \<Rightarrow> words_of ('' ,.'' @ newline) (tl (dropWhile (\<lambda>c. c \<noteq> CHR '':'') text)))"

lemma documented_options:
  "set (map snd documented) = set (map (\<lambda>(name, arg, _). (name, arg)) long_options)"
  "distinct (map snd documented)"
  by code_simp+

lemma documented_shorts_eq:
  "documented_shorts = map (\<lambda>c. (c, c \<in> set ''cisCR'', Short c)) ''CcdeFfRhikKLlstuvnr''"
  by code_simp

lemma documented_shorts_map: "map_of documented_shorts = short_options"
proof
  fix c
  have "map_of (map (\<lambda>c. (c, f c)) cs) c = (if c \<in> set cs then Some (f c) else None)" for f :: "char \<Rightarrow> bool \<times> opt" and cs
    by (induction cs) auto
  then show "map_of documented_shorts c = short_options c"
    unfolding documented_shorts_eq short_options_def by auto
qed

lemma documented_modes_eq: "documented_modes = [''stretch'', ''fill'', ''fit'', ''center'', ''tile'', ''solid_color'']"
  by code_simp

lemma only_help_fails:
  "filter (\<lambda>(name, arg, code). fst (apply_option os code (Some ''tile'') e) = Some (Ret 1)) long_options =
     [(''help'', False, Short CHR ''h'')]"
  by (simp add: long_options_def apply_option_def flag_option_def value_option_def color_option_def set_mode_def
      parse_background_mode_def Let_def)


end
